(* ===== verification/Proxy_Base.thy ===== *)
theory Proxy_Base
  imports Main "HOL-Library.Word" "HOL-Library.Char_ord" "HOL-Library.List_Lexorder"
    "HOL-Library.AList" "HOL-Library.Monad_Syntax"
begin

unbundle bit_operations_syntax

text \<open>
  The prelude of the development: the fixed-width integers of the source as words, Rust's
  panics as values, big-endian byte conversions, and the parts of Rust's \<open>str\<close> that the
  proxy uses (lossy UTF-8 decoding, trimming, slicing at byte offsets), with the lemmas that
  the component theories share.

  A Rust \<open>String\<close> is modelled by its UTF-8 bytes, as a list of 8-bit characters, so that
  \<open>length\<close> is Rust's \<open>len()\<close> and a slice offset is a byte offset.  A \<open>Vec<u8>\<close> or
  \<open>[u8]\<close> is a list of 8-bit words.
\<close>

named_theorems proxy_defs \<open>definitions unfolded by the component proofs\<close>
named_theorems be_simps \<open>values of the big-endian conversions\<close>
named_theorems frame_simps \<open>fields an operation leaves unchanged\<close>

section \<open>Integers\<close>

type_synonym u8 = "8 word"
type_synonym u16 = "16 word"
type_synonym u32 = "32 word"
type_synonym u64 = "64 word"
type_synonym i32 = "32 word"
type_synonym i64 = "64 word"
type_synonym bytes = "u8 list"

text \<open>\<open>saturating_sub\<close> on \<open>u64\<close>.\<close>

definition saturating_sub :: "u64 \<Rightarrow> u64 \<Rightarrow> u64" where
  "saturating_sub a b = (if a < b then 0 else a - b)"

lemma unat_saturating_sub: "unat (saturating_sub a b) = unat a - unat b"
proof (cases "a < b")
  case True
  then show ?thesis by (simp add: saturating_sub_def word_less_nat_alt)
next
  case False
  then show ?thesis by (simp add: saturating_sub_def unat_sub not_less)
qed

lemma filter_ge_upt: "filter (\<lambda>k. a \<le> k) [b ..< c] = [max a b ..< c]"
  by (induction c) (auto simp: max_def)

definition last_n :: "nat \<Rightarrow> 'a list \<Rightarrow> 'a list" where
  "last_n n xs = drop (length xs - n) xs"

lemma length_last_n [simp]: "length (last_n n xs) = min n (length xs)"
  by (simp add: last_n_def)

lemma last_n_all [simp]: "length xs \<le> n \<Longrightarrow> last_n n xs = xs"
  by (simp add: last_n_def)

lemma last_n_append: "last_n n (last_n n xs @ ys) = last_n n (xs @ ys)"
  by (cases "n \<le> length xs") (auto simp: last_n_def add.commute)

lemma map_last_n: "map f (last_n n xs) = last_n n (map f xs)"
  by (simp add: last_n_def drop_map)

section \<open>Panics\<close>

text \<open>
  A Rust computation that may panic returns \<open>Panic\<close>; the task that runs it ends there, and
  nothing after it in that task is executed.
\<close>

datatype 'a run = Ret 'a | Panic

fun bind_run :: "'a run \<Rightarrow> ('a \<Rightarrow> 'b run) \<Rightarrow> 'b run" where
  "bind_run (Ret x) f = f x"
| "bind_run Panic f = Panic"

lemma bind_run_Ret: "bind_run r f = Ret y \<longleftrightarrow> (\<exists>x. r = Ret x \<and> f x = Ret y)"
  by (cases r) auto

lemma bind_run_assoc: "bind_run (bind_run r f) g = bind_run r (\<lambda>x. bind_run (f x) g)"
  by (cases r) auto

lemma bind_run_Ret_right [simp]: "bind_run r Ret = r"
  by (cases r) auto

text \<open>\<open>xs[i]\<close> on a slice panics out of range; so does \<open>xs[a..b]\<close> when \<open>b < a\<close> or
  \<open>b > xs.len()\<close>.\<close>

definition idx :: "'a list \<Rightarrow> nat \<Rightarrow> 'a run" where
  "idx xs i = (if i < length xs then Ret (xs ! i) else Panic)"

definition slice :: "'a list \<Rightarrow> nat \<Rightarrow> nat \<Rightarrow> 'a list run" where
  "slice xs a b = (if a \<le> b \<and> b \<le> length xs then Ret (take (b - a) (drop a xs)) else Panic)"

lemma slice_Ret [simp]: "a \<le> b \<Longrightarrow> b \<le> length xs \<Longrightarrow> slice xs a b = Ret (take (b - a) (drop a xs))"
  by (simp add: slice_def)

lemma slice_Panic: "slice xs a b = Panic \<longleftrightarrow> b < a \<or> length xs < b"
  by (auto simp: slice_def)

text \<open>\<open>dst[at..at+n].copy_from_slice(src)\<close> inside the bounds of \<open>dst\<close>.\<close>

definition copy_at :: "'a list \<Rightarrow> nat \<Rightarrow> 'a list \<Rightarrow> 'a list" where
  "copy_at dst at src = take at dst @ src @ drop (at + length src) dst"

lemma length_copy_at [simp]:
  "at + length src \<le> length dst \<Longrightarrow> length (copy_at dst at src) = length dst"
  by (simp add: copy_at_def)

lemma nth_copy_at:
  "at + length src \<le> length dst \<Longrightarrow> i < length dst \<Longrightarrow>
     copy_at dst at src ! i =
       (if at \<le> i \<and> i < at + length src then src ! (i - at) else dst ! i)"
  by (auto simp: copy_at_def nth_append min_def)

section \<open>Big-endian conversions\<close>

definition u16_from_be_bytes :: "u8 \<Rightarrow> u8 \<Rightarrow> u16" where
  "u16_from_be_bytes a b = push_bit 8 (ucast a) OR ucast b"

definition u32_from_be_bytes :: "u8 \<Rightarrow> u8 \<Rightarrow> u8 \<Rightarrow> u8 \<Rightarrow> u32" where
  "u32_from_be_bytes a b c d =
     push_bit 24 (ucast a) OR push_bit 16 (ucast b) OR push_bit 8 (ucast c) OR ucast d"

definition u16_to_be_bytes :: "u16 \<Rightarrow> bytes" where
  "u16_to_be_bytes w = [ucast (drop_bit 8 w), ucast w]"

definition u32_to_be_bytes :: "u32 \<Rightarrow> bytes" where
  "u32_to_be_bytes w =
     [ucast (drop_bit 24 w), ucast (drop_bit 16 w), ucast (drop_bit 8 w), ucast w]"

lemma length_be_bytes [simp]:
  "length (u16_to_be_bytes w) = 2" "length (u32_to_be_bytes v) = 4"
  by (simp_all add: u16_to_be_bytes_def u32_to_be_bytes_def)

lemma u16_from_to_be [be_simps]:
  "u16_from_be_bytes (ucast (drop_bit 8 w)) (ucast w) = w"
  unfolding u16_from_be_bytes_def
  by (rule bit_word_eqI) (auto simp: bit_simps)

lemma u32_from_to_be [be_simps]:
  "u32_from_be_bytes (ucast (drop_bit 24 w)) (ucast (drop_bit 16 w)) (ucast (drop_bit 8 w)) (ucast w) = w"
  (is "?l = w")
proof (rule bit_word_eqI)
  fix n
  assume "n < LENGTH(32)"
  then consider "n < 8" | "8 \<le> n" "n < 16" | "16 \<le> n" "n < 24" | "24 \<le> n" "n < 32"
    by fastforce
  then show "bit ?l n = bit w n"
    unfolding u32_from_be_bytes_def by cases (auto simp: bit_simps)
qed

lemma bit_u8_ge [simp]: "8 \<le> n \<Longrightarrow> \<not> bit (b :: u8) n"
  using bit_imp_le_length [of b n] by auto

lemma to_from_be_bytes [be_simps]:
  "u16_to_be_bytes (u16_from_be_bytes a b) = [a, b]"
  by (auto simp: u16_to_be_bytes_def u16_from_be_bytes_def bit_simps intro!: bit_word_eqI)

lemma unat_u8_less [simp]: "unat (b :: u8) < 256"
  using unsigned_less [of b] by simp

lemma unat_u16_from_be_bytes: "unat (u16_from_be_bytes a b) = unat a * 256 + unat b"
proof -
  have "push_bit 8 (ucast a :: u16) AND ucast b = 0"
    by (rule bit_word_eqI) (auto simp: bit_simps dest: bit_imp_le_length)
  then have "u16_from_be_bytes a b = push_bit 8 (ucast a) + ucast b"
    unfolding u16_from_be_bytes_def by (simp add: disjunctive_add_eq_or)
  moreover have "unat a < 256" "unat b < 256"
    by simp_all
  moreover from this have "unat a * 256 + unat b < 65536"
    by linarith
  ultimately show ?thesis
    by (simp add: push_bit_eq_mult unat_word_ariths unsigned_ucast_eq take_bit_eq_mod)
qed

section \<open>UTF-8 and strings\<close>

definition char_of_u8 :: "u8 \<Rightarrow> char" where
  "char_of_u8 b = char_of (unat b)"

definition u8_of_char :: "char \<Rightarrow> u8" where
  "u8_of_char c = of_char c"

definition as_bytes :: "string \<Rightarrow> bytes" where
  "as_bytes s = map u8_of_char s"

definition from_bytes :: "bytes \<Rightarrow> string" where
  "from_bytes bs = map char_of_u8 bs"

lemma char_u8_inverse [simp]:
  "char_of_u8 (u8_of_char c) = c" "u8_of_char (char_of_u8 b) = b"
proof -
  have "unat (of_char c :: u8) = (of_char c :: nat)"
    using unat_of_nat [of "of_char c :: nat", where 'a = 8] by (simp add: of_nat_of_char)
  then show "char_of_u8 (u8_of_char c) = c"
    by (simp add: char_of_u8_def u8_of_char_def)
  have "(of_char (char_of (unat b) :: char) :: nat) = unat b"
    by simp
  then have "(of_nat (of_char (char_of (unat b) :: char)) :: u8) = b"
    by (simp only: of_nat_unat ucast_id)
  then show "u8_of_char (char_of_u8 b) = b"
    by (simp only: char_of_u8_def u8_of_char_def of_nat_of_char)
qed

lemma as_from_bytes [simp]:
  "from_bytes (as_bytes s) = s" "as_bytes (from_bytes bs) = bs"
  by (simp_all add: as_bytes_def from_bytes_def comp_def)

lemma length_as_bytes [simp]: "length (as_bytes s) = length s" "length (from_bytes bs) = length bs"
  by (simp_all add: as_bytes_def from_bytes_def)

text \<open>
  The decoder's step, as in Rust's \<open>Utf8Chunks\<close>: whether the bytes start with one well-formed
  character, and how many bytes it consumes (for an ill-formed start, the maximal prefix that
  one replacement character stands for).
\<close>

definition is_cont :: "nat \<Rightarrow> bool" where
  "is_cont b \<longleftrightarrow> 128 \<le> b \<and> b < 192"

definition second_ok :: "nat \<Rightarrow> nat \<Rightarrow> bool" where
  "second_ok b c =
     (if b = 224 then 160 \<le> c \<and> c \<le> 191
      else if b = 237 then 128 \<le> c \<and> c \<le> 159
      else if b = 240 then 144 \<le> c \<and> c \<le> 191
      else if b = 244 then 128 \<le> c \<and> c \<le> 143
      else 128 \<le> c \<and> c \<le> 191)"

definition safe_get :: "nat list \<Rightarrow> nat \<Rightarrow> nat" where
  "safe_get bs i = (if i < length bs then bs ! i else 0)"

definition utf8_step :: "nat list \<Rightarrow> bool \<times> nat" where
  "utf8_step bs =
     (let b = safe_get bs 0; c1 = safe_get bs 1; c2 = safe_get bs 2; c3 = safe_get bs 3 in
      if b < 128 then (True, 1)
      else if 194 \<le> b \<and> b \<le> 223 then (if is_cont c1 then (True, 2) else (False, 1))
      else if 224 \<le> b \<and> b \<le> 239 then
        (if \<not> second_ok b c1 then (False, 1)
         else if \<not> is_cont c2 then (False, 2) else (True, 3))
      else if 240 \<le> b \<and> b \<le> 244 then
        (if \<not> second_ok b c1 then (False, 1)
         else if \<not> is_cont c2 then (False, 2)
         else if \<not> is_cont c3 then (False, 3) else (True, 4))
      else (False, 1))"

lemma utf8_step_pos: "utf8_step bs = (v, n) \<Longrightarrow> 0 < n"
  by (auto simp: utf8_step_def Let_def split: if_splits)

text \<open>\<open>String::from_utf8_lossy\<close>: every ill-formed piece becomes U+FFFD (\<open>EF BF BD\<close>).\<close>

function lossy_codes :: "nat list \<Rightarrow> nat list" where
  "lossy_codes bs =
     (if bs = [] then []
      else case utf8_step bs of (v, n) \<Rightarrow>
        (if v then take n bs else [239, 191, 189]) @ lossy_codes (drop n bs))"
  by pat_completeness auto
termination
  by (relation "measure length") (auto dest!: sym [of "(_, _)"] dest: utf8_step_pos)

declare lossy_codes.simps [simp del]

function utf8_valid_codes :: "nat list \<Rightarrow> bool" where
  "utf8_valid_codes bs =
     (if bs = [] then True
      else case utf8_step bs of (v, n) \<Rightarrow> v \<and> utf8_valid_codes (drop n bs))"
  by pat_completeness auto
termination
  by (relation "measure length") (auto dest!: sym [of "(_, _)"] dest: utf8_step_pos)

declare utf8_valid_codes.simps [simp del]

definition from_utf8_lossy :: "bytes \<Rightarrow> string" where
  "from_utf8_lossy bs = map char_of (lossy_codes (map unat bs))"

text \<open>\<open>std::str::from_utf8\<close>.\<close>

definition from_utf8 :: "bytes \<Rightarrow> string option" where
  "from_utf8 bs = (if utf8_valid_codes (map unat bs) then Some (from_bytes bs) else None)"

text \<open>
  \<open>str::trim\<close>: the leading and trailing characters with the Unicode property
  \<open>White_Space\<close> are removed.  \<open>ws_len\<close> is the number of bytes of a white-space character at
  the start, \<open>ws_len_rev\<close> of one at the end (on the reversed bytes); 0 if there is none.
\<close>

fun ws_len :: "nat list \<Rightarrow> nat" where
  "ws_len [] = 0"
| "ws_len (a # bs) =
     (if 9 \<le> a \<and> a \<le> 13 \<or> a = 32 then 1
      else case bs of
        [] \<Rightarrow> 0
      | b # cs \<Rightarrow>
          if a = 194 \<and> (b = 133 \<or> b = 160) then 2
          else case cs of
            [] \<Rightarrow> 0
          | c # _ \<Rightarrow>
              if a = 225 \<and> b = 154 \<and> c = 128
                 \<or> a = 226 \<and> b = 128 \<and> (128 \<le> c \<and> c \<le> 138 \<or> c = 168 \<or> c = 169 \<or> c = 175)
                 \<or> a = 226 \<and> b = 129 \<and> c = 159
                 \<or> a = 227 \<and> b = 128 \<and> c = 128
              then 3 else 0)"

definition ws_len_rev :: "nat list \<Rightarrow> nat" where
  "ws_len_rev rs =
     (if ws_len (take 1 rs) = 1 then 1
      else if ws_len (rev (take 2 rs)) = 2 then 2
      else if ws_len (rev (take 3 rs)) = 3 then 3 else 0)"

function trim_codes :: "(nat list \<Rightarrow> nat) \<Rightarrow> nat list \<Rightarrow> nat list" where
  "trim_codes f bs =
     (if bs = [] \<or> f bs = 0 then bs else trim_codes f (drop (f bs) bs))"
  by pat_completeness auto
termination
  by (relation "measure (length \<circ> snd)") auto

declare trim_codes.simps [simp del]

definition trim_start :: "string \<Rightarrow> string" where
  "trim_start s = map char_of (trim_codes ws_len (map of_char s))"

definition trim_end :: "string \<Rightarrow> string" where
  "trim_end s = map char_of (rev (trim_codes ws_len_rev (rev (map of_char s))))"

definition trim :: "string \<Rightarrow> string" where
  "trim s = trim_end (trim_start s)"

text \<open>\<open>trim_ascii_end\<close> on bytes.\<close>

definition is_ascii_ws :: "u8 \<Rightarrow> bool" where
  "is_ascii_ws b \<longleftrightarrow> b = 9 \<or> b = 10 \<or> b = 12 \<or> b = 13 \<or> b = 32"

definition trim_ascii_end :: "bytes \<Rightarrow> bytes" where
  "trim_ascii_end bs = rev (dropWhile is_ascii_ws (rev bs))"

text \<open>
  \<open>&s[a..b]\<close>: a slice of a \<open>str\<close> panics unless both ends are in range, in order, and on a
  character boundary.
\<close>

definition is_char_boundary :: "string \<Rightarrow> nat \<Rightarrow> bool" where
  "is_char_boundary s i \<longleftrightarrow>
     i = 0 \<or> i = length s \<or> (i < length s \<and> \<not> is_cont (of_char (s ! i)))"

definition str_slice :: "string \<Rightarrow> nat \<Rightarrow> nat \<Rightarrow> string run" where
  "str_slice s a b =
     (if a \<le> b \<and> b \<le> length s \<and> is_char_boundary s a \<and> is_char_boundary s b
      then Ret (take (b - a) (drop a s)) else Panic)"

text \<open>\<open>&s[..s.len().min(n)]\<close>, the prefix the log lines print.\<close>

definition log_prefix :: "string \<Rightarrow> nat \<Rightarrow> string run" where
  "log_prefix s n = str_slice s 0 (min (length s) n)"

text \<open>\<open>s.find(pat)\<close>: the first byte offset at which the pattern occurs.\<close>

fun str_find :: "string \<Rightarrow> string \<Rightarrow> nat option" where
  "str_find pat [] = (if pat = [] then Some 0 else None)"
| "str_find pat (c # cs) =
     (if take (length pat) (c # cs) = pat then Some 0
      else map_option Suc (str_find pat cs))"

definition str_contains :: "string \<Rightarrow> string \<Rightarrow> bool" where
  "str_contains s pat = (str_find pat s \<noteq> None)"

definition starts_with :: "string \<Rightarrow> string \<Rightarrow> bool" where
  "starts_with s pat = (take (length pat) s = pat)"

definition ends_with :: "string \<Rightarrow> string \<Rightarrow> bool" where
  "ends_with s pat = (length pat \<le> length s \<and> drop (length s - length pat) s = pat)"

definition nl :: u8 where "nl = 10"

definition crlf :: string where "crlf = [CHR 0x0D, CHR 0x0A]"

section \<open>Decimal formatting\<close>

definition digit :: "nat \<Rightarrow> char" where
  "digit d = char_of (48 + d)"

fun show_nat :: "nat \<Rightarrow> string" where
  "show_nat n = (if n < 10 then [digit n] else show_nat (n div 10) @ [digit (n mod 10)])"

declare show_nat.simps [simp del]

text \<open>\<open>format!("{n:04}")\<close>.\<close>

definition pad4 :: "nat \<Rightarrow> string" where
  "pad4 n = replicate (4 - length (show_nat n)) CHR ''0'' @ show_nat n"

lemma digit_less [simp]: "d < 10 \<Longrightarrow> e < 10 \<Longrightarrow> digit d < digit e \<longleftrightarrow> d < e"
  by (simp add: digit_def less_char_def)

lemma digit_eq [simp]: "d < 10 \<Longrightarrow> e < 10 \<Longrightarrow> digit d = digit e \<longleftrightarrow> d = e"
  by (metis digit_less less_irrefl linorder_neq_iff)

lemma zero_digit: "CHR ''0'' = digit 0"
  by code_simp

lemma show_nat_lt10: "n < 10 \<Longrightarrow> show_nat n = [digit n]"
  by (simp add: show_nat.simps)

lemma show_nat_ge10: "10 \<le> n \<Longrightarrow> show_nat n = show_nat (n div 10) @ [digit (n mod 10)]"
  by (simp add: show_nat.simps [of n])

lemma replicate_small: "replicate 2 x = [x, x]" "replicate 3 x = [x, x, x]"
  by (simp_all add: numeral_eq_Suc)

lemma pad4_lt:
  assumes "n < 10000"
  shows "pad4 n = [digit (n div 1000), digit (n div 100 mod 10), digit (n div 10 mod 10), digit (n mod 10)]"
proof -
  have d: "n div 10 div 10 = n div 100" "n div 10 div 10 div 10 = n div 1000"
    by (simp_all add: div_mult2_eq [symmetric])
  consider "n < 10" | "10 \<le> n" "n < 100" | "100 \<le> n" "n < 1000" | "1000 \<le> n" by linarith
  then show ?thesis
  proof cases
    case 1
    then have s: "show_nat n = [digit n]" by (rule show_nat_lt10)
    from 1 have "n div 10 = 0" "n div 100 = 0" "n div 1000 = 0" "n mod 10 = n" by simp_all
    with s show ?thesis by (simp add: pad4_def zero_digit replicate_small)
  next
    case 2
    then have k: "n div 10 < 10" by linarith
    have s: "show_nat n = [digit (n div 10), digit (n mod 10)]"
      using 2(1) k by (simp add: show_nat_ge10 show_nat_lt10)
    from 2 k have "n div 100 = 0" "n div 1000 = 0" "n div 10 mod 10 = n div 10" by simp_all
    with s show ?thesis by (simp add: pad4_def zero_digit replicate_small)
  next
    case 3
    then have k: "10 \<le> n div 10" "n div 10 div 10 < 10" by linarith+
    have s: "show_nat n = [digit (n div 100), digit (n div 10 mod 10), digit (n mod 10)]"
      using 3(1) k by (simp add: show_nat_ge10 show_nat_lt10 d)
    from 3 k d have "n div 1000 = 0" "n div 100 mod 10 = n div 100" by simp_all
    with s show ?thesis by (simp add: pad4_def zero_digit)
  next
    case 4
    then have k: "10 \<le> n div 10" "10 \<le> n div 10 div 10" "n div 10 div 10 div 10 < 10"
      using assms by linarith+
    have s: "show_nat n = [digit (n div 1000), digit (n div 100 mod 10), digit (n div 10 mod 10),
        digit (n mod 10)]"
      using 4 k by (simp add: show_nat_ge10 show_nat_lt10 d)
    then show ?thesis by (simp add: pad4_def)
  qed
qed

lemma digits_less:
  fixes a b c d a' b' c' d' :: nat
  assumes "a * 1000 + b * 100 + c * 10 + d < a' * 1000 + b' * 100 + c' * 10 + d'"
    and "b < 10" "c < 10" "d < 10" "b' < 10" "c' < 10" "d' < 10"
  shows "a < a' \<or> a = a' \<and> (b < b' \<or> b = b' \<and> (c < c' \<or> c = c' \<and> d < d'))"
proof (cases "a = a'")
  case True
  then show ?thesis
  proof (cases "b = b'")
    case b: True
    then show ?thesis using True assms by (cases "c = c'") auto
  qed (use assms in auto)
qed (use assms in linarith)

lemma digits_nat:
  fixes n :: nat
  shows "n = (n div 1000) * 1000 + (n div 100 mod 10) * 100 + (n div 10 mod 10) * 10 + n mod 10"
proof -
  have "n div 100 = n div 10 div 10" "n div 1000 = n div 10 div 10 div 10"
    by (simp_all add: div_mult2_eq [symmetric])
  moreover have "n = n div 10 * 10 + n mod 10" "n div 10 = n div 10 div 10 * 10 + n div 10 mod 10"
    "n div 10 div 10 = n div 10 div 10 div 10 * 10 + n div 10 div 10 mod 10"
    by (simp_all only: div_mult_mod_eq)
  ultimately show ?thesis by (simp only:)
qed

lemma pad4_less:
  assumes "i < j" and "j < 10000"
  shows "pad4 i @ s < pad4 j @ t"
proof -
  have "i div 1000 < j div 1000 \<or> i div 1000 = j div 1000 \<and>
      (i div 100 mod 10 < j div 100 mod 10 \<or> i div 100 mod 10 = j div 100 mod 10 \<and>
       (i div 10 mod 10 < j div 10 mod 10 \<or> i div 10 mod 10 = j div 10 mod 10 \<and> i mod 10 < j mod 10))"
    using assms(1) by (intro digits_less) (simp_all flip: digits_nat)
  moreover have "i div 1000 < 10" "j div 1000 < 10" "i < 10000"
    using assms by linarith+
  ultimately show ?thesis
    using assms by (auto simp: pad4_lt)
qed

end
