(* ===== verification/Json_Value.thy ===== *)
theory Json_Value
  imports Proxy_Base
begin

text \<open>
  The data type \<open>serde_json::Value\<close> and the accessors the proxy calls on it.  An object is a
  \<open>BTreeMap\<close> (the crate is built without \<open>preserve_order\<close>, see \<open>Cargo.lock\<close>), here a list of
  pairs in ascending key order.  A 64-bit float is its IEEE 754 bit pattern; the conversions
  \<open>as_f64\<close> and \<open>f64::round() as i64\<close> are written out on it.

  The parser and the serialiser of the crate are not part of the repository: they appear as the
  fields \<open>from_str\<close> and \<open>to_string\<close> of \<open>json_codec\<close>, a parameter of every definition that
  uses them.
\<close>

section \<open>64-bit floats\<close>

type_synonym f64 = "64 word"

fun bit_length :: "nat \<Rightarrow> nat" where
  "bit_length n = (if n = 0 then 0 else Suc (bit_length (n div 2)))"

declare bit_length.simps [simp del]

definition f64_bits :: "bool \<Rightarrow> nat \<Rightarrow> nat \<Rightarrow> f64" where
  "f64_bits neg e m = of_nat ((if neg then 2 ^ 63 else 0) + e * 2 ^ 52 + m)"

definition f64_sign :: "f64 \<Rightarrow> bool" where
  "f64_sign b \<longleftrightarrow> 2 ^ 63 \<le> unat b"

definition f64_exp :: "f64 \<Rightarrow> nat" where
  "f64_exp b = (unat b div 2 ^ 52) mod 2 ^ 11"

definition f64_man :: "f64 \<Rightarrow> nat" where
  "f64_man b = unat b mod 2 ^ 52"

text \<open>\<open>n as f64\<close> for an integer of at most 64 bits: nearest, ties to even.\<close>

definition f64_of_nat :: "bool \<Rightarrow> nat \<Rightarrow> f64" where
  "f64_of_nat neg n =
     (if n = 0 then f64_bits neg 0 0
      else let k = bit_length n - 1 in
        if k \<le> 52 then f64_bits neg (1023 + k) (n * 2 ^ (52 - k) - 2 ^ 52)
        else let sh = k - 52; q = n div 2 ^ sh; r = n mod 2 ^ sh; half = 2 ^ (sh - 1);
                 q' = (if half < r \<or> r = half \<and> odd q then Suc q else q)
             in if q' = 2 ^ 53 then f64_bits neg (1024 + k) 0
                else f64_bits neg (1023 + k) (q' - 2 ^ 52))"

text \<open>\<open>x.round() as i64\<close>: half away from zero, saturating, NaN to 0.\<close>

definition f64_round_mag :: "f64 \<Rightarrow> nat" where
  "f64_round_mag b =
     (let e = f64_exp b; m = f64_man b; sig = (if e = 0 then m else 2 ^ 52 + m);
          e' = (if e = 0 then 1 else e)
      in if 1075 \<le> e' then sig * 2 ^ (e' - 1075)
         else (2 * sig + 2 ^ (1075 - e')) div 2 ^ (1076 - e'))"

definition f64_round_i64 :: "f64 \<Rightarrow> int" where
  "f64_round_i64 b =
     (if f64_exp b = 2047 \<and> f64_man b \<noteq> 0 then 0
      else if f64_exp b = 2047 then (if f64_sign b then - (2 ^ 63) else 2 ^ 63 - 1)
      else let n = int (f64_round_mag b) in
        if f64_sign b then max (- n) (- (2 ^ 63)) else min n (2 ^ 63 - 1))"

section \<open>Values\<close>

text \<open>\<open>PosInt\<close> holds a \<open>u64\<close>, \<open>NegInt\<close> a negative \<open>i64\<close>.\<close>

datatype json_number = PosInt u64 | NegInt i64 | FloatNum f64

datatype json =
    Null
  | Bool bool
  | Number json_number
  | Str string
  | Arr "json list"
  | Obj "(string \<times> json) list"

section \<open>The object map\<close>

fun map_insert :: "string \<Rightarrow> 'v \<Rightarrow> (string \<times> 'v) list \<Rightarrow> (string \<times> 'v) list" where
  "map_insert k v [] = [(k, v)]"
| "map_insert k v ((k', v') # m) =
     (if k = k' then (k, v) # m
      else if k < k' then (k, v) # (k', v') # m
      else (k', v') # map_insert k v m)"

definition map_remove :: "string \<Rightarrow> (string \<times> 'v) list \<Rightarrow> (string \<times> 'v) list" where
  "map_remove k m = filter (\<lambda>p. fst p \<noteq> k) m"

definition map_wf :: "(string \<times> 'v) list \<Rightarrow> bool" where
  "map_wf m \<longleftrightarrow> sorted_wrt (<) (map fst m)"

text \<open>The map literal of the \<open>json!\<close> macro inserts its members one after the other.\<close>

definition obj :: "(string \<times> json) list \<Rightarrow> json" where
  "obj kvs = Obj (fold (\<lambda>(k, v). map_insert k v) kvs [])"

lemma map_of_map_insert [simp]: "map_of (map_insert k v m) = (map_of m)(k \<mapsto> v)"
  by (induction k v m rule: map_insert.induct) auto

lemma map_of_map_remove [simp]: "map_of (map_remove k m) = (map_of m)(k := None)"
  by (induction m) (auto simp: map_remove_def)

lemma fst_map_insert: "fst ` set (map_insert k v m) = insert k (fst ` set m)"
  by (induction k v m rule: map_insert.induct) auto

lemma map_wf_insert: "map_wf m \<Longrightarrow> map_wf (map_insert k v m)"
proof (induction k v m rule: map_insert.induct)
  case (2 k v k' v' m)
  have "fst ` set (map_insert k v m) = insert k (fst ` set m)"
    by (rule fst_map_insert)
  with 2 show ?case by (auto simp: map_wf_def)
qed (simp add: map_wf_def)

lemma map_wf_remove: "map_wf m \<Longrightarrow> map_wf (map_remove k m)"
proof (induction m)
  case (Cons p m)
  then show ?case by (auto simp: map_remove_def map_wf_def)
qed (simp add: map_remove_def map_wf_def)

lemma map_insert_insert [simp]: "map_insert k v (map_insert k w m) = map_insert k v m"
  by (induction k w m rule: map_insert.induct) auto

lemma map_insert_same: "map_wf m \<Longrightarrow> map_of m k = Some v \<Longrightarrow> map_insert k v m = m"
proof (induction k v m rule: map_insert.induct)
  case (2 k v k' v' m)
  show ?case
  proof (cases "k = k'")
    case False
    with 2 have "k \<in> fst ` set m" by (force simp: dest: map_of_SomeD)
    with 2 have "k' < k" by (auto simp: map_wf_def)
    with 2 False show ?thesis by (auto simp: map_wf_def)
  qed (use 2 in simp)
qed simp

text \<open>The contract of the ordered map, and what its clients need of it.\<close>

locale string_map =
  fixes lookup :: "'m \<Rightarrow> string \<Rightarrow> 'v option"
    and insert :: "string \<Rightarrow> 'v \<Rightarrow> 'm \<Rightarrow> 'm"
    and remove :: "string \<Rightarrow> 'm \<Rightarrow> 'm"
    and invar :: "'m \<Rightarrow> bool"
  assumes lookup_insert: "lookup (insert k v m) = (lookup m)(k := Some v)"
    and lookup_remove: "lookup (remove k m) = (lookup m)(k := None)"
    and invar_insert: "invar m \<Longrightarrow> invar (insert k v m)"
    and invar_remove: "invar m \<Longrightarrow> invar (remove k m)"
begin

lemma lookup_insert_same: "lookup (insert k v m) k = Some v"
  by (simp add: lookup_insert)

lemma lookup_insert_other: "k' \<noteq> k \<Longrightarrow> lookup (insert k v m) k' = lookup m k'"
  by (simp add: lookup_insert)

lemma lookup_reinsert: "lookup m k = Some v \<Longrightarrow> lookup (insert k v (insert k w m)) = lookup m"
  by (auto simp: lookup_insert)

lemma lookup_remove_other: "k' \<noteq> k \<Longrightarrow> lookup (remove k m) k' = lookup m k'"
  by (simp add: lookup_remove)

lemma invar_fold: "invar m \<Longrightarrow> invar (fold (\<lambda>(k, v). insert k v) kvs m)"
  by (induction kvs arbitrary: m) (auto simp: invar_insert)

end

interpretation omap: string_map map_of map_insert map_remove map_wf
  by unfold_locales (simp_all add: map_wf_insert map_wf_remove)

section \<open>Accessors\<close>

definition jget :: "json \<Rightarrow> string \<Rightarrow> json option" where
  "jget v k = (case v of Obj m \<Rightarrow> map_of m k | _ \<Rightarrow> None)"

definition as_str :: "json \<Rightarrow> string option" where
  "as_str v = (case v of Str s \<Rightarrow> Some s | _ \<Rightarrow> None)"

definition as_bool :: "json \<Rightarrow> bool option" where
  "as_bool v = (case v of Bool b \<Rightarrow> Some b | _ \<Rightarrow> None)"

definition as_object :: "json \<Rightarrow> (string \<times> json) list option" where
  "as_object v = (case v of Obj m \<Rightarrow> Some m | _ \<Rightarrow> None)"

definition as_u64 :: "json \<Rightarrow> u64 option" where
  "as_u64 v = (case v of Number (PosInt n) \<Rightarrow> Some n | _ \<Rightarrow> None)"

definition as_i64 :: "json \<Rightarrow> int option" where
  "as_i64 v = (case v of
      Number (PosInt n) \<Rightarrow> (if unat n < 2 ^ 63 then Some (int (unat n)) else None)
    | Number (NegInt n) \<Rightarrow> Some (sint n)
    | _ \<Rightarrow> None)"

definition as_f64 :: "json \<Rightarrow> f64 option" where
  "as_f64 v = (case v of
      Number (PosInt n) \<Rightarrow> Some (f64_of_nat False (unat n))
    | Number (NegInt n) \<Rightarrow> Some (f64_of_nat True (nat (- sint n)))
    | Number (FloatNum f) \<Rightarrow> Some f
    | _ \<Rightarrow> None)"

definition is_null :: "json \<Rightarrow> bool" where
  "is_null v \<longleftrightarrow> v = Null"

definition is_string :: "json \<Rightarrow> bool" where
  "is_string v \<longleftrightarrow> as_str v \<noteq> None"

text \<open>\<open>Value::pointer\<close> on the reference tokens of the path.  The paths of the source have
  alphabetic tokens only, which no array index matches.\<close>

fun pointer :: "json \<Rightarrow> string list \<Rightarrow> json option" where
  "pointer v [] = Some v"
| "pointer v (t # ts) = (case jget v t of None \<Rightarrow> None | Some w \<Rightarrow> pointer w ts)"

text \<open>\<open>value[key] = v\<close>: an object gets the member, \<open>null\<close> becomes an object, anything else
  panics.\<close>

definition index_set :: "json \<Rightarrow> string \<Rightarrow> json \<Rightarrow> json run" where
  "index_set v k w = (case v of
      Obj m \<Rightarrow> Ret (Obj (map_insert k w m))
    | Null \<Rightarrow> Ret (Obj [(k, w)])
    | _ \<Rightarrow> Panic)"

text \<open>Well-formed values: every object is in ascending key order, every \<open>NegInt\<close> negative.\<close>

fun json_wf :: "json \<Rightarrow> bool" where
  "json_wf (Number (NegInt n)) = (sint n < 0)"
| "json_wf (Arr vs) = (\<forall>v \<in> set vs. json_wf v)"
| "json_wf (Obj m) = (map_wf m \<and> (\<forall>p \<in> set m. json_wf (snd p)))"
| "json_wf _ = True"

record json_codec =
  from_str :: "string \<Rightarrow> json option"
  to_string :: "json \<Rightarrow> string option"

definition num :: "nat \<Rightarrow> json" where
  "num n = Number (PosInt (of_nat n))"

lemma as_Some_iff [simp]:
  "as_u64 v = Some n \<longleftrightarrow> v = Number (PosInt n)"
  "as_str v = Some s \<longleftrightarrow> v = Str s"
  "as_bool v = Some b \<longleftrightarrow> v = Bool b"
  "as_object v = Some m \<longleftrightarrow> v = Obj m"
  by (auto simp: as_u64_def as_str_def as_bool_def as_object_def
      split: json.splits json_number.splits)

lemma jget_Some: "jget v k = Some w \<Longrightarrow> \<exists>m. v = Obj m \<and> map_of m k = Some w"
  by (cases v) (auto simp: jget_def)

lemma jget_Obj [simp]: "jget (Obj m) k = map_of m k"
  by (simp add: jget_def)

lemma jget_non_object: "as_object v = None \<Longrightarrow> jget v k = None"
  by (cases v) (simp_all add: jget_def as_object_def)

lemma set_map_insert: "set (map_insert k v m) \<subseteq> insert (k, v) (set m)"
  by (induction k v m rule: map_insert.induct) auto

lemma json_wf_map_insert: "json_wf (Obj m) \<Longrightarrow> json_wf v \<Longrightarrow> json_wf (Obj (map_insert k v m))"
  using set_map_insert [of k v m] by (auto simp: map_wf_insert)

lemma json_wf_map_remove: "json_wf (Obj m) \<Longrightarrow> json_wf (Obj (map_remove k m))"
  by (auto simp: map_wf_remove) (auto simp: map_remove_def)

lemma jget_obj_insert: "map_of (fold (\<lambda>(k, v). map_insert k v) kvs m) = map_of m ++ map_of (rev kvs)"
  by (induction kvs arbitrary: m) (auto simp: map_add_def fun_eq_iff split: option.splits)

lemma jget_obj [simp]: "jget (obj kvs) k = map_of (rev kvs) k"
  by (simp add: obj_def jget_obj_insert)

text \<open>An ordered map is determined by its lookups, so objects may be compared by their members.\<close>

lemma map_wf_unique:
  assumes "map_wf m" and "map_wf m'" and "map_of m = map_of m'"
  shows "m = m'"
proof -
  have s: "sorted_wrt (<) (map fst m)" "sorted_wrt (<) (map fst m')" using assms by (simp_all add: map_wf_def)
  then have d: "distinct (map fst m)" "distinct (map fst m')" by (simp_all add: strict_sorted_iff)
  have "set m = set m'" using assms(3) d by (metis map_of_inject_set)
  then show ?thesis
    using s by (intro map_sorted_distinct_set_unique [of fst]) (auto simp: strict_sorted_iff d inj_on_def dest: map_of_is_SomeI [OF d(1)] map_of_is_SomeI [OF d(2)])
qed

lemma map_wf_Nil: "map_wf []"
  by (simp add: map_wf_def)

lemma obj_eqI: "map_of (rev kvs) = map_of (rev kvs') \<Longrightarrow> obj kvs = obj kvs'"
  unfolding obj_def
  by (rule arg_cong [of _ _ Obj], rule map_wf_unique)
    (simp_all add: jget_obj_insert omap.invar_fold [OF map_wf_Nil])

lemma obj_insert: "Obj (map_insert k v m) = obj (kvs @ [(k, v)])" if "Obj m = obj kvs"
  using that by (simp add: obj_def)

end
