(* ===== verification/Protocol.thy ===== *)
theory Protocol
  imports Json_Value
begin

text \<open>
  \<open>src/protocol.rs\<close>: the 80-byte frame header of the imaging port and the helpers on
  JSON-RPC messages of the control port.
\<close>

section \<open>Frame headers\<close>

definition HEADER_SIZE :: nat where "HEADER_SIZE = 80"

record frame_header =
  fh_size :: u32
  fh_code :: u8
  fh_id :: u8
  fh_width :: u16
  fh_height :: u16

text \<open>\<open>FrameHeader::parse\<close>; the argument is an array of exactly 80 bytes.\<close>

definition parse_header :: "bytes \<Rightarrow> frame_header" where
  "parse_header buf =
     \<lparr> fh_size = u32_from_be_bytes (buf ! 6) (buf ! 7) (buf ! 8) (buf ! 9),
       fh_code = buf ! 14,
       fh_id = buf ! 15,
       fh_width = u16_from_be_bytes (buf ! 16) (buf ! 17),
       fh_height = u16_from_be_bytes (buf ! 18) (buf ! 19) \<rparr>"

definition is_image :: "frame_header \<Rightarrow> bool" where
  "is_image h \<longleftrightarrow> 0 < fh_width h \<and> 0 < fh_height h \<and> 1000 < fh_size h"

definition DISCOVERY_PORT :: u16 where "DISCOVERY_PORT = 4720"

section \<open>JSON-RPC helpers\<close>

definition json_rpc_id :: "json \<Rightarrow> u64 option" where
  "json_rpc_id msg = Option.bind (jget msg ''id'') as_u64"

definition set_json_rpc_id :: "json \<Rightarrow> u64 \<Rightarrow> json" where
  "set_json_rpc_id msg new_id = (case msg of
      Obj m \<Rightarrow> Obj (map_insert ''id'' (Number (PosInt new_id)) m)
    | _ \<Rightarrow> msg)"

definition is_event :: "json \<Rightarrow> bool" where
  "is_event msg \<longleftrightarrow> jget msg ''Event'' \<noteq> None"

definition is_response :: "json \<Rightarrow> bool" where
  "is_response msg \<longleftrightarrow>
     jget msg ''id'' \<noteq> None \<and> (jget msg ''code'' \<noteq> None \<or> jget msg ''result'' \<noteq> None)"

definition method_name :: "json \<Rightarrow> string option" where
  "method_name msg = Option.bind (jget msg ''method'') as_str"

definition get_id :: "json \<Rightarrow> json option" where
  "get_id msg = Option.bind (jget msg ''id'') (\<lambda>v. if is_null v then None else Some v)"

definition set_json_rpc_id_value :: "json \<Rightarrow> json \<Rightarrow> json" where
  "set_json_rpc_id_value msg v = (case msg of
      Obj m \<Rightarrow> Obj (map_insert ''id'' v m)
    | _ \<Rightarrow> msg)"

lemmas protocol_defs = json_rpc_id_def set_json_rpc_id_def is_event_def is_response_def
  method_name_def get_id_def set_json_rpc_id_value_def

section \<open>The wire layout as a specification\<close>

text \<open>
  The layout the module documents, \<open>>HHHIHHBBHH\<close> in the first 20 bytes and 60 bytes of
  padding, as an encoder: three \<open>u16\<close>, the payload size, two \<open>u16\<close>, code, type, width, height.
\<close>

definition encode_header :: "u16 \<Rightarrow> u16 \<Rightarrow> u16 \<Rightarrow> u16 \<Rightarrow> u16 \<Rightarrow> frame_header \<Rightarrow> bytes" where
  "encode_header a b c d e h =
     u16_to_be_bytes a @ u16_to_be_bytes b @ u16_to_be_bytes c @ u32_to_be_bytes (fh_size h) @
     u16_to_be_bytes d @ u16_to_be_bytes e @ [fh_code h, fh_id h] @
     u16_to_be_bytes (fh_width h) @ u16_to_be_bytes (fh_height h) @ replicate 60 0"

lemma length_encode_header [simp]: "length (encode_header a b c d e h) = HEADER_SIZE"
  by (simp add: encode_header_def HEADER_SIZE_def)

lemma parse_encode_header [simp]: "parse_header (encode_header a b c d e h) = h"
  by (simp add: parse_header_def encode_header_def u16_to_be_bytes_def u32_to_be_bytes_def be_simps)

section \<open>Lemmas\<close>

lemma get_id_object: "get_id msg = Some v \<Longrightarrow> \<exists>m. msg = Obj m \<and> map_of m ''id'' = Some v \<and> v \<noteq> Null"
  by (cases msg) (auto simp: get_id_def jget_def is_null_def Option.bind_eq_Some_conv split: if_splits)

lemma json_rpc_id_object:
  "json_rpc_id msg = Some n \<Longrightarrow> \<exists>m. msg = Obj m \<and> map_of m ''id'' = Some (Number (PosInt n))"
  by (auto simp: json_rpc_id_def Option.bind_eq_Some_conv dest: jget_Some)

lemma json_rpc_id_set: "as_object msg \<noteq> None \<Longrightarrow> json_rpc_id (set_json_rpc_id msg n) = Some n"
  by (cases msg) (simp_all add: protocol_defs as_object_def as_u64_def)

lemma get_id_set_value:
  "as_object msg \<noteq> None \<Longrightarrow> v \<noteq> Null \<Longrightarrow> get_id (set_json_rpc_id_value msg v) = Some v"
  by (cases msg) (simp_all add: protocol_defs as_object_def is_null_def)

lemma jget_set_other:
  "k \<noteq> ''id'' \<Longrightarrow> jget (set_json_rpc_id msg n) k = jget msg k"
  "k \<noteq> ''id'' \<Longrightarrow> jget (set_json_rpc_id_value msg v) k = jget msg k"
  by (cases msg; simp add: protocol_defs)+

lemma method_name_set [simp]:
  "method_name (set_json_rpc_id msg n) = method_name msg"
  "method_name (set_json_rpc_id_value msg v) = method_name msg"
  by (simp_all add: method_name_def jget_set_other)

lemma is_event_set [simp]:
  "is_event (set_json_rpc_id msg n) = is_event msg"
  "is_event (set_json_rpc_id_value msg v) = is_event msg"
  by (simp_all add: is_event_def jget_set_other)

lemma set_json_rpc_id_value_eq:
  "json_wf msg \<Longrightarrow> get_id msg = Some v \<Longrightarrow> set_json_rpc_id_value (set_json_rpc_id msg n) v = msg"
  by (drule get_id_object) (auto simp: protocol_defs map_insert_same)

lemma json_wf_set_id:
  "json_wf msg \<Longrightarrow> json_wf (set_json_rpc_id msg n)"
  "json_wf msg \<Longrightarrow> json_wf v \<Longrightarrow> json_wf (set_json_rpc_id_value msg v)"
  by (cases msg; auto simp: protocol_defs json_wf_map_insert simp del: json_wf.simps(3))+

section \<open>Properties\<close>

text \<open>Remapping round trip: for a message with a non-null id, replacing the id by the remapped
  one and then restoring the original gives back exactly the message, whatever JSON type the id
  has; in between, the id is the remapped one and no other member has changed.
\<close>

theorem remap_restore_id:
  assumes "json_wf msg" and "get_id msg = Some v"
  shows "json_rpc_id (set_json_rpc_id msg n) = Some n \<and>
    (\<forall>k. k \<noteq> ''id'' \<longrightarrow> jget (set_json_rpc_id msg n) k = jget msg k) \<and>
    set_json_rpc_id_value (set_json_rpc_id msg n) v = msg"
  using assms get_id_object [OF assms(2)]
  by (auto simp: set_json_rpc_id_value_eq jget_set_other json_rpc_id_set as_object_def)

theorem remap_restore_id_witness:
  "set_json_rpc_id_value
     (set_json_rpc_id (obj [(''id'', Str ''a7''), (''method'', Str ''get_time'')]) 100000) (Str ''a7'')
   = obj [(''id'', Str ''a7''), (''method'', Str ''get_time'')]"
  using remap_restore_id [of "obj [(''id'', Str ''a7''), (''method'', Str ''get_time'')]" "Str ''a7''" 100000]
  by (simp add: obj_def map_wf_def get_id_def is_null_def)

text \<open>Wire layout of the frame header: parsing the documented big-endian layout returns the
  encoded fields, and a frame counts as an image exactly when both dimensions are positive and
  the payload exceeds 1000 bytes.
\<close>

theorem parse_header_layout:
  "length (encode_header a b c d e h) = HEADER_SIZE \<and>
   parse_header (encode_header a b c d e h) = h \<and>
   (is_image (parse_header (encode_header a b c d e h)) \<longleftrightarrow>
      unat (fh_width h) \<noteq> 0 \<and> unat (fh_height h) \<noteq> 0 \<and> 1000 < unat (fh_size h))"
  by (auto simp: is_image_def word_less_nat_alt)

end
