(* ===== verification/Metrics.thy ===== *)
theory Metrics
  imports Protocol
begin

text \<open>
  \<open>src/metrics.rs\<close>: the counters, the bounded traffic log and the telescope status that the
  proxy tasks update and the dashboard reads.  The atomics are fields that wrap at their width;
  the two mutexes are held for one update each, so an update is one step.  The clock readings of
  the source (\<open>SystemTime::now\<close>, \<open>Instant::elapsed\<close>) are arguments.
\<close>

definition LOG_CAPACITY :: nat where "LOG_CAPACITY = 100"

record telescope_status =
  battery :: "int option"
  temperature :: "f64 option"
  is_stacking :: bool
  stack_count :: int
  is_goto :: bool
  is_homing :: bool
  tracking :: bool
  view_mode :: "string option"
  charger_status :: "string option"
  last_event :: "string option"
  last_event_ts_ms :: u64

definition telescope_status_default :: telescope_status where
  "telescope_status_default =
     \<lparr> battery = None, temperature = None, is_stacking = False, stack_count = 0, is_goto = False,
       is_homing = False, tracking = False, view_mode = None, charger_status = None,
       last_event = None, last_event_ts_ms = 0 \<rparr>"

record log_entry =
  seq :: u64
  elapsed_ms :: u64
  timestamp_ms :: u64
  channel :: string
  summary :: string
  payload :: "string option"

record metrics =
  control_rx :: u64
  control_tx :: u64
  control_events :: u64
  imaging_frames :: u64
  imaging_bytes :: u64
  control_clients :: i32
  imaging_clients :: i32
  upstream_control_up :: bool
  upstream_imaging_up :: bool
  log :: "log_entry list"
  log_seq :: u64
  telescope_status :: telescope_status

definition metrics_new :: metrics where
  "metrics_new =
     \<lparr> control_rx = 0, control_tx = 0, control_events = 0, imaging_frames = 0, imaging_bytes = 0,
       control_clients = 0, imaging_clients = 0, upstream_control_up = False,
       upstream_imaging_up = False, log = [], log_seq = 0,
       telescope_status = telescope_status_default \<rparr>"

text \<open>The two clock readings of a log entry: milliseconds since the start and since the epoch.\<close>

record clock =
  now_elapsed_ms :: u64
  now_epoch_ms :: u64

section \<open>The traffic log\<close>

text \<open>The locked part of \<open>push_log_with_payload\<close>.\<close>

definition log_append :: "log_entry list \<Rightarrow> log_entry \<Rightarrow> log_entry list" where
  "log_append l e = (if LOG_CAPACITY \<le> length l then tl l else l) @ [e]"

definition push_log_with_payload ::
    "clock \<Rightarrow> string \<Rightarrow> string \<Rightarrow> string option \<Rightarrow> metrics \<Rightarrow> metrics" where
  "push_log_with_payload now ch smry pl m =
     (let sq = log_seq m;
          entry = \<lparr> seq = sq, elapsed_ms = now_elapsed_ms now, timestamp_ms = now_epoch_ms now,
                    channel = ch, summary = smry, payload = pl \<rparr>
      in m\<lparr> log_seq := sq + 1, log := log_append (log m) entry \<rparr>)"

definition push_log :: "clock \<Rightarrow> string \<Rightarrow> string \<Rightarrow> metrics \<Rightarrow> metrics" where
  "push_log now ch smry m = push_log_with_payload now ch smry None m"

definition log_since :: "u64 option \<Rightarrow> metrics \<Rightarrow> log_entry list" where
  "log_since from_seq m = (case from_seq of
      None \<Rightarrow> log m
    | Some sq \<Rightarrow> filter (\<lambda>e. sq \<le> seq e) (log m))"

section \<open>Telescope status\<close>

definition pi_battery :: "json \<Rightarrow> int option" where
  "pi_battery msg =
     map_option f64_round_i64 (Option.bind (jget msg ''battery_capacity'') as_f64)"

definition update_event_status ::
    "u64 \<Rightarrow> string \<Rightarrow> json \<Rightarrow> telescope_status \<Rightarrow> telescope_status" where
  "update_event_status now_ms event_name msg s0 =
     (let s = s0\<lparr> last_event := Some event_name, last_event_ts_ms := now_ms \<rparr> in
      if event_name = ''PiStatus'' then
        (let s1 = (case pi_battery msg of Some v \<Rightarrow> s\<lparr> battery := Some v \<rparr> | None \<Rightarrow> s)
         in case Option.bind (jget msg ''temp'') as_f64 of
              Some v \<Rightarrow> s1\<lparr> temperature := Some v \<rparr> | None \<Rightarrow> s1)
      else if event_name = ''Stack'' then
        (let s1 = s\<lparr> is_stacking := True \<rparr>
         in case Option.bind (jget msg ''count'') as_i64 of
              Some v \<Rightarrow> s1\<lparr> stack_count := v \<rparr> | None \<Rightarrow> s1)
      else if event_name = ''AutoGoto'' \<or> event_name = ''ScopeGoto'' then s\<lparr> is_goto := True \<rparr>
      else if event_name = ''ScopeHome'' then
        s\<lparr> is_homing := (case Option.bind (jget msg ''state'') as_str of
                            Some st \<Rightarrow> st = ''working'' | None \<Rightarrow> False) \<rparr>
      else if event_name = ''ScopeTrack'' then
        s\<lparr> tracking := (case Option.bind (jget msg ''tracking'') as_bool of
                          Some b \<Rightarrow> b | None \<Rightarrow> False) \<rparr>
      else if event_name = ''View'' then
        s\<lparr> view_mode := Option.bind (jget msg ''mode'') as_str \<rparr>
      else s)"

definition update_event :: "u64 \<Rightarrow> string \<Rightarrow> json \<Rightarrow> metrics \<Rightarrow> metrics" where
  "update_event now_ms event_name msg m =
     m\<lparr> telescope_status := update_event_status now_ms event_name msg (telescope_status m) \<rparr>"

definition update_response :: "json \<Rightarrow> metrics \<Rightarrow> metrics" where
  "update_response msg m =
     (let meth = (case Option.bind (jget msg ''method'') as_str of Some s \<Rightarrow> s | None \<Rightarrow> '''') in
      if meth = ''get_device_state'' then
        (case Option.bind (jget msg ''result'') (\<lambda>r. jget r ''pi_status'') of
           None \<Rightarrow> m
         | Some pi \<Rightarrow>
             let s0 = telescope_status m;
                 s1 = (case pi_battery pi of Some v \<Rightarrow> s0\<lparr> battery := Some v \<rparr> | None \<Rightarrow> s0);
                 s2 = (case Option.bind (jget pi ''temp'') as_f64 of
                         Some v \<Rightarrow> s1\<lparr> temperature := Some v \<rparr> | None \<Rightarrow> s1);
                 s3 = (case Option.bind (jget pi ''charger_status'') as_str of
                         Some v \<Rightarrow> s2\<lparr> charger_status := Some v \<rparr> | None \<Rightarrow> s2)
             in m\<lparr> telescope_status := s3 \<rparr>)
      else m)"

definition reset_telescope_state :: "metrics \<Rightarrow> metrics" where
  "reset_telescope_state m =
     m\<lparr> telescope_status := (telescope_status m)\<lparr> is_stacking := False, stack_count := 0,
                                                  is_goto := False, is_homing := False \<rparr> \<rparr>"

section \<open>The log invariant\<close>

text \<open>
  The log holds at most \<open>LOG_CAPACITY\<close> entries and, as long as the sequence counter has not
  wrapped, they are the last ones pushed: consecutive sequence numbers that end just below the
  counter.
\<close>

definition log_inv :: "metrics \<Rightarrow> bool" where
  "log_inv m \<longleftrightarrow>
     length (log m) \<le> LOG_CAPACITY \<and> length (log m) \<le> unat (log_seq m) \<and>
     map (unat \<circ> seq) (log m) = [unat (log_seq m) - length (log m) ..< unat (log_seq m)]"

lemma log_inv_new: "log_inv metrics_new"
  by (simp add: log_inv_def metrics_new_def)

lemma unat_Suc_no_wrap: "unat (w :: u64) + 1 < 2 ^ 64 \<Longrightarrow> unat (w + 1) = Suc (unat w)"
  by (simp add: unat_word_ariths)

lemma length_log_append: "length l \<le> LOG_CAPACITY \<Longrightarrow> length (log_append l e) \<le> LOG_CAPACITY"
  by (auto simp: log_append_def LOG_CAPACITY_def)

lemma log_inv_push:
  assumes inv: "log_inv m" and "unat (log_seq m) + 1 < 2 ^ 64"
  shows "log_inv (push_log_with_payload now ch smry pl m)"
proof -
  let ?n = "unat (log_seq m)" and ?l = "log m"
  have [simp]: "unat (log_seq m + 1) = Suc ?n"
    using assms(2) by (rule unat_Suc_no_wrap)
  from inv have seqs: "map (unat \<circ> seq) ?l = [?n - length ?l ..< ?n]" and le: "length ?l \<le> ?n"
    by (simp_all add: log_inv_def)
  show ?thesis
  proof (cases "LOG_CAPACITY \<le> length ?l")
    case True
    with inv have len: "length ?l = 100" by (simp add: log_inv_def LOG_CAPACITY_def)
    then have "map (unat \<circ> seq) (tl ?l) = [Suc (?n - 100) ..< ?n]"
      using seqs by (simp add: map_tl upt_rec [of "?n - 100"])
    moreover have "Suc (?n - 100) = ?n - 99"
      using le len by simp
    ultimately show ?thesis using True len le
      by (simp add: log_inv_def push_log_with_payload_def log_append_def Let_def LOG_CAPACITY_def
          Suc_diff_le)
  next
    case False
    with inv seqs le show ?thesis
      by (simp add: log_inv_def push_log_with_payload_def log_append_def Let_def LOG_CAPACITY_def
          Suc_diff_le)
  qed
qed

lemma status_update_keeps_log [frame_simps]:
  "log (update_event t n j m) = log m" "log (update_response j m) = log m"
  "log (reset_telescope_state m) = log m"
  "log_seq (update_event t n j m) = log_seq m" "log_seq (update_response j m) = log_seq m"
  "log_seq (reset_telescope_state m) = log_seq m"
  by (simp_all add: update_event_def update_response_def reset_telescope_state_def Let_def
      split: option.split)

lemma push_log_keeps_status [frame_simps]:
  "telescope_status (push_log_with_payload now ch smry pl m) = telescope_status m"
  by (simp add: push_log_with_payload_def Let_def)

text \<open>A sequence of pushes, as the tasks make them one after the other.\<close>

type_synonym log_call = "clock \<times> string \<times> string \<times> string option"

definition push_logs :: "log_call list \<Rightarrow> metrics \<Rightarrow> metrics" where
  "push_logs cs m = fold (\<lambda>(now, ch, smry, pl). push_log_with_payload now ch smry pl) cs m"

lemma push_logs_inv:
  "log_inv m \<Longrightarrow> unat (log_seq m) + length cs < 2 ^ 64 \<Longrightarrow>
     log_inv (push_logs cs m) \<and> unat (log_seq (push_logs cs m)) = unat (log_seq m) + length cs"
proof (induction cs arbitrary: m)
  case (Cons c cs)
  obtain now ch smry pl where c: "c = (now, ch, smry, pl)" by (cases c)
  let ?m = "push_log_with_payload now ch smry pl m"
  have "log_inv ?m"
    using Cons.prems by (intro log_inv_push) auto
  moreover have "unat (log_seq ?m) = Suc (unat (log_seq m))"
    using Cons.prems(2) unat_Suc_no_wrap [of "log_seq m"]
    by (simp add: push_log_with_payload_def Let_def)
  ultimately show ?case
    using Cons.IH [of ?m] Cons.prems c by (simp add: push_logs_def)
qed (simp add: push_logs_def)

lemma log_since_seq:
  assumes "log_inv m"
  shows "map (unat \<circ> seq) (log_since (Some sq) m) =
    [max (unat sq) (unat (log_seq m) - length (log m)) ..< unat (log_seq m)]"
proof -
  let ?a = "unat (log_seq m) - length (log m)" and ?b = "unat (log_seq m)"
  have "map (unat \<circ> seq) (filter (\<lambda>e. sq \<le> seq e) (log m)) =
      filter (\<lambda>k. unat sq \<le> k) (map (unat \<circ> seq) (log m))"
    by (simp add: filter_map comp_def word_le_nat_alt)
  also have "\<dots> = filter (\<lambda>k. unat sq \<le> k) [?a ..< ?b]"
    using assms by (simp add: log_inv_def)
  also have "\<dots> = [max (unat sq) ?a ..< ?b]"
    by (rule filter_ge_upt)
  finally show ?thesis by (simp add: log_since_def)
qed

section \<open>The log as the last entries pushed\<close>

definition entry_data :: "log_entry \<Rightarrow> string \<times> string \<times> string option" where
  "entry_data e = (channel e, summary e, payload e)"

definition call_data :: "log_call \<Rightarrow> string \<times> string \<times> string option" where
  "call_data c = snd c"

lemma log_append_last_n:
  "length l \<le> LOG_CAPACITY \<Longrightarrow> log_append l e = last_n LOG_CAPACITY (l @ [e])"
  by (auto simp: log_append_def last_n_def LOG_CAPACITY_def drop_Suc)

lemma push_logs_data:
  "length (log m) \<le> LOG_CAPACITY \<Longrightarrow>
     map entry_data (log (push_logs cs m)) =
       last_n LOG_CAPACITY (map entry_data (log m) @ map call_data cs)"
proof (induction cs arbitrary: m)
  case (Cons c cs)
  obtain now ch smry pl where c: "c = (now, ch, smry, pl)" by (cases c)
  let ?m = "push_log_with_payload now ch smry pl m"
  have "map entry_data (log ?m) = last_n LOG_CAPACITY (map entry_data (log m) @ [call_data c])"
    using Cons.prems
    by (simp add: push_log_with_payload_def Let_def log_append_last_n map_last_n entry_data_def
        call_data_def c)
  moreover have "length (log ?m) \<le> LOG_CAPACITY"
    using Cons.prems by (simp add: push_log_with_payload_def Let_def length_log_append)
  ultimately show ?case
    using Cons.IH [of ?m] by (simp add: push_logs_def c last_n_append)
qed (simp add: push_logs_def)

text \<open>The traffic log is a ring buffer of the last 100 entries: after any number of pushes it
  holds exactly the most recent ones, in order, with consecutive sequence numbers that end just
  below the counter.
\<close>

theorem traffic_log_recent:
  assumes "length cs < 2 ^ 64"
  shows "map entry_data (log (push_logs cs metrics_new)) = last_n LOG_CAPACITY (map call_data cs) \<and>
    map (unat \<circ> seq) (log (push_logs cs metrics_new)) =
      [length cs - min LOG_CAPACITY (length cs) ..< length cs]"
proof -
  let ?m = "push_logs cs metrics_new"
  have [simp]: "log metrics_new = []" "log_seq metrics_new = 0"
    by (simp_all add: metrics_new_def)
  have inv: "log_inv ?m" "unat (log_seq ?m) = length cs"
    using push_logs_inv [OF log_inv_new, of cs] assms by simp_all
  have data: "map entry_data (log ?m) = last_n LOG_CAPACITY (map call_data cs)"
    using push_logs_data [of metrics_new cs] by (simp add: LOG_CAPACITY_def)
  then have "length (log ?m) = min LOG_CAPACITY (length cs)"
    by (metis length_last_n length_map)
  with inv data show ?thesis by (simp add: log_inv_def)
qed

theorem traffic_log_recent_witness:
  "map (unat \<circ> seq) (log (push_logs (replicate 150 (\<lparr> now_elapsed_ms = 5, now_epoch_ms = 9 \<rparr>,
     ''img'', ''preview'', None)) metrics_new)) = [50 ..< 150]" (is "map _ (log (push_logs ?cs _)) = _")
proof -
  have "length ?cs < 2 ^ 64"
    by simp
  from traffic_log_recent [OF this, THEN conjunct2]
  have "map (unat \<circ> seq) (log (push_logs ?cs metrics_new)) = [150 - min LOG_CAPACITY 150 ..< 150]"
    by (simp only: length_replicate)
  moreover have "150 - min LOG_CAPACITY 150 = 50"
    by (simp add: LOG_CAPACITY_def)
  ultimately show ?thesis by (simp only:)
qed

text \<open>Polling the log by sequence number returns exactly the entries at or above it that are
  still buffered, without gaps.
\<close>

theorem log_since_no_gaps:
  assumes "length cs < 2 ^ 64"
  shows "map (unat \<circ> seq) (log_since (Some sq) (push_logs cs metrics_new)) =
    [max (unat sq) (length cs - min LOG_CAPACITY (length cs)) ..< length cs]"
proof -
  let ?m = "push_logs cs metrics_new"
  have [simp]: "log metrics_new = []" "log_seq metrics_new = 0"
    by (simp_all add: metrics_new_def)
  have "log_inv ?m" "unat (log_seq ?m) = length cs"
    using push_logs_inv [OF log_inv_new, of cs] assms by simp_all
  moreover have "length (log ?m) = min LOG_CAPACITY (length cs)"
    using push_logs_data [of metrics_new cs]
    by (metis LOG_CAPACITY_def \<open>log metrics_new = []\<close> append_Nil le0 length_last_n length_map
        list.map(1) list.size(3))
  ultimately show ?thesis by (simp add: log_since_seq)
qed

theorem log_since_no_gaps_witness:
  "map (unat \<circ> seq) (log_since (Some 2) (push_logs (replicate 4
     (\<lparr> now_elapsed_ms = 5, now_epoch_ms = 9 \<rparr>, ''img'', ''preview'', None)) metrics_new)) = [2, 3]"
  (is "map _ (log_since _ (push_logs ?cs _)) = _")
proof -
  have "length ?cs < 2 ^ 64"
    by simp
  from log_since_no_gaps [OF this, of 2]
  have "map (unat \<circ> seq) (log_since (Some 2) (push_logs ?cs metrics_new)) =
      [max (unat (2 :: u64)) (4 - min LOG_CAPACITY 4) ..< 4]"
    by (simp only: length_replicate)
  then show ?thesis by (simp add: LOG_CAPACITY_def)
qed

end
