(* ===== verification/Recorder.thy ===== *)
theory Recorder
  imports Protocol
begin

text \<open>
  \<open>src/recorder.rs\<close>: the traffic recorder.  The session directory is the content of
  \<open>control.jsonl\<close> and an association list from the other paths (relative to the directory) to
  their bytes; \<open>w path\<close> says whether a write to a path succeeds.  The serialisation of the two
  derived structs belongs to serde and is a field of \<open>record_codec\<close>; clock readings are
  arguments.
\<close>

record control_line =
  cl_timestamp :: f64
  cl_direction :: string
  cl_raw :: string

record manifest =
  capture_date :: string
  telescope_model :: "string option"
  firmware_version :: "string option"
  frame_count :: u32
  preview_frame_count :: u32
  stack_frame_count :: u32
  control_message_count :: u32
  duration_seconds :: f64
  source :: string

record record_codec =
  ser_line :: "control_line \<Rightarrow> string option"
  de_line :: "string \<Rightarrow> control_line option"
  ser_manifest :: "manifest \<Rightarrow> string option"
  de_manifest :: "string \<Rightarrow> (u32 \<times> f64) option"

record recorder =
  control_file :: string
  frame_counter :: u32
  preview_count :: u32
  rec_stack_count :: u32
  message_count :: u32
  files :: "(string \<times> bytes) list"

definition recorder_new :: recorder where
  "recorder_new =
     \<lparr> control_file = [], frame_counter = 0, preview_count = 0, rec_stack_count = 0,
       message_count = 0, files = [] \<rparr>"

definition lf :: char where "lf = CHR 0x0A"

definition record_control ::
    "record_codec \<Rightarrow> (string \<Rightarrow> bool) \<Rightarrow> f64 \<Rightarrow> string \<Rightarrow> string \<Rightarrow> recorder \<Rightarrow> recorder" where
  "record_control rc w ts direction raw r =
     (let r1 = r\<lparr> message_count := message_count r + 1 \<rparr>;
          line = \<lparr> cl_timestamp = ts, cl_direction = direction, cl_raw = raw \<rparr>
      in case ser_line rc line of
           None \<Rightarrow> r1
         | Some json \<Rightarrow>
             if w ''control.jsonl'' then r1\<lparr> control_file := control_file r1 @ json @ [lf] \<rparr> else r1)"

definition frame_file :: "u32 \<Rightarrow> string \<Rightarrow> string" where
  "frame_file ix kind = ''frame_'' @ pad4 (unat ix) @ ''_'' @ kind @ ''.bin''"

definition fs_write :: "(string \<Rightarrow> bool) \<Rightarrow> string \<Rightarrow> bytes \<Rightarrow> recorder \<Rightarrow> recorder" where
  "fs_write w path data r = (if w path then r\<lparr> files := AList.update path data (files r) \<rparr> else r)"

definition record_frame ::
    "(string \<Rightarrow> bool) \<Rightarrow> bytes \<Rightarrow> bytes \<Rightarrow> recorder \<Rightarrow> recorder" where
  "record_frame w header pld r =
     (let parsed = parse_header header in
      if \<not> is_image parsed then r
      else
        let ix = frame_counter r;
            r1 = r\<lparr> frame_counter := ix + 1 \<rparr>;
            (kind, r2) = (if fh_id parsed = 23
              then (''stack'', r1\<lparr> rec_stack_count := rec_stack_count r1 + 1 \<rparr>)
              else (''preview'', r1\<lparr> preview_count := preview_count r1 + 1 \<rparr>))
        in fs_write w (''frames/'' @ frame_file ix kind) (header @ pld) r2)"

definition session_manifest :: "string \<Rightarrow> f64 \<Rightarrow> recorder \<Rightarrow> manifest" where
  "session_manifest date dur r =
     \<lparr> capture_date = date, telescope_model = None, firmware_version = None,
       frame_count = frame_counter r, preview_frame_count = preview_count r,
       stack_frame_count = rec_stack_count r, control_message_count = message_count r,
       duration_seconds = dur, source = ''seestar-proxy'' \<rparr>"

definition finalize ::
    "record_codec \<Rightarrow> (string \<Rightarrow> bool) \<Rightarrow> string \<Rightarrow> f64 \<Rightarrow> recorder \<Rightarrow> recorder" where
  "finalize rc w date dur r =
     (case ser_manifest rc (session_manifest date dur r) of
        Some json \<Rightarrow> fs_write w ''manifest.json'' (as_bytes json) r
      | None \<Rightarrow> r)"

section \<open>Recording sessions\<close>

text \<open>A sequence of frames, and of control messages, as the proxy tasks record them.\<close>

definition record_frames :: "(string \<Rightarrow> bool) \<Rightarrow> (bytes \<times> bytes) list \<Rightarrow> recorder \<Rightarrow> recorder" where
  "record_frames w fs r = fold (\<lambda>(h, p). record_frame w h p) fs r"

type_synonym control_msg = "f64 \<times> string \<times> string"

definition record_controls ::
    "record_codec \<Rightarrow> (string \<Rightarrow> bool) \<Rightarrow> control_msg list \<Rightarrow> recorder \<Rightarrow> recorder" where
  "record_controls rc w ms r = fold (\<lambda>(ts, dir, raw). record_control rc w ts dir raw) ms r"

definition image_frames :: "(bytes \<times> bytes) list \<Rightarrow> (bytes \<times> bytes) list" where
  "image_frames fs = filter (\<lambda>(h, p). is_image (parse_header h)) fs"

definition frame_kind :: "bytes \<Rightarrow> string" where
  "frame_kind h = (if fh_id (parse_header h) = 23 then ''stack'' else ''preview'')"

definition frame_paths_from :: "nat \<Rightarrow> (bytes \<times> bytes) list \<Rightarrow> (string \<times> bytes) list" where
  "frame_paths_from n fs =
     map (\<lambda>(i, h, p). (''frames/'' @ frame_file (of_nat i) (frame_kind h), h @ p))
       (zip [n ..< n + length fs] fs)"

lemma record_frame_image:
  "is_image (parse_header h) \<Longrightarrow>
     files (record_frame (\<lambda>_. True) h p r) =
       AList.update (''frames/'' @ frame_file (frame_counter r) (frame_kind h)) (h @ p) (files r) \<and>
     frame_counter (record_frame (\<lambda>_. True) h p r) = frame_counter r + 1"
  by (simp add: record_frame_def Let_def fs_write_def frame_kind_def)

lemma record_frame_other: "\<not> is_image (parse_header h) \<Longrightarrow> record_frame w h p r = r"
  by (simp add: record_frame_def Let_def)

lemma record_frames_images: "record_frames w fs r = record_frames w (image_frames fs) r"
  by (induction fs arbitrary: r)
    (auto simp: record_frames_def image_frames_def record_frame_other)

lemma frame_file_less:
  "i < j \<Longrightarrow> j < 10000 \<Longrightarrow> frame_file (of_nat i) k < frame_file (of_nat j) k'"
  by (auto simp: frame_file_def unat_of_nat intro: pad4_less)

lemma frame_counts:
  "unat (frame_counter r) = unat (preview_count r) + unat (rec_stack_count r) \<Longrightarrow>
   unat (frame_counter r) + 1 < 2 ^ 32 \<Longrightarrow>
   unat (frame_counter (record_frame w h p r)) =
     unat (preview_count (record_frame w h p r)) + unat (rec_stack_count (record_frame w h p r))"
  by (auto simp: record_frame_def Let_def fs_write_def unat_word_ariths split: if_splits)

end
