(* ===== verification/Channels.thy ===== *)
theory Channels
  imports Proxy_Base
begin

text \<open>
  The queues between the tasks of the proxy.  The channels themselves belong to the tokio
  crate; what the proxy relies on is their documented behaviour: a bounded \<open>mpsc\<close> channel is a
  FIFO buffer that refuses (\<open>try_send\<close>) or delays (\<open>send\<close>) a message while it is full and
  fails once its receiver is gone; a \<open>broadcast\<close> channel keeps the last \<open>cap\<close> messages, and a
  receiver that fell further behind is told how many it lost and resumes at the oldest kept
  message.  The laws of the queue are stated as the locale
  \<open>bounded_fifo\<close>; the records below implement both channels.
\<close>

section \<open>Bounded queues\<close>

datatype send_error = Full | Closed

record 'a mpsc =
  mcap :: nat
  mbuf :: "'a list"
  mopen :: bool \<comment> \<open>the receiver is alive\<close>

definition mpsc_channel :: "nat \<Rightarrow> 'a mpsc" where
  "mpsc_channel n = \<lparr> mcap = n, mbuf = [], mopen = True \<rparr>"

definition try_send :: "'a \<Rightarrow> 'a mpsc \<Rightarrow> send_error + 'a mpsc" where
  "try_send x c =
     (if \<not> mopen c then Inl Closed
      else if mcap c \<le> length (mbuf c) then Inl Full
      else Inr (c\<lparr> mbuf := mbuf c @ [x] \<rparr>))"

definition recv :: "'a mpsc \<Rightarrow> ('a \<times> 'a mpsc) option" where
  "recv c = (case mbuf c of [] \<Rightarrow> None | x # xs \<Rightarrow> Some (x, c\<lparr> mbuf := xs \<rparr>))"

definition close_rx :: "'a mpsc \<Rightarrow> 'a mpsc" where
  "close_rx c = c\<lparr> mopen := False, mbuf := [] \<rparr>"

text \<open>\<open>send(x).await\<close>: still waiting, failed, or queued.\<close>

datatype 'a send_poll = Waiting | Failed | Sent "'a mpsc"

definition poll_send :: "'a \<Rightarrow> 'a mpsc \<Rightarrow> 'a send_poll" where
  "poll_send x c = (case try_send x c of
      Inl Closed \<Rightarrow> Failed | Inl Full \<Rightarrow> Waiting | Inr c' \<Rightarrow> Sent c')"

definition mpsc_wf :: "'a mpsc \<Rightarrow> bool" where
  "mpsc_wf c \<longleftrightarrow> length (mbuf c) \<le> mcap c \<and> (\<not> mopen c \<longrightarrow> mbuf c = [])"

locale bounded_fifo =
  fixes snd_op :: "'a \<Rightarrow> 'c \<Rightarrow> send_error + 'c"
    and rcv_op :: "'c \<Rightarrow> ('a \<times> 'c) option"
    and contents :: "'c \<Rightarrow> 'a list"
    and capacity :: "'c \<Rightarrow> nat"
    and invar :: "'c \<Rightarrow> bool"
  assumes snd_contents: "invar c \<Longrightarrow> snd_op x c = Inr c' \<Longrightarrow> contents c' = contents c @ [x]"
    and snd_capacity: "invar c \<Longrightarrow> snd_op x c = Inr c' \<Longrightarrow> capacity c' = capacity c"
    and snd_invar: "invar c \<Longrightarrow> snd_op x c = Inr c' \<Longrightarrow> invar c'"
    and rcv_contents: "invar c \<Longrightarrow> rcv_op c = Some (x, c') \<Longrightarrow> contents c = x # contents c'"
    and rcv_none: "invar c \<Longrightarrow> rcv_op c = None \<longleftrightarrow> contents c = []"
    and rcv_invar: "invar c \<Longrightarrow> rcv_op c = Some (x, c') \<Longrightarrow> invar c'"
    and bounded: "invar c \<Longrightarrow> length (contents c) \<le> capacity c"
begin

text \<open>Sending a batch in order, and draining what is there.\<close>

fun send_all :: "'a list \<Rightarrow> 'c \<Rightarrow> 'c option" where
  "send_all [] c = Some c"
| "send_all (x # xs) c = (case snd_op x c of Inl _ \<Rightarrow> None | Inr c' \<Rightarrow> send_all xs c')"

fun drain :: "nat \<Rightarrow> 'c \<Rightarrow> 'a list \<times> 'c" where
  "drain 0 c = ([], c)"
| "drain (Suc n) c = (case rcv_op c of
      None \<Rightarrow> ([], c) | Some (x, c') \<Rightarrow> let (xs, d) = drain n c' in (x # xs, d))"

lemma send_all_contents:
  "invar c \<Longrightarrow> send_all xs c = Some c' \<Longrightarrow> contents c' = contents c @ xs \<and> invar c'"
proof (induction xs arbitrary: c)
  case (Cons x xs)
  then obtain d where "snd_op x c = Inr d" "send_all xs d = Some c'"
    by (auto split: sum.splits)
  with Cons show ?case using snd_contents snd_invar by fastforce
qed simp

lemma drain_contents:
  "invar c \<Longrightarrow> drain n c = (xs, d) \<Longrightarrow> contents c = xs @ contents d \<and> invar d"
proof (induction n arbitrary: c xs)
  case (Suc n)
  show ?case
  proof (cases "rcv_op c")
    case None
    with Suc.prems show ?thesis by simp
  next
    case (Some p)
    obtain x c' where p: "p = (x, c')" by (cases p)
    obtain ys e where r: "drain n c' = (ys, e)" by (cases "drain n c'")
    have "contents c = x # contents c'" "invar c'"
      using Suc.prems(1) Some p rcv_contents rcv_invar by auto
    with Suc.IH [of c' ys] Suc.prems Some p r show ?thesis
      by (auto simp: Let_def)
  qed
qed simp

lemma drain_all:
  "invar c \<Longrightarrow> length (contents c) \<le> n \<Longrightarrow> fst (drain n c) = contents c"
proof (induction n arbitrary: c)
  case (Suc n)
  show ?case
  proof (cases "rcv_op c")
    case None
    then have "contents c = []" using rcv_none Suc.prems(1) by simp
    with None show ?thesis by simp
  next
    case (Some p)
    obtain x c' where p: "p = (x, c')" by (cases p)
    have c': "contents c = x # contents c'" "invar c'"
      using Suc.prems(1) Some p rcv_contents rcv_invar by auto
    with Suc.IH [of c'] Suc.prems Some p show ?thesis
      by (auto simp: Let_def split: prod.splits)
  qed
qed simp

lemma fifo: "invar c \<Longrightarrow> contents c = [] \<Longrightarrow> send_all xs c = Some c' \<Longrightarrow> fst (drain (length xs) c') = xs"
  using send_all_contents [of c xs c'] drain_all [of c' "length xs"] by simp

end

lemma try_send_Inr:
  "try_send x c = Inr c' \<longleftrightarrow>
     mopen c \<and> length (mbuf c) < mcap c \<and> c' = c\<lparr> mbuf := mbuf c @ [x] \<rparr>"
  by (auto simp: try_send_def)

lemma recv_Some: "recv c = Some (x, c') \<longleftrightarrow> (\<exists>xs. mbuf c = x # xs \<and> c' = c\<lparr> mbuf := xs \<rparr>)"
  by (auto simp: recv_def split: list.splits)

lemma mpsc_wf_channel [simp]: "mpsc_wf (mpsc_channel n)"
  by (simp add: mpsc_wf_def mpsc_channel_def)

lemma mpsc_wf_close [simp]: "mpsc_wf (close_rx c)"
  by (simp add: mpsc_wf_def close_rx_def)

interpretation mq: bounded_fifo try_send recv mbuf mcap mpsc_wf
  by unfold_locales (auto simp: try_send_Inr recv_Some mpsc_wf_def recv_def split: list.splits)

lemma poll_send_Sent: "poll_send x c = Sent c' \<longleftrightarrow> try_send x c = Inr c'"
  by (auto simp: poll_send_def split: sum.splits send_error.splits)

lemma poll_send_Failed: "poll_send x c = Failed \<longleftrightarrow> \<not> mopen c"
  by (auto simp: poll_send_def try_send_def)

lemma poll_send_Waiting: "poll_send x c = Waiting \<longleftrightarrow> mopen c \<and> mcap c \<le> length (mbuf c)"
  by (auto simp: poll_send_def try_send_def)

text \<open>The two steps a queue takes, as one fact each.\<close>

lemma sent_queue:
  "poll_send x c = Sent c' \<Longrightarrow> mpsc_wf c \<Longrightarrow>
     mbuf c' = mbuf c @ [x] \<and> mcap c' = mcap c \<and> mopen c' = mopen c \<and> mpsc_wf c'"
  by (auto simp: poll_send_Sent try_send_Inr mpsc_wf_def)

lemma received_queue:
  "recv c = Some (x, c') \<Longrightarrow> mpsc_wf c \<Longrightarrow>
     mbuf c = x # mbuf c' \<and> mcap c' = mcap c \<and> mopen c' = mopen c \<and> mpsc_wf c'"
  by (auto simp: recv_Some mpsc_wf_def)

section \<open>Broadcast\<close>

text \<open>The sender's history, and a receiver's position in it.\<close>

record 'a bcast =
  bcap :: nat
  bhist :: "'a list"

definition broadcast_channel :: "nat \<Rightarrow> 'a bcast" where
  "broadcast_channel n = \<lparr> bcap = n, bhist = [] \<rparr>"

definition bsend :: "'a \<Rightarrow> 'a bcast \<Rightarrow> 'a bcast" where
  "bsend x b = b\<lparr> bhist := bhist b @ [x] \<rparr>"

definition subscribe :: "'a bcast \<Rightarrow> nat" where
  "subscribe b = length (bhist b)"

datatype 'a bres = BEmpty | BMsg 'a nat | BLagged nat nat

definition brecv :: "'a bcast \<Rightarrow> nat \<Rightarrow> 'a bres" where
  "brecv b p =
     (let n = length (bhist b); oldest = n - bcap b in
      if n \<le> p then BEmpty
      else if p < oldest then BLagged (oldest - p) oldest
      else BMsg (bhist b ! p) (Suc p))"

text \<open>Everything a receiver gets when it polls until the channel is empty.\<close>

function bdrain :: "'a bcast \<Rightarrow> nat \<Rightarrow> 'a list" where
  "bdrain b p = (case brecv b p of
      BEmpty \<Rightarrow> [] | BMsg x p' \<Rightarrow> x # bdrain b p' | BLagged n p' \<Rightarrow> bdrain b p')"
  by pat_completeness auto
termination
  by (relation "measure (\<lambda>(b, p). length (bhist b) - p)")
    (auto simp: brecv_def Let_def split: if_splits)

declare bdrain.simps [simp del]

lemma bdrain_eq: "bdrain b p = drop (max p (length (bhist b) - bcap b)) (bhist b)"
proof (induction b p rule: bdrain.induct)
  case (1 b p)
  consider "length (bhist b) \<le> p"
    | "p < length (bhist b) - bcap b"
    | "p < length (bhist b)" "length (bhist b) - bcap b \<le> p" by linarith
  then show ?case
  proof cases
    case 3
    then have r: "brecv b p = BMsg (bhist b ! p) (Suc p)" by (simp add: brecv_def Let_def)
    have "bdrain b (Suc p) = drop (max (Suc p) (length (bhist b) - bcap b)) (bhist b)"
      using 1(1) [OF r] by simp
    with 3 r show ?thesis
      by (subst bdrain.simps) (simp add: max_def Cons_nth_drop_Suc)
  qed (use 1 in \<open>auto simp: bdrain.simps [of b p] brecv_def Let_def max_def\<close>)
qed

text \<open>A receiver that keeps up misses nothing sent after it subscribed.\<close>

lemma bdrain_no_lag:
  "length (bhist b) - p \<le> bcap b \<Longrightarrow> bdrain b p = drop p (bhist b)"
proof -
  assume "length (bhist b) - p \<le> bcap b"
  then have "length (bhist b) - bcap b \<le> p" by linarith
  then show ?thesis by (simp add: bdrain_eq max_absorb1)
qed

end
