(* ===== verification/Hooks.thy ===== *)
theory Hooks
  imports Protocol Channels
begin

text \<open>
  \<open>src/hooks.rs\<close>: the Lua hook engine.  The Lua runtime (mlua) is not part of the repository:
  what it answers is an argument of the definitions here.  \<open>lua_globals\<close> tells which globals
  exist and which conversions succeed; \<open>lua_run\<close> is one execution of a hook function: the
  messages it passed to \<open>telescope.send\<close>, in order (\<open>None\<close> where the Lua value did not convert to
  JSON), and what it returned (\<open>None\<close> for a Lua error).  A script may do anything, so properties
  quantify over all runs.
\<close>

datatype hook_action = Forward | Block | Modify string | Reply string

text \<open>A returned table is given by its conversion to JSON, \<open>None\<close> if that fails.\<close>

datatype lua_value = LNil | LString bytes | LBoolean bool | LTable "json option" | LOther

record lua_globals =
  lg_function :: "string \<Rightarrow> bool"
  lg_telescope :: bool
  lg_to_value :: "json \<Rightarrow> bool"

record lua_run =
  run_sends :: "json option list"
  run_result :: "lua_value option"

text \<open>The \<open>telescope\<close> table that scripts read.  \<open>stack_count\<close> is absent until first set.\<close>

record telescope_table =
  tt_is_streaming :: bool
  tt_is_goto :: bool
  tt_is_stacking :: bool
  tt_view_mode :: "string option"
  tt_battery :: int
  tt_temperature :: f64
  tt_stack_count :: "int option"

record hook_engine =
  has_on_request :: bool
  has_on_response :: bool
  has_on_event :: bool
  has_on_upstream_connect :: bool
  has_on_client_connect :: bool
  has_on_client_disconnect :: bool
  tx_set :: bool
  telescope :: telescope_table

section \<open>Loading scripts\<close>

datatype script_error = ReadFailed string | ScriptFailed string

text \<open>\<open>read\<close> is the file system, \<open>exec\<close> runs one script source; loading stops at the first
  failure.\<close>

fun load_scripts ::
    "(string \<Rightarrow> string option) \<Rightarrow> (string \<Rightarrow> bool) \<Rightarrow> string list \<Rightarrow> script_error option" where
  "load_scripts rd exec [] = None"
| "load_scripts rd exec (path # ps) = (case rd path of
      None \<Rightarrow> Some (ReadFailed path)
    | Some src \<Rightarrow> if exec src then load_scripts rd exec ps else Some (ScriptFailed path))"

definition hook_engine_new ::
    "(string \<Rightarrow> string option) \<Rightarrow> (string \<Rightarrow> bool) \<Rightarrow> lua_globals \<Rightarrow> string list
      \<Rightarrow> script_error + hook_engine" where
  "hook_engine_new rd exec g script_paths = (case load_scripts rd exec script_paths of
      Some e \<Rightarrow> Inl e
    | None \<Rightarrow> Inr
        \<lparr> has_on_request = lg_function g ''on_request'',
          has_on_response = lg_function g ''on_response'',
          has_on_event = lg_function g ''on_event'',
          has_on_upstream_connect = lg_function g ''on_upstream_connect'',
          has_on_client_connect = lg_function g ''on_client_connect'',
          has_on_client_disconnect = lg_function g ''on_client_disconnect'',
          tx_set = False,
          telescope = \<lparr> tt_is_streaming = False, tt_is_goto = False, tt_is_stacking = False,
            tt_view_mode = None, tt_battery = 0, tt_temperature = 0, tt_stack_count = None \<rparr> \<rparr>)"

definition set_upstream_tx :: "hook_engine \<Rightarrow> hook_engine" where
  "set_upstream_tx h = h\<lparr> tx_set := True \<rparr>"

section \<open>Calling hooks\<close>

text \<open>\<open>telescope.send\<close>: a message for the upstream channel.  Conversion, serialisation and a
  full or closed channel raise a Lua error and send nothing.\<close>

definition telescope_send ::
    "json_codec \<Rightarrow> hook_engine \<Rightarrow> json option \<Rightarrow> string mpsc \<Rightarrow> string mpsc" where
  "telescope_send c h v up =
     (if \<not> tx_set h then up
      else case v of None \<Rightarrow> up
        | Some j \<Rightarrow> (case to_string c j of None \<Rightarrow> up
            | Some s \<Rightarrow> (case try_send s up of Inl _ \<Rightarrow> up | Inr up' \<Rightarrow> up')))"

definition lua_sends :: "json_codec \<Rightarrow> hook_engine \<Rightarrow> lua_run \<Rightarrow> string mpsc \<Rightarrow> string mpsc" where
  "lua_sends c h run up = fold (telescope_send c h) (run_sends run) up"

text \<open>The last part of \<open>call_message_hook\<close>: what the returned value means.\<close>

definition interpret_result :: "json_codec \<Rightarrow> lua_value \<Rightarrow> hook_action" where
  "interpret_result c result = (case result of
      LNil \<Rightarrow> Forward
    | LString bs \<Rightarrow>
        (let s = from_utf8_lossy bs in
         if s = ''block'' \<or> s = ''drop'' \<or> s = ''reject'' then Block
         else if s = ''forward'' \<or> s = ''pass'' then Forward
         else Modify s)
    | LBoolean b \<Rightarrow> (if b then Forward else Block)
    | LTable None \<Rightarrow> Forward
    | LTable (Some modified) \<Rightarrow>
        (let is_reply = (case Option.bind (jget modified ''_reply'') as_bool of
                           Some b \<Rightarrow> b | None \<Rightarrow> False) in
         if is_reply then
           (let m' = (case modified of Obj m \<Rightarrow> Obj (map_remove ''_reply'' m) | v \<Rightarrow> v) in
            case to_string c m' of Some s \<Rightarrow> Reply s | None \<Rightarrow> Block)
         else (case to_string c modified of Some s \<Rightarrow> Modify s | None \<Rightarrow> Forward))
    | LOther \<Rightarrow> Forward)"

definition call_message_hook ::
    "json_codec \<Rightarrow> lua_globals \<Rightarrow> hook_engine \<Rightarrow> string \<Rightarrow> lua_run \<Rightarrow> json \<Rightarrow> string mpsc
      \<Rightarrow> hook_action \<times> string mpsc" where
  "call_message_hook c g h func_name run msg up =
     (if \<not> lg_function g func_name then (Forward, up)
      else if \<not> lg_to_value g msg then (Forward, up)
      else (case run_result run of None \<Rightarrow> Forward | Some v \<Rightarrow> interpret_result c v,
            lua_sends c h run up))"

definition on_request ::
    "json_codec \<Rightarrow> lua_globals \<Rightarrow> hook_engine \<Rightarrow> lua_run \<Rightarrow> json \<Rightarrow> string mpsc
      \<Rightarrow> hook_action \<times> string mpsc" where
  "on_request c g h run msg up =
     (if \<not> has_on_request h then (Forward, up) else call_message_hook c g h ''on_request'' run msg up)"

definition on_response ::
    "json_codec \<Rightarrow> lua_globals \<Rightarrow> hook_engine \<Rightarrow> lua_run \<Rightarrow> json \<Rightarrow> string mpsc
      \<Rightarrow> hook_action \<times> string mpsc" where
  "on_response c g h run msg up =
     (if \<not> has_on_response h then (Forward, up)
      else call_message_hook c g h ''on_response'' run msg up)"

definition on_event ::
    "json_codec \<Rightarrow> lua_globals \<Rightarrow> hook_engine \<Rightarrow> lua_run \<Rightarrow> json \<Rightarrow> string mpsc
      \<Rightarrow> hook_action \<times> string mpsc" where
  "on_event c g h run msg up =
     (if \<not> has_on_event h then (Forward, up) else call_message_hook c g h ''on_event'' run msg up)"

text \<open>The two connection hooks share their shape; only their sends have an effect.\<close>

definition on_client_connect ::
    "json_codec \<Rightarrow> lua_globals \<Rightarrow> hook_engine \<Rightarrow> lua_run \<Rightarrow> string mpsc \<Rightarrow> string mpsc" where
  "on_client_connect c g h run up =
     (if \<not> has_on_client_connect h then up
      else if lg_function g ''on_client_connect'' then lua_sends c h run up else up)"

definition on_client_disconnect ::
    "json_codec \<Rightarrow> lua_globals \<Rightarrow> hook_engine \<Rightarrow> lua_run \<Rightarrow> string mpsc \<Rightarrow> string mpsc" where
  "on_client_disconnect c g h run up =
     (if \<not> has_on_client_disconnect h then up
      else if lg_function g ''on_client_disconnect'' then lua_sends c h run up else up)"

section \<open>The telescope table\<close>

definition on_upstream_connect ::
    "json_codec \<Rightarrow> lua_globals \<Rightarrow> hook_engine \<Rightarrow> lua_run \<Rightarrow> string mpsc \<Rightarrow> hook_engine \<times> string mpsc" where
  "on_upstream_connect c g h run up =
     (let h1 = (if lg_telescope g
                then h\<lparr> telescope := (telescope h)\<lparr> tt_is_goto := False, tt_is_stacking := False,
                          tt_stack_count := Some 0, tt_view_mode := None \<rparr> \<rparr>
                else h)
      in (h1, if has_on_upstream_connect h1 \<and> lg_function g ''on_upstream_connect''
              then lua_sends c h1 run up else up))"

definition table_update :: "json \<Rightarrow> telescope_table \<Rightarrow> telescope_table" where
  "table_update event t = (case Option.bind (jget event ''Event'') as_str of
      None \<Rightarrow> t
    | Some event_type \<Rightarrow>
        if event_type = ''PiStatus'' then
          (let t1 = (case Option.bind (jget event ''temp'') as_f64 of
                       Some x \<Rightarrow> t\<lparr> tt_temperature := x \<rparr> | None \<Rightarrow> t)
           in case Option.bind (jget event ''battery_capacity'') as_i64 of
                Some b \<Rightarrow> t1\<lparr> tt_battery := b \<rparr> | None \<Rightarrow> t1)
        else if event_type = ''View'' then
          (case Option.bind (jget event ''mode'') as_str of
             Some md \<Rightarrow> t\<lparr> tt_view_mode := Some md \<rparr> | None \<Rightarrow> t)
        else if event_type = ''Stack'' then
          (let t1 = t\<lparr> tt_is_stacking := True \<rparr>
           in case Option.bind (jget event ''count'') as_i64 of
                Some n \<Rightarrow> t1\<lparr> tt_stack_count := Some n \<rparr> | None \<Rightarrow> t1)
        else if event_type = ''AutoGoto'' \<or> event_type = ''ScopeGoto'' then t\<lparr> tt_is_goto := True \<rparr>
        else t)"

definition update_telescope_state :: "lua_globals \<Rightarrow> json \<Rightarrow> hook_engine \<Rightarrow> hook_engine" where
  "update_telescope_state g event h =
     (if lg_telescope g then h\<lparr> telescope := table_update event (telescope h) \<rparr> else h)"

section \<open>Lemmas\<close>

lemma telescope_send_wf: "mpsc_wf up \<Longrightarrow> mpsc_wf (telescope_send c h v up)"
  by (auto simp: telescope_send_def mq.snd_invar split: option.splits sum.splits)

lemma lua_sends_wf: "mpsc_wf up \<Longrightarrow> mpsc_wf (lua_sends c h run up)"
  unfolding lua_sends_def
  by (induction "run_sends run" arbitrary: run up rule: list.induct)
    (auto simp: telescope_send_wf intro!: fold_invariant [where P = mpsc_wf and Q = "\<lambda>_. True"])

lemma telescope_send_extends:
  "\<exists>ms. mbuf (telescope_send c h v up) = mbuf up @ ms \<and>
     mopen (telescope_send c h v up) = mopen up \<and> mcap (telescope_send c h v up) = mcap up"
  by (auto simp: telescope_send_def try_send_def split: option.splits sum.splits if_splits)

lemma lua_sends_extends:
  "\<exists>ms. mbuf (lua_sends c h run up) = mbuf up @ ms \<and>
     mopen (lua_sends c h run up) = mopen up \<and> mcap (lua_sends c h run up) = mcap up"
proof -
  have "\<exists>ms. mbuf (fold (telescope_send c h) vs u) = mbuf u @ ms \<and>
     mopen (fold (telescope_send c h) vs u) = mopen u \<and> mcap (fold (telescope_send c h) vs u) = mcap u"
    for vs u
  proof (induction vs arbitrary: u)
    case (Cons v vs)
    obtain ms where "mbuf (telescope_send c h v u) = mbuf u @ ms"
      "mopen (telescope_send c h v u) = mopen u" "mcap (telescope_send c h v u) = mcap u"
      using telescope_send_extends by blast
    with Cons.IH [of "telescope_send c h v u"] show ?case by auto
  qed simp
  then show ?thesis by (simp add: lua_sends_def)
qed

definition extends :: "string mpsc \<Rightarrow> string mpsc \<Rightarrow> bool" where
  "extends up up' \<longleftrightarrow>
     (\<exists>ms. mbuf up' = mbuf up @ ms) \<and> mopen up' = mopen up \<and> mcap up' = mcap up \<and>
     (mpsc_wf up \<longrightarrow> mpsc_wf up')"

lemma extends_refl [simp]: "extends up up"
  by (simp add: extends_def)

lemma extends_lua_sends [simp]: "extends up (lua_sends c h run up)"
  using lua_sends_extends [of c h run up] lua_sends_wf [of up c h run] by (auto simp: extends_def)

text \<open>Whatever a script does, a hook call only appends to the upstream queue.\<close>

lemma hooks_extend [simp]:
  "extends up (snd (on_request c g h run msg up))"
  "extends up (snd (on_response c g h run msg up))"
  "extends up (snd (on_event c g h run msg up))"
  "extends up (on_client_connect c g h run up)"
  "extends up (on_client_disconnect c g h run up)"
  "extends up (snd (on_upstream_connect c g h run up))"
  by (simp_all add: on_request_def on_response_def on_event_def call_message_hook_def
      on_client_connect_def on_client_disconnect_def on_upstream_connect_def Let_def)

section \<open>Verdicts\<close>

text \<open>The values by which a script drops a message.\<close>

definition block_verdict :: "json_codec \<Rightarrow> lua_value \<Rightarrow> bool" where
  "block_verdict c v \<longleftrightarrow> v = LBoolean False \<or>
     (\<exists>bs. v = LString bs \<and> from_utf8_lossy bs \<in> {''block'', ''drop'', ''reject''}) \<or>
     (\<exists>m. v = LTable (Some (Obj m)) \<and> map_of m ''_reply'' = Some (Bool True) \<and>
        to_string c (Obj (map_remove ''_reply'' m)) = None)"

lemma reply_marker:
  "(case Option.bind (jget v ''_reply'') as_bool of Some b \<Rightarrow> b | None \<Rightarrow> False) \<longleftrightarrow>
     (\<exists>m. v = Obj m \<and> map_of m ''_reply'' = Some (Bool True))"
proof -
  have [simp]: "as_bool (Bool b) = Some b" for b by simp
  show ?thesis
    by (cases v) (auto simp: jget_def bind_eq_Some_conv simp del: not_None_eq split: option.splits)
qed

lemma interpret_Block: "interpret_result c v = Block \<longleftrightarrow> block_verdict c v"
proof (cases v)
  case (LTable j)
  then show ?thesis
    by (cases j) (auto simp: interpret_result_def block_verdict_def reply_marker Let_def split: option.splits)
qed (auto simp: interpret_result_def block_verdict_def Let_def)

lemma interpret_Reply:
  "interpret_result c v = Reply x \<longleftrightarrow>
     (\<exists>m. v = LTable (Some (Obj m)) \<and> map_of m ''_reply'' = Some (Bool True) \<and>
        to_string c (Obj (map_remove ''_reply'' m)) = Some x)"
proof (cases v)
  case (LTable j)
  then show ?thesis
    by (cases j) (auto simp: interpret_result_def reply_marker Let_def split: option.splits)
qed (auto simp: interpret_result_def Let_def)

text \<open>C29. Hooks fail open: a request is dropped exactly when an \<open>on_request\<close> function is installed,
  the message converts to Lua, the call does not raise an error, and it returns one of the explicit
  verdicts.  A missing function, a failed conversion, a Lua error or any other value forwards it.\<close>

theorem hooks_fail_open:
  "fst (on_request c g h run msg up) = Block \<longleftrightarrow>
     has_on_request h \<and> lg_function g ''on_request'' \<and> lg_to_value g msg \<and>
     (\<exists>v. run_result run = Some v \<and> block_verdict c v)"
  by (auto simp: on_request_def call_message_hook_def interpret_Block split: option.splits)

text \<open>A synthetic reply is sent to the client only when the script returned a table with
  \<open>_reply = true\<close>, and what is sent is that table without the marker, every other member kept.\<close>

theorem reply_is_the_table_without_marker:
  assumes "fst (on_request c g h run msg up) = Reply x"
  shows "\<exists>m. run_result run = Some (LTable (Some (Obj m))) \<and> map_of m ''_reply'' = Some (Bool True) \<and>
           to_string c (Obj (map_remove ''_reply'' m)) = Some x \<and>
           map_of (map_remove ''_reply'' m) = (map_of m)(''_reply'' := None)"
  using assms
  by (auto simp: on_request_def call_message_hook_def interpret_Reply split: if_splits option.splits)

theorem reply_is_the_table_without_marker_witness:
  "let c = \<lparr> from_str = (\<lambda>_. None), to_string = (\<lambda>v. if v = Obj [(''id'', num 7)] then Some ''r'' else None) \<rparr>;
       g = \<lparr> lg_function = (\<lambda>_. True), lg_telescope = True, lg_to_value = (\<lambda>_. True) \<rparr>;
       t = [(''_reply'', Bool True), (''id'', num 7)];
       h = (case hook_engine_new (\<lambda>_. None) (\<lambda>_. True) g [] of Inr h \<Rightarrow> h);
       run = \<lparr> run_sends = [], run_result = Some (LTable (Some (Obj t))) \<rparr>
   in fst (on_request c g h run Null (mpsc_channel 1)) = Reply ''r'' \<and>
      map_of (map_remove ''_reply'' t) = (map_of t)(''_reply'' := None)"
proof -
  let ?c = "\<lparr> from_str = (\<lambda>_. None), to_string = (\<lambda>v. if v = Obj [(''id'', num 7)] then Some ''r'' else None) \<rparr>"
  let ?g = "\<lparr> lg_function = (\<lambda>_. True), lg_telescope = True, lg_to_value = (\<lambda>_. True) \<rparr>"
  let ?h = "case hook_engine_new (\<lambda>_. None) (\<lambda>_. True) ?g [] of Inr h \<Rightarrow> h"
  let ?run = "\<lparr> run_sends = [], run_result = Some (LTable (Some (Obj [(''_reply'', Bool True), (''id'', num 7)]))) \<rparr>"
  have "fst (on_request ?c ?g ?h ?run Null (mpsc_channel 1)) = Reply ''r''"
    by (simp add: on_request_def call_message_hook_def interpret_result_def hook_engine_new_def
        map_remove_def num_def as_bool_def)
  from reply_is_the_table_without_marker [OF this] this show ?thesis by (simp only: Let_def) auto
qed

end
