(* ===== verification/Line_Io.thy ===== *)
theory Line_Io
  imports Proxy_Base
begin

text \<open>
  The two line readers of \<open>src/control.rs\<close>: \<open>read_line_limited\<close> on a client connection (also
  used by \<open>src/imaging.rs\<close>) and the line splitting of \<open>upstream_reader_task\<close>.

  A buffered reader is the list of the chunks that \<open>fill_buf\<close> will return, none of them empty;
  the empty list is end of file.
\<close>

definition MAX_LINE_BYTES :: nat where "MAX_LINE_BYTES = 1048576"

text \<open>\<open>iter().position(|&b| b == b'\\n')\<close>.\<close>

fun nl_pos :: "bytes \<Rightarrow> nat option" where
  "nl_pos [] = None"
| "nl_pos (b # bs) = (if b = nl then Some 0 else map_option Suc (nl_pos bs))"

lemma nl_pos_Some: "nl_pos bs = Some p \<Longrightarrow> p < length bs \<and> bs ! p = nl \<and> nl \<notin> set (take p bs)"
  by (induction bs arbitrary: p) (auto split: if_splits)

lemma nl_pos_None: "nl_pos bs = None \<longleftrightarrow> nl \<notin> set bs"
  by (induction bs) auto

lemma nl_pos_append: "nl \<notin> set bs \<Longrightarrow> nl_pos (bs @ nl # cs) = Some (length bs)"
  by (induction bs) auto

section \<open>Client lines\<close>

text \<open>\<open>reader.consume(n)\<close> on the current chunk.\<close>

definition consume :: "nat \<Rightarrow> bytes list \<Rightarrow> bytes list" where
  "consume n cs = (case cs of [] \<Rightarrow> []
     | c # rest \<Rightarrow> if n < length c then drop n c # rest else rest)"

fun read_line_loop :: "bytes list \<Rightarrow> bytes \<Rightarrow> nat \<Rightarrow> nat \<Rightarrow> nat \<times> bytes \<times> bytes list" where
  "read_line_loop [] buf tot limit = (tot, buf, [])"
| "read_line_loop (available # rest) buf tot limit =
     (case nl_pos available of
        Some pos \<Rightarrow> (tot + (pos + 1), buf @ take (pos + 1) available,
                     consume (pos + 1) (available # rest))
      | None \<Rightarrow>
          if limit < tot + length available
          then (tot + length available, buf @ available, rest)
          else read_line_loop rest (buf @ available) (tot + length available) limit)"

text \<open>\<open>read_line_limited\<close>: the number of bytes read, the buffer, and the rest of the stream.\<close>

definition read_line_limited :: "bytes list \<Rightarrow> bytes \<Rightarrow> nat \<Rightarrow> nat \<times> bytes \<times> bytes list" where
  "read_line_limited reader buf limit = read_line_loop reader buf 0 limit"

definition chunks_wf :: "bytes list \<Rightarrow> bool" where
  "chunks_wf cs \<longleftrightarrow> [] \<notin> set cs"

lemma consume_concat:
  "n \<le> length c \<Longrightarrow> concat (consume n (c # rest)) = drop n (concat (c # rest))"
  by (simp add: consume_def)

lemma consume_wf: "chunks_wf (c # rest) \<Longrightarrow> chunks_wf (consume n (c # rest))"
  by (auto simp: consume_def chunks_wf_def)

lemma read_line_loop_spec:
  assumes "read_line_loop cs buf tot limit = (n, line, rest)"
  shows "\<exists>got. line = buf @ got \<and> n = tot + length got \<and> concat cs = got @ concat rest"
  using assms
proof (induction cs buf tot limit rule: read_line_loop.induct)
  case (2 available cs buf tot limit)
  show ?case
  proof (cases "nl_pos available")
    case None
    show ?thesis
    proof (cases "limit < tot + length available")
      case True
      with 2 None show ?thesis by auto
    next
      case False
      with 2 None obtain got where "line = (buf @ available) @ got"
        "n = tot + length available + length got" "concat cs = got @ concat rest" by auto
      then show ?thesis by (intro exI [of _ "available @ got"]) simp
    qed
  next
    case (Some pos)
    then have pos: "pos < length available" by (simp add: nl_pos_Some)
    with 2 Some have r: "n = tot + (pos + 1)" "line = buf @ take (pos + 1) available"
      "rest = consume (pos + 1) (available # cs)" by auto
    moreover have "concat (available # cs) = take (pos + 1) available @ concat rest"
      using pos by (simp add: r consume_concat)
    ultimately show ?thesis
      using pos by (intro exI [of _ "take (pos + 1) available"]) simp
  qed
qed auto

text \<open>
  What the loop reads ends at the first newline of the stream, unless the stream ends first or
  the limit is passed.
\<close>

lemma read_line_loop_line:
  assumes "read_line_loop cs buf tot limit = (n, buf @ got, rest)" and "chunks_wf cs"
  shows "nl \<notin> set (butlast got) \<and>
    (got \<noteq> [] \<and> last got = nl \<or> nl \<notin> set got \<and> (rest = [] \<or> limit < n))"
  using assms
proof (induction cs buf tot limit arbitrary: got rule: read_line_loop.induct)
  case (2 available cs buf tot limit)
  show ?case
  proof (cases "nl_pos available")
    case None
    then have no: "nl \<notin> set available" by (simp add: nl_pos_None)
    show ?thesis
    proof (cases "limit < tot + length available")
      case True
      with 2 None no show ?thesis by (auto dest: in_set_butlastD)
    next
      case False
      with 2 None have r: "read_line_loop cs (buf @ available) (tot + length available) limit =
          (n, buf @ got, rest)" by auto
      then obtain g where g: "buf @ got = (buf @ available) @ g"
        using read_line_loop_spec by blast
      with 2(1) [OF None False, of g] r 2(3)
      have "nl \<notin> set (butlast g) \<and>
        (g \<noteq> [] \<and> last g = nl \<or> nl \<notin> set g \<and> (rest = [] \<or> limit < n))"
        by (simp add: chunks_wf_def)
      with g no show ?thesis by (auto simp: butlast_append dest: in_set_butlastD)
    qed
  next
    case (Some pos)
    with 2 have "got = take (pos + 1) available" by auto
    moreover have "take (pos + 1) available = take pos available @ [nl]"
      using nl_pos_Some [OF Some] by (simp add: take_Suc_conv_app_nth)
    ultimately show ?thesis using nl_pos_Some [OF Some] by auto
  qed
qed auto

lemma read_line_loop_bound:
  assumes "read_line_loop cs buf tot limit = (n, line, rest)" and "tot \<le> limit"
    and "\<forall>c \<in> set cs. length c \<le> cap"
  shows "n \<le> limit + cap"
  using assms
proof (induction cs buf tot limit rule: read_line_loop.induct)
  case (2 available cs buf tot limit)
  then show ?case
    by (auto split: option.splits if_splits dest: nl_pos_Some)
qed auto

section \<open>Telescope lines\<close>

text \<open>The \<open>while let\<close> loop: every complete line of the buffer without its newline, and what
  is left.\<close>

function split_lines :: "bytes \<Rightarrow> bytes list \<times> bytes" where
  "split_lines buf = (case nl_pos buf of
      None \<Rightarrow> ([], buf)
    | Some pos \<Rightarrow> (let (ls, r) = split_lines (drop (pos + 1) buf) in (take pos buf # ls, r)))"
  by pat_completeness auto
termination
  by (relation "measure length") (auto dest: nl_pos_Some)

declare split_lines.simps [simp del]

lemma split_lines_None: "nl \<notin> set buf \<Longrightarrow> split_lines buf = ([], buf)"
  by (subst split_lines.simps) (simp add: nl_pos_None [THEN iffD2])

lemma split_lines_line:
  "nl \<notin> set l \<Longrightarrow> split_lines (l @ nl # r) = (l # fst (split_lines r), snd (split_lines r))"
  by (subst split_lines.simps) (simp add: nl_pos_append case_prod_beta Let_def)

lemma split_lines_spec:
  "split_lines buf = (ls, r) \<Longrightarrow>
     buf = concat (map (\<lambda>l. l @ [nl]) ls) @ r \<and> nl \<notin> set r \<and> (\<forall>l \<in> set ls. nl \<notin> set l)"
proof (induction buf arbitrary: ls r rule: split_lines.induct)
  case (1 buf)
  show ?case
  proof (cases "nl_pos buf")
    case None
    with 1 show ?thesis by (simp add: split_lines_None nl_pos_None)
  next
    case (Some pos)
    let ?l = "take pos buf" and ?t = "drop (pos + 1) buf"
    have buf: "buf = ?l @ nl # ?t" "nl \<notin> set ?l"
      using nl_pos_Some [OF Some] by (metis Suc_eq_plus1 id_take_nth_drop) (simp add: nl_pos_Some [OF Some])
    then have "split_lines buf = (?l # fst (split_lines ?t), snd (split_lines ?t))"
      by (metis split_lines_line)
    moreover obtain ls' r' where t: "split_lines ?t = (ls', r')" by (cases "split_lines ?t")
    ultimately have "ls = ?l # ls'" "r = r'" using 1(2) by auto
    with 1(1) [OF Some t] buf show ?thesis by auto
  qed
qed

text \<open>Splitting is independent of how the stream was cut into reads.\<close>

lemma split_lines_append:
  assumes "split_lines a = (ls, r)"
  shows "split_lines (a @ b) = (ls @ fst (split_lines (r @ b)), snd (split_lines (r @ b)))"
proof -
  have a: "a = concat (map (\<lambda>l. l @ [nl]) ls) @ r" and no: "\<forall>l \<in> set ls. nl \<notin> set l"
    using split_lines_spec [OF assms] by auto
  have "split_lines (concat (map (\<lambda>l. l @ [nl]) ls) @ c) =
      (ls @ fst (split_lines c), snd (split_lines c))" for c
    using no by (induction ls) (simp_all add: split_lines_line)
  then show ?thesis by (simp add: a)
qed

fun read_chunks :: "bytes \<Rightarrow> bytes list \<Rightarrow> bytes list \<times> bytes" where
  "read_chunks buf [] = ([], buf)"
| "read_chunks buf (c # cs) =
     (let (ls, r) = split_lines (buf @ c); (ls', r') = read_chunks r cs in (ls @ ls', r'))"

lemma read_chunks_eq:
  "split_lines buf = ([], buf) \<Longrightarrow> read_chunks buf cs = split_lines (buf @ concat cs)"
proof (induction cs arbitrary: buf)
  case (Cons c cs)
  obtain ls r where s: "split_lines (buf @ c) = (ls, r)" by (cases "split_lines (buf @ c)")
  then have "split_lines r = ([], r)"
    using split_lines_spec split_lines_None by blast
  with Cons.IH [of r] split_lines_append [OF s, of "concat cs"] s show ?case
    by (simp add: case_prod_beta Let_def)
qed simp

section \<open>Properties\<close>

text \<open>C27. Reading a client line: the bytes returned are exactly the bytes taken off the stream, none
  is lost or repeated; they stop at the first newline, or at end of file, or once the limit has
  been passed, and then by no more than one buffer fill.  A result of 0 means end of file.
\<close>

theorem read_line_limited_correct:
  assumes "read_line_limited reader [] limit = (n, line, rest)"
    and "chunks_wf reader" and "\<forall>c \<in> set reader. length c \<le> cap"
  shows "n = length line \<and> concat reader = line @ concat rest \<and> nl \<notin> set (butlast line) \<and>
    (line \<noteq> [] \<and> last line = nl \<or> nl \<notin> set line \<and> (rest = [] \<or> limit < n)) \<and>
    n \<le> limit + cap \<and> (n = 0 \<longleftrightarrow> reader = [])"
proof -
  note r = assms(1) [unfolded read_line_limited_def]
  have eq: "n = length line" "concat reader = line @ concat rest"
    using read_line_loop_spec [OF r] by auto
  moreover have "n = 0 \<longleftrightarrow> reader = []"
  proof
    assume "n = 0"
    show "reader = []"
    proof (rule ccontr)
      assume "reader \<noteq> []"
      then obtain c cs where "reader = c # cs" "c \<noteq> []"
        using assms(2) by (cases reader) (auto simp: chunks_wf_def)
      with r \<open>n = 0\<close> show False
        using read_line_loop_spec [of cs c "length c" limit n line rest]
        by (auto split: option.splits if_splits)
    qed
  qed (use r in simp)
  ultimately show ?thesis
    using read_line_loop_line [of reader "[]" 0 limit n line rest] assms(2) r
      read_line_loop_bound [OF r _ assms(3)] by simp
qed

theorem read_line_limited_correct_witness:
  "read_line_limited [[123, 125], [13, 10, 91]] [] 100 = (4, [123, 125, 13, 10], [[91]]) \<and>
   concat [[123, 125], [13, 10, 91]] = [123, 125, 13, 10] @ concat [[91 :: u8]]"
proof -
  have r: "read_line_limited [[123, 125], [13, 10, 91]] [] 100 = (4, [123, 125, 13, 10], [[91]])"
    by (simp add: read_line_limited_def consume_def nl_def)
  show ?thesis
    using read_line_limited_correct [OF r, of 3] r by (simp add: chunks_wf_def)
qed


end
