(* ===== verification/Control.thy ===== *)
theory Control
  imports Metrics Recorder Hooks Line_Io
begin

text \<open>
  \<open>src/control.rs\<close>: the JSON-RPC multiplexer.  This theory holds the shared state and what each
  task does between two of its await points, as functions on that state; \<open>Control_System\<close> composes
  them into the interleaved system.

  \<open>env\<close> collects what one step takes from outside the repository: the JSON codec, the recorder's
  codec and disk, the Lua globals, the clock and whether \<open>warn!\<close> and \<open>debug!\<close> lines are enabled
  (their arguments are only evaluated then).
\<close>

definition MAX_PENDING_REQUESTS :: nat where "MAX_PENDING_REQUESTS = 1024"

text \<open>A client's sender is named by the number of the client.\<close>

record pending_request =
  client_tx :: nat
  original_id :: json

record control =
  next_id :: u64
  pending :: "(u64 \<times> pending_request) list"
  upstream :: "string mpsc"
  responses :: "nat \<Rightarrow> string mpsc"
  events :: "string bcast"
  handshake_done :: bool
  ctl_metrics :: "metrics option"
  ctl_recorder :: "recorder option"
  ctl_hooks :: "hook_engine option"

record env =
  codec :: json_codec
  rcodec :: record_codec
  disk :: "string \<Rightarrow> bool"
  lua :: lua_globals
  now :: clock
  rec_ts :: f64
  warn_enabled :: bool
  debug_enabled :: bool

definition control_init ::
    "metrics option \<Rightarrow> recorder option \<Rightarrow> hook_engine option \<Rightarrow> control" where
  "control_init m r h =
     \<lparr> next_id = 100000, pending = [], upstream = mpsc_channel 256,
       responses = (\<lambda>_. close_rx (mpsc_channel 64)), events = broadcast_channel 256,
       handshake_done = False, ctl_metrics = m, ctl_recorder = r,
       ctl_hooks = map_option set_upstream_tx h \<rparr>"

definition record_ctl :: "env \<Rightarrow> string \<Rightarrow> string \<Rightarrow> control \<Rightarrow> control" where
  "record_ctl e dir raw s =
     s\<lparr> ctl_recorder := map_option (record_control (rcodec e) (disk e) (rec_ts e) dir raw) (ctl_recorder s) \<rparr>"

definition with_metrics :: "(metrics \<Rightarrow> metrics) \<Rightarrow> control \<Rightarrow> control" where
  "with_metrics f s = s\<lparr> ctl_metrics := map_option f (ctl_metrics s) \<rparr>"

definition broadcast_event :: "string \<Rightarrow> control \<Rightarrow> control" where
  "broadcast_event x s = s\<lparr> events := bsend x (events s) \<rparr>"

text \<open>A \<open>warn!\<close> or \<open>debug!\<close> line that prints a prefix of a string panics when the cut is inside a
  character.\<close>

definition slice_panics :: "bool \<Rightarrow> string \<Rightarrow> nat \<Rightarrow> bool" where
  "slice_panics enabled s n \<longleftrightarrow> enabled \<and> log_prefix s n = Panic"

section \<open>Client tasks\<close>

text \<open>Where a client task is between two awaits.\<close>

datatype client_pc =
    Reading
  | Replying string \<comment> \<open>awaiting \<open>response_tx.send\<close> of a synthetic reply\<close>
  | AwaitLock u64 json string \<comment> \<open>awaiting the lock: remapped id, original id, line to forward\<close>
  | Rejecting string \<comment> \<open>holding the lock, awaiting \<open>response_tx.send\<close> of the error\<close>
  | SendingRequest u64 string \<comment> \<open>awaiting \<open>upstream_tx.send\<close> of a registered request\<close>
  | SendingNote string \<comment> \<open>awaiting \<open>upstream_tx.send\<close> of a notification\<close>
  | Left \<comment> \<open>left the loop: the writer task has been aborted\<close>
  | ErrorExit \<comment> \<open>returned an error: the writer task has not been aborted\<close>
  | Crashed
  | Finished \<comment> \<open>the task around \<open>handle_client\<close> is over\<close>

definition client_metrics :: "env \<Rightarrow> string \<Rightarrow> metrics \<Rightarrow> metrics" where
  "client_metrics e trimmed m =
     (let m1 = m\<lparr> control_tx := control_tx m + 1 \<rparr> in
      case from_str (codec e) trimmed of
        None \<Rightarrow> m1
      | Some v \<Rightarrow>
          let meth = (case method_name v of Some s \<Rightarrow> s | None \<Rightarrow> ''?'')
          in push_log_with_payload (now e) ''ctrl-tx'' meth (Some trimmed) m1)"

text \<open>Remapping and serialising a request; a message without id is forwarded as it is.\<close>

definition forward_request :: "env \<Rightarrow> json \<Rightarrow> control \<Rightarrow> control \<times> client_pc" where
  "forward_request e msg s = (case get_id msg of
      Some oid \<Rightarrow>
        (let remapped_id = next_id s;
             s1 = s\<lparr> next_id := next_id s + 1 \<rparr>
         in case to_string (codec e) (set_json_rpc_id msg remapped_id) of
              None \<Rightarrow> (s1, Reading)
            | Some forwarded \<Rightarrow> (s1, AwaitLock remapped_id oid forwarded))
    | None \<Rightarrow> (case to_string (codec e) msg of
         None \<Rightarrow> (s, ErrorExit)
       | Some forwarded \<Rightarrow> (s, SendingNote forwarded)))"

text \<open>One non-empty line, from the recorder call up to the next await.\<close>

definition client_message :: "env \<Rightarrow> lua_run \<Rightarrow> string \<Rightarrow> control \<Rightarrow> control \<times> client_pc" where
  "client_message e run trimmed s =
     (let s1 = record_ctl e ''client'' trimmed s;
          s2 = with_metrics (client_metrics e trimmed) s1
      in case from_str (codec e) trimmed of
           None \<Rightarrow> (s2, if slice_panics (warn_enabled e) trimmed 100 then Crashed else Reading)
         | Some msg \<Rightarrow> (case ctl_hooks s2 of
             None \<Rightarrow> forward_request e msg s2
           | Some h \<Rightarrow>
               let (action, up) = on_request (codec e) (lua e) h run msg (upstream s2);
                   s3 = s2\<lparr> upstream := up \<rparr>
               in case action of
                    Forward \<Rightarrow> forward_request e msg s3
                  | Block \<Rightarrow> (s3, if slice_panics (debug_enabled e) trimmed 100 then Crashed else Reading)
                  | Modify new_json \<Rightarrow>
                      forward_request e (case from_str (codec e) new_json of Some v \<Rightarrow> v | None \<Rightarrow> msg) s3
                  | Reply reply_json \<Rightarrow>
                      (s3, if slice_panics (debug_enabled e) reply_json 100 then Crashed
                           else Replying reply_json)))"

text \<open>The read loop: \<open>n\<close> and the bytes are what \<open>read_line_limited\<close> returned.\<close>

definition client_line :: "env \<Rightarrow> lua_run \<Rightarrow> nat \<Rightarrow> bytes \<Rightarrow> control \<Rightarrow> control \<times> client_pc" where
  "client_line e run n line_buf s =
     (if n = 0 then (s, Left)
      else if MAX_LINE_BYTES < length line_buf then (s, Left)
      else let trimmed = trim (from_utf8_lossy line_buf) in
        if trimmed = [] then (s, Reading) else client_message e run trimmed s)"

definition json_neg :: "nat \<Rightarrow> json" where
  "json_neg n = Number (NegInt (- of_nat n))"

definition limit_error :: "env \<Rightarrow> json \<Rightarrow> string" where
  "limit_error e oid =
     (case to_string (codec e)
        (obj [(''id'', oid), (''code'', json_neg 32000), (''error'', Str ''too many pending requests'')]) of
        Some s \<Rightarrow> s | None \<Rightarrow> '''')"

text \<open>The block under the lock: limit check and registration.\<close>

definition register_request ::
    "env \<Rightarrow> nat \<Rightarrow> u64 \<Rightarrow> json \<Rightarrow> string \<Rightarrow> control \<Rightarrow> control \<times> client_pc" where
  "register_request e c remapped_id oid forwarded s =
     (if MAX_PENDING_REQUESTS \<le> length (pending s) then (s, Rejecting (limit_error e oid))
      else (s\<lparr> pending := AList.update remapped_id \<lparr> client_tx = c, original_id = oid \<rparr> (pending s) \<rparr>,
            SendingRequest remapped_id forwarded))"

definition remove_pending :: "u64 \<Rightarrow> control \<Rightarrow> control" where
  "remove_pending rid s = s\<lparr> pending := AList.delete rid (pending s) \<rparr>"

definition set_response :: "nat \<Rightarrow> string mpsc \<Rightarrow> control \<Rightarrow> control" where
  "set_response c ch s = s\<lparr> responses := (responses s)(c := ch) \<rparr>"

text \<open>\<open>response_tx.send\<close> at a client task: \<open>None\<close> while the channel is full.\<close>

definition send_response :: "nat \<Rightarrow> string \<Rightarrow> control \<Rightarrow> control option" where
  "send_response c x s = (case poll_send x (responses s c) of
      Waiting \<Rightarrow> None | Failed \<Rightarrow> Some s | Sent ch \<Rightarrow> Some (set_response c ch s))"

text \<open>\<open>upstream_tx.send\<close> of a registered request and of a notification.\<close>

definition send_request :: "u64 \<Rightarrow> string \<Rightarrow> control \<Rightarrow> (control \<times> client_pc) option" where
  "send_request rid forwarded s = (case poll_send forwarded (upstream s) of
      Waiting \<Rightarrow> None
    | Failed \<Rightarrow> Some (remove_pending rid s, Left)
    | Sent up \<Rightarrow> Some (s\<lparr> upstream := up \<rparr>, Reading))"

definition send_note :: "string \<Rightarrow> control \<Rightarrow> (control \<times> client_pc) option" where
  "send_note forwarded s = (case poll_send forwarded (upstream s) of
      Waiting \<Rightarrow> None
    | Failed \<Rightarrow> Some (s, Left)
    | Sent up \<Rightarrow> Some (s\<lparr> upstream := up \<rparr>, Reading))"

section \<open>The upstream reader\<close>

definition quoted :: "string \<Rightarrow> string" where
  "quoted s = CHR 0x22 # s @ [CHR 0x22]"

text \<open>The \<open>method_hint\<close> of the log line is computed whether or not it is printed.\<close>

definition method_hint :: "string \<Rightarrow> string run" where
  "method_hint t =
     (if 20 < length t then
        (case str_find (quoted ''method'') t of
           Some start \<Rightarrow> str_slice t start (min (length t) (start + 50))
         | None \<Rightarrow> (case str_find (quoted ''Event'') t of
             Some start \<Rightarrow> str_slice t start (min (length t) (start + 40))
           | None \<Rightarrow> str_slice t 0 (min (length t) 60)))
      else Ret t)"

datatype reader_pc =
    RIdle
  | RLocking json string u64 \<comment> \<open>awaiting the lock to look the id up\<close>
  | RDelivering nat string \<comment> \<open>awaiting \<open>client_tx.send\<close>\<close>
  | REnded
  | RCrashed

definition event_name :: "json \<Rightarrow> string" where
  "event_name msg = (case Option.bind (jget msg ''Event'') as_str of Some n \<Rightarrow> n | None \<Rightarrow> ''?'')"

definition reader_event :: "env \<Rightarrow> lua_run \<Rightarrow> string \<Rightarrow> json \<Rightarrow> control \<Rightarrow> control" where
  "reader_event e run trimmed msg s =
     (let n = event_name msg;
          s1 = with_metrics (\<lambda>m. update_event (now_epoch_ms (now e)) n msg
                 (push_log_with_payload (now e) ''ctrl-evt'' n (Some trimmed)
                   (m\<lparr> control_events := control_events m + 1 \<rparr>))) s
      in case ctl_hooks s1 of
           None \<Rightarrow> broadcast_event trimmed s1
         | Some h \<Rightarrow>
             let (action, up) = on_event (codec e) (lua e) h run msg (upstream s1);
                 s2 = s1\<lparr> upstream := up \<rparr>
             in if action = Block then s2 else broadcast_event trimmed s2)"

text \<open>One line from the telescope, up to the next await.\<close>

definition reader_line :: "env \<Rightarrow> lua_run \<Rightarrow> bytes \<Rightarrow> control \<Rightarrow> control \<times> reader_pc" where
  "reader_line e run line_bytes s =
     (let trimmed = trim (from_utf8_lossy line_bytes) in
      if trimmed = [] then (s, RIdle)
      else if method_hint trimmed = Panic then (s, RCrashed)
      else
        let s1 = record_ctl e ''telescope'' trimmed s;
            s2 = s1\<lparr> handshake_done := True \<rparr>
        in case from_str (codec e) trimmed of
             None \<Rightarrow> (s2, if slice_panics (warn_enabled e) trimmed 100 then RCrashed else RIdle)
           | Some msg \<Rightarrow>
               if is_event msg then
                 (reader_event e run trimmed msg
                    (s2\<lparr> ctl_hooks := map_option (update_telescope_state (lua e) msg) (ctl_hooks s2) \<rparr>),
                  RIdle)
               else (case json_rpc_id msg of
                   Some rid \<Rightarrow>
                     (with_metrics (\<lambda>m. m\<lparr> control_rx := control_rx m + 1 \<rparr>) s2, RLocking msg trimmed rid)
                 | None \<Rightarrow> (broadcast_event trimmed s2, RIdle)))"

definition restored_response :: "env \<Rightarrow> json \<Rightarrow> pending_request \<Rightarrow> string" where
  "restored_response e msg p =
     (case to_string (codec e) (set_json_rpc_id_value msg (original_id p)) of
        Some s \<Rightarrow> s | None \<Rightarrow> '''')"

text \<open>Looking the remapped id up and routing the response.\<close>

definition reader_route ::
    "env \<Rightarrow> lua_run \<Rightarrow> json \<Rightarrow> string \<Rightarrow> u64 \<Rightarrow> control \<Rightarrow> control \<times> reader_pc" where
  "reader_route e run msg trimmed rid s = (case map_of (pending s) rid of
      Some p \<Rightarrow>
        (let s1 = remove_pending rid s;
             response = set_json_rpc_id_value msg (original_id p);
             response_str = restored_response e msg p;
             meth = (case method_name response of Some n \<Rightarrow> n | None \<Rightarrow> ''?'');
             s2 = with_metrics (\<lambda>m. update_response response
                    (push_log_with_payload (now e) ''ctrl-rx'' meth (Some response_str) m)) s1
         in (s2, RDelivering (client_tx p) response_str))
    | None \<Rightarrow> (case ctl_hooks s of
        None \<Rightarrow> (broadcast_event trimmed s, RIdle)
      | Some h \<Rightarrow>
          let (action, up) = on_response (codec e) (lua e) h run msg (upstream s);
              s1 = s\<lparr> upstream := up \<rparr>
          in (if action = Block then s1 else broadcast_event trimmed s1, RIdle)))"

text \<open>The buffer check after the complete lines of a read have been processed.\<close>

definition buffer_overflow :: "bytes \<Rightarrow> bool" where
  "buffer_overflow buf \<longleftrightarrow> 1000000 < length buf"

section \<open>The upstream connection\<close>

definition reconnect_error :: "env \<Rightarrow> pending_request \<Rightarrow> string" where
  "reconnect_error e p =
     (case to_string (codec e)
        (obj [(''id'', original_id p), (''code'', json_neg 1), (''error'', Str ''telescope reconnecting'')]) of
        Some s \<Rightarrow> s | None \<Rightarrow> '''')"

definition fail_pending :: "env \<Rightarrow> pending_request \<Rightarrow> control \<Rightarrow> control" where
  "fail_pending e p s = (case try_send (reconnect_error e p) (responses s (client_tx p)) of
      Inl _ \<Rightarrow> s | Inr ch \<Rightarrow> set_response (client_tx p) ch s)"

definition drain_pending :: "env \<Rightarrow> control \<Rightarrow> control" where
  "drain_pending e s = (fold (\<lambda>(_, p). fail_pending e p) (pending s) s)\<lparr> pending := [] \<rparr>"

text \<open>What happens right after the TCP connection to the telescope is up.\<close>

definition upstream_connected :: "env \<Rightarrow> lua_run \<Rightarrow> control \<Rightarrow> control" where
  "upstream_connected e run s =
     (let s1 = s\<lparr> handshake_done := False \<rparr>;
          s2 = with_metrics reset_telescope_state s1;
          s3 = drain_pending e s2
      in case ctl_hooks s3 of
           None \<Rightarrow> s3
         | Some h \<Rightarrow> let (h', up) = on_upstream_connect (codec e) (lua e) h run (upstream s3)
                     in s3\<lparr> ctl_hooks := Some h', upstream := up \<rparr>)"

definition heartbeat_msg :: "u64 \<Rightarrow> string" where
  "heartbeat_msg n =
     ''{'' @ quoted ''id'' @ '':'' @ show_nat (unat n) @ '','' @ quoted ''method'' @ '':'' @
     quoted ''test_connection'' @ '','' @ quoted ''params'' @ '':'' @ quoted ''verify'' @ ''}''"

text \<open>One turn of the heartbeat loop up to its \<open>send\<close>: skipped while the handshake is pending.\<close>

definition heartbeat_tick :: "control \<Rightarrow> control \<times> string option" where
  "heartbeat_tick s =
     (if \<not> handshake_done s then (s, None)
      else (s\<lparr> next_id := next_id s + 1 \<rparr>, Some (heartbeat_msg (next_id s))))"

end
