(* ===== verification/Machines.thy ===== *)
theory Machines
  imports Main
begin

text \<open>
  Step relations, the states they reach in a given number of steps, and the two ways the
  development reasons about them: an invariant that every step keeps, and a refinement in which
  every concrete step is matched by an abstract one.
\<close>

inductive reach_in :: "('s \<Rightarrow> bool) \<Rightarrow> ('s \<Rightarrow> 's \<Rightarrow> bool) \<Rightarrow> nat \<Rightarrow> 's \<Rightarrow> bool"
  for start step where
  reach_start: "start s \<Longrightarrow> reach_in start step 0 s"
| reach_step: "reach_in start step n s \<Longrightarrow> step s t \<Longrightarrow> reach_in start step (Suc n) t"

inductive_cases reach_0: "reach_in start step 0 s"

lemma reach_1: "start s \<Longrightarrow> step s t \<Longrightarrow> reach_in start step 1 t"
  using reach_step [OF reach_start] by simp

lemma reach_one: "step s t \<Longrightarrow> reach_in ((=) s) step 1 t"
  by (rule reach_1) simp_all

lemma reach_append:
  "reach_in ((=) s) step m u \<Longrightarrow> reach_in start step n s \<Longrightarrow> reach_in start step (n + m) u"
  by (induction rule: reach_in.induct) (auto intro: reach_in.intros)

text \<open>What holds now and did not hold at the start was brought about by some step.\<close>

lemma reach_origin:
  assumes "reach_in start step n s" and "P s" and "\<And>s. start s \<Longrightarrow> \<not> P s"
  shows "\<exists>m s0 t0. m < n \<and> reach_in start step m s0 \<and> step s0 t0 \<and> \<not> P s0 \<and> P t0 \<and>
           reach_in ((=) t0) step (n - Suc m) s"
  using assms(1,2)
proof (induction rule: reach_in.induct)
  case (reach_start s)
  with assms(3) show ?case by blast
next
  case (reach_step n s t)
  show ?case
  proof (cases "P s")
    case True
    with reach_step.IH obtain m s0 t0 where "m < n" "reach_in start step m s0" "step s0 t0" "\<not> P s0"
      "P t0" "reach_in ((=) t0) step (n - Suc m) s" by blast
    moreover from this reach_step.hyps have "reach_in ((=) t0) step (Suc n - Suc m) t"
      using reach_in.reach_step [of "(=) t0" step "n - Suc m" s t] by (simp add: Suc_diff_Suc)
    ultimately show ?thesis using less_SucI by blast
  next
    case False
    have "reach_in ((=) t) step 0 t" by (simp add: reach_in.reach_start)
    with False reach_step show ?thesis by (intro exI [of _ n] exI [of _ s] exI [of _ t]) simp
  qed
qed

text \<open>An invariant may depend on the number of steps taken.\<close>

locale counted_invariant =
  fixes start :: "'s \<Rightarrow> bool" and step :: "'s \<Rightarrow> 's \<Rightarrow> bool" and inv :: "nat \<Rightarrow> 's \<Rightarrow> bool"
  assumes inv_start: "start s \<Longrightarrow> inv 0 s"
    and inv_step: "inv n s \<Longrightarrow> step s t \<Longrightarrow> inv (Suc n) t"
begin

lemma reach_inv: "reach_in start step n s \<Longrightarrow> inv n s"
  by (induction rule: reach_in.induct) (auto intro: inv_start inv_step)

end

locale refinement =
  fixes cstart :: "'c \<Rightarrow> bool" and cstep :: "'c \<Rightarrow> 'c \<Rightarrow> bool"
    and astart :: "'a \<Rightarrow> bool" and astep :: "'a \<Rightarrow> 'a \<Rightarrow> bool"
    and abst :: "'c \<Rightarrow> 'a" and cinv :: "'c \<Rightarrow> bool"
  assumes start_sim: "cstart s \<Longrightarrow> astart (abst s) \<and> cinv s"
    and step_inv: "cinv s \<Longrightarrow> cstep s t \<Longrightarrow> cinv t"
    and step_sim: "cinv s \<Longrightarrow> cstep s t \<Longrightarrow> astep (abst s) (abst t)"
begin

lemma reach_cinv: "reach_in cstart cstep n s \<Longrightarrow> cinv s"
  by (induction rule: reach_in.induct) (auto simp: start_sim intro: step_inv)

lemma reach_refines: "reach_in cstart cstep n s \<Longrightarrow> reach_in astart astep n (abst s)"
proof (induction rule: reach_in.induct)
  case (reach_step n s t)
  then show ?case using step_sim reach_cinv by (blast intro: reach_in.reach_step)
qed (auto simp: start_sim intro: reach_in.reach_start)

end

end
