(* ===== verification/Router.thy ===== *)
theory Router
  imports Control Machines
begin

text \<open>
  What the multiplexer promises, as an abstract machine: identifiers are handed out in
  increasing order; a client that was given one may register its request under it while fewer
  than \<open>MAX_PENDING_REQUESTS\<close> requests are pending, or give it up; registered requests leave one
  by one (answered, or never sent) or all together (the telescope reconnected).  The concrete
  tasks, with their queues, hooks, logs and locks, are shown to refine it in \<open>Control_System\<close>.
\<close>

record router =
  r_next :: u64
  r_pending :: "(u64 \<times> pending_request) list"
  r_want :: "nat \<Rightarrow> (u64 \<times> json) option"

definition router_start :: "router \<Rightarrow> bool" where
  "router_start r \<longleftrightarrow> r = \<lparr> r_next = 100000, r_pending = [], r_want = (\<lambda>_. None) \<rparr>"

inductive router_step :: "router \<Rightarrow> router \<Rightarrow> bool" where
  r_skip: "router_step r r"
| r_burn: "router_step r (r\<lparr> r_next := r_next r + 1 \<rparr>)"
| r_alloc: "r_want r c = None \<Longrightarrow>
    router_step r (r\<lparr> r_next := r_next r + 1, r_want := (r_want r)(c := Some (r_next r, oid)) \<rparr>)"
| r_register: "r_want r c = Some (rid, oid) \<Longrightarrow> length (r_pending r) < MAX_PENDING_REQUESTS \<Longrightarrow>
    router_step r (r\<lparr> r_pending := AList.update rid \<lparr> client_tx = c, original_id = oid \<rparr> (r_pending r),
                     r_want := (r_want r)(c := None) \<rparr>)"
| r_reject: "r_want r c = Some w \<Longrightarrow> router_step r (r\<lparr> r_want := (r_want r)(c := None) \<rparr>)"
| r_remove: "router_step r (r\<lparr> r_pending := AList.delete rid (r_pending r) \<rparr>)"
| r_drain: "router_step r (r\<lparr> r_pending := [] \<rparr>)"

section \<open>Invariants\<close>

definition keys :: "('k \<times> 'v) list \<Rightarrow> 'k set" where
  "keys m = fst ` set m"

lemma keys_dom: "keys m = dom (map_of m)"
  by (simp add: keys_def dom_map_of_conv_image_fst)

lemma keys_update [simp]: "keys (AList.update k v m) = insert k (keys m)"
  by (simp add: keys_dom update_conv')

lemma keys_delete [simp]: "keys (AList.delete k m) = keys m - {k}"
  by (simp add: keys_dom delete_conv')

lemma keys_Nil [simp]: "keys [] = {}"
  by (simp add: keys_def)

text \<open>At any time at most \<open>MAX_PENDING_REQUESTS\<close> requests are pending, under distinct ids.\<close>

definition bounded_inv :: "nat \<Rightarrow> router \<Rightarrow> bool" where
  "bounded_inv n r \<longleftrightarrow>
     distinct (map fst (r_pending r)) \<and> length (r_pending r) \<le> MAX_PENDING_REQUESTS"

lemma length_update_le: "length (AList.update k v m) \<le> Suc (length m)"
  by (induction m) auto

interpretation bnd: counted_invariant router_start router_step bounded_inv
proof unfold_locales
  fix n r t
  assume "bounded_inv n r" and step: "router_step r t"
  from step show "bounded_inv (Suc n) t"
  proof (cases rule: router_step.cases)
    case (r_register c rid oid)
    with \<open>bounded_inv n r\<close> show ?thesis
      using length_update_le [of rid "\<lparr> client_tx = c, original_id = oid \<rparr>" "r_pending r"]
      by (auto simp: bounded_inv_def distinct_update)
  next
    case (r_remove rid)
    with \<open>bounded_inv n r\<close> show ?thesis
      using length_delete_le [of rid "r_pending r"] by (auto simp: bounded_inv_def distinct_delete)
  qed (use \<open>bounded_inv n r\<close> in \<open>auto simp: bounded_inv_def\<close>)
qed (auto simp: router_start_def bounded_inv_def)

text \<open>
  As long as the counter has not wrapped (after \<open>n\<close> steps it is at most \<open>100000 + n\<close>), every
  identifier in use is below the counter, and one that a client holds but has not registered is
  held by that client alone and not pending.
\<close>

definition fresh_inv :: "nat \<Rightarrow> router \<Rightarrow> bool" where
  "fresh_inv n r \<longleftrightarrow> 100000 + n < 2 ^ 64 \<longrightarrow>
     unat (r_next r) \<le> 100000 + n \<and> 100000 \<le> unat (r_next r) \<and>
     (\<forall>rid \<in> keys (r_pending r). 100000 \<le> unat rid \<and> unat rid < unat (r_next r)) \<and>
     (\<forall>c rid oid. r_want r c = Some (rid, oid) \<longrightarrow>
        100000 \<le> unat rid \<and> unat rid < unat (r_next r) \<and> rid \<notin> keys (r_pending r)) \<and>
     (\<forall>c c' rid oid oid'. r_want r c = Some (rid, oid) \<longrightarrow> r_want r c' = Some (rid, oid') \<longrightarrow> c = c')"

lemma next_no_wrap:
  "unat (w :: u64) \<le> 100000 + n \<Longrightarrow> 100000 + Suc n < 2 ^ 64 \<Longrightarrow> unat (w + 1) = Suc (unat w)"
  by (rule unat_Suc_no_wrap) simp

lemma fresh_inv_step:
  assumes inv: "fresh_inv n r" and step: "router_step r t"
  shows "fresh_inv (Suc n) t"
proof (cases "100000 + Suc n < (2 :: nat) ^ 64")
  case False
  then show ?thesis by (simp add: fresh_inv_def)
next
  case bound: True
  have nx: "unat (r_next r + 1) = Suc (unat (r_next r))"
    using inv bound by (intro next_no_wrap [of _ n]) (auto simp: fresh_inv_def)
  from step show ?thesis
  proof (cases rule: router_step.cases)
    case (r_alloc c oid)
    have "\<forall>rid oid'. r_want r c' = Some (rid, oid') \<longrightarrow> rid \<noteq> r_next r" for c'
      using inv bound by (auto simp: fresh_inv_def)
    moreover have "r_next r \<notin> keys (r_pending r)"
      using inv bound by (auto simp: fresh_inv_def)
    ultimately show ?thesis
      using inv bound nx unfolding r_alloc fresh_inv_def by (auto simp: less_Suc_eq)
  next
    case (r_register c rid oid)
    with inv bound show ?thesis by (auto simp: fresh_inv_def le_SucI)
  qed (use inv bound nx in \<open>auto simp: fresh_inv_def less_Suc_eq\<close>)
qed

interpretation fresh: counted_invariant router_start router_step fresh_inv
  by unfold_locales (simp add: router_start_def fresh_inv_def, rule fresh_inv_step)

section \<open>Routing integrity\<close>

text \<open>An entry is never redirected: it stays as it is until it leaves the map.\<close>

lemma router_entry_stable:
  assumes "fresh_inv n r" and "100000 + n < 2 ^ 64" and "router_step r t"
    and "map_of (r_pending r) rid = Some p"
  shows "map_of (r_pending t) rid = Some p \<or> map_of (r_pending t) rid = None"
  using assms(3)
proof (cases rule: router_step.cases)
  case (r_register c rid' oid)
  have "rid \<in> keys (r_pending r)"
    using assms(4) by (auto simp: keys_def dest: map_of_SomeD intro: rev_image_eqI)
  moreover have "rid' \<notin> keys (r_pending r)"
    using assms(1,2) r_register by (auto simp: fresh_inv_def)
  ultimately show ?thesis using assms(4) r_register by (auto simp: update_conv')
qed (use assms(4) in \<open>auto simp: delete_conv'\<close>)

text \<open>An entry appears only by the registration of the client it names.\<close>

lemma router_entry_origin:
  assumes "router_step r t"
    and "map_of (r_pending t) rid = Some p" and "map_of (r_pending r) rid \<noteq> Some p"
  shows "r_want r (client_tx p) = Some (rid, original_id p)"
  using assms(1)
proof (cases rule: router_step.cases)
  case (r_register c rid' oid)
  with assms(2,3) show ?thesis by (auto simp: update_conv' split: if_splits)
qed (use assms(2,3) in \<open>auto simp: delete_conv' split: if_splits\<close>)

section \<open>Identifiers are used once\<close>

text \<open>An identifier that was handed out and is neither held by a client nor pending is spent; it
  stays so.\<close>

definition spent :: "u64 \<Rightarrow> router \<Rightarrow> bool" where
  "spent rid r \<longleftrightarrow> unat rid < unat (r_next r) \<and> rid \<notin> keys (r_pending r) \<and>
     (\<forall>c oid. r_want r c \<noteq> Some (rid, oid))"

lemma spent_step:
  assumes "spent rid r" "fresh_inv n r" "100000 + Suc n < 2 ^ 64" "router_step r t"
  shows "spent rid t"
proof -
  have "unat (r_next r + 1) = Suc (unat (r_next r))"
    using assms(2,3) by (intro next_no_wrap [of _ n]) (auto simp: fresh_inv_def)
  with assms(4,1) show ?thesis
    by (cases rule: router_step.cases) (auto simp: spent_def less_Suc_eq)
qed

lemma spent_reach:
  assumes "reach_in ((=) r) router_step m u" and "reach_in router_start router_step n r"
    and "spent rid r" and "100000 + n + m < 2 ^ 64"
  shows "spent rid u"
  using assms
proof (induction rule: reach_in.induct)
  case (reach_step m s t)
  have "fresh_inv (n + m) s"
    by (rule fresh.reach_inv [OF reach_append [OF reach_step.hyps(1) reach_step.prems(1)]])
  with reach_step show ?case using spent_step [of rid s "n + m" t] by (simp add: algebra_simps)
qed simp

lemma removed_spent:
  assumes "fresh_inv n r" "100000 + Suc n < 2 ^ 64" "router_step r t"
    and "rid \<in> keys (r_pending r)" "rid \<notin> keys (r_pending t)"
  shows "spent rid t"
  using assms(3)
proof (cases rule: router_step.cases)
  case (r_register c rid' oid)
  with assms show ?thesis by auto
qed (use assms in \<open>auto simp: spent_def fresh_inv_def\<close>)

end
