(* ===== verification/Control_System.thy ===== *)
theory Control_System
  imports Router
begin

text \<open>
  The control proxy as a system of tasks: the accept loop, one reader and one writer task per
  client, the upstream task with its reader, and the heartbeat (\<open>control::run\<close>,
  \<open>control::handle_client\<close>, \<open>control::upstream_reader_task\<close>).  A step is what one task does between
  two awaits; which task moves, what arrives on a socket, how a hook script behaves and whether a
  write fails is not determined.  The mutex around the pending map is held across an await in one
  place only, when a request over the limit is rejected; \<open>lock_holder\<close> names the client then.
\<close>

record client =
  c_pc :: client_pc
  c_evpos :: nat \<comment> \<open>position of \<open>event_rx\<close>\<close>
  c_writer :: bool \<comment> \<open>the writer task is running\<close>
  c_out :: "string list" \<comment> \<open>lines written to the client's socket\<close>

record reader =
  r_pc :: reader_pc
  r_buf :: bytes

datatype link = NotStarted | Connecting | Connected nat | LinkDead

record sys =
  ctl :: control
  clients :: "nat \<Rightarrow> client option"
  next_client :: nat
  lock_holder :: "nat option"
  readers :: "nat \<Rightarrow> reader option"
  next_conn :: nat
  link :: link
  wire :: "string list" \<comment> \<open>lines written to the telescope\<close>
  hb_msg :: "string option" \<comment> \<open>the heartbeat awaiting its \<open>send\<close>\<close>

definition sys_start :: "sys \<Rightarrow> bool" where
  "sys_start s \<longleftrightarrow> (\<exists>m r h. s =
     \<lparr> ctl = control_init m r h, clients = (\<lambda>_. None), next_client = 0, lock_holder = None,
       readers = (\<lambda>_. None), next_conn = 0, link = NotStarted, wire = [], hb_msg = None \<rparr>)"

section \<open>Client tasks\<close>

definition set_client :: "nat \<Rightarrow> client \<Rightarrow> sys \<Rightarrow> sys" where
  "set_client c k s = s\<lparr> clients := (clients s)(c := Some k) \<rparr>"

text \<open>The accept loop: subscribe to the events, count the client, run the connect hook, spawn.\<close>

definition accept_client :: "env \<Rightarrow> lua_run \<Rightarrow> sys \<Rightarrow> sys" where
  "accept_client e run s =
     (let c = next_client s;
          k = \<lparr> c_pc = Reading, c_evpos = subscribe (events (ctl s)), c_writer = True, c_out = [] \<rparr>;
          t1 = with_metrics (\<lambda>m. m\<lparr> control_clients := control_clients m + 1 \<rparr>) (ctl s);
          t2 = (case ctl_hooks t1 of None \<Rightarrow> t1
                | Some h \<Rightarrow> t1\<lparr> upstream := on_client_connect (codec e) (lua e) h run (upstream t1) \<rparr>);
          t3 = set_response c (mpsc_channel 64) t2
      in (set_client c k s)\<lparr> ctl := t3, next_client := c + 1 \<rparr>)"

text \<open>Moving a client task on; leaving the loop aborts the writer, which closes the response
  channel.\<close>

definition move_client :: "nat \<Rightarrow> client \<Rightarrow> control \<times> client_pc \<Rightarrow> sys \<Rightarrow> sys" where
  "move_client c k r s = (case r of (t, pc) \<Rightarrow>
     if pc = Left
     then (set_client c (k\<lparr> c_pc := Left, c_writer := False \<rparr>) s)\<lparr>
            ctl := set_response c (close_rx (responses t c)) t \<rparr>
     else (set_client c (k\<lparr> c_pc := pc \<rparr>) s)\<lparr> ctl := t \<rparr>)"

text \<open>Taking the lock for the limit check; it is kept while the error is being sent.\<close>

definition lock_and_register ::
    "env \<Rightarrow> nat \<Rightarrow> client \<Rightarrow> u64 \<Rightarrow> json \<Rightarrow> string \<Rightarrow> sys \<Rightarrow> sys" where
  "lock_and_register e c k rid oid forwarded s =
     (let r = register_request e c rid oid forwarded (ctl s)
      in (move_client c k r s)\<lparr>
           lock_holder := (case snd r of Rejecting _ \<Rightarrow> Some c | _ \<Rightarrow> lock_holder s) \<rparr>)"

text \<open>After \<open>handle_client\<close> returned: uncount the client and run the disconnect hook.  A task
  that panicked never gets here.  The writer task of a client that left with an error has not been
  aborted and goes on.\<close>

definition finish_client :: "env \<Rightarrow> lua_run \<Rightarrow> nat \<Rightarrow> client \<Rightarrow> sys \<Rightarrow> sys" where
  "finish_client e run c k s =
     (let t1 = with_metrics (\<lambda>m. m\<lparr> control_clients := control_clients m - 1 \<rparr>) (ctl s);
          t2 = (case ctl_hooks t1 of None \<Rightarrow> t1
                | Some h \<Rightarrow> t1\<lparr> upstream := on_client_disconnect (codec e) (lua e) h run (upstream t1) \<rparr>)
      in (set_client c (k\<lparr> c_pc := Finished \<rparr>) s)\<lparr> ctl := t2 \<rparr>)"

text \<open>The writer task of a client: a queued response, a broadcast event, a notice of lost events,
  or a failed write, after which the task ends and its receiver is dropped.\<close>

definition write_response :: "nat \<Rightarrow> client \<Rightarrow> string \<Rightarrow> string mpsc \<Rightarrow> sys \<Rightarrow> sys" where
  "write_response c k x ch s =
     (set_client c (k\<lparr> c_out := c_out k @ [x @ crlf] \<rparr>) s)\<lparr> ctl := set_response c ch (ctl s) \<rparr>"

definition write_event :: "nat \<Rightarrow> client \<Rightarrow> string \<Rightarrow> nat \<Rightarrow> sys \<Rightarrow> sys" where
  "write_event c k x p s = set_client c (k\<lparr> c_out := c_out k @ [x @ crlf], c_evpos := p \<rparr>) s"

definition writer_stops :: "nat \<Rightarrow> client \<Rightarrow> sys \<Rightarrow> sys" where
  "writer_stops c k s =
     (set_client c (k\<lparr> c_writer := False \<rparr>) s)\<lparr>
        ctl := set_response c (close_rx (responses (ctl s) c)) (ctl s) \<rparr>"

section \<open>The upstream task\<close>

definition connect_upstream :: "env \<Rightarrow> lua_run \<Rightarrow> sys \<Rightarrow> sys" where
  "connect_upstream e run s =
     s\<lparr> ctl := with_metrics (\<lambda>m. m\<lparr> upstream_control_up := True \<rparr>) (upstream_connected e run (ctl s)),
        readers := (readers s)(next_conn s := Some \<lparr> r_pc = RIdle, r_buf = [] \<rparr>),
        next_conn := next_conn s + 1, link := Connected (next_conn s) \<rparr>"

text \<open>One turn of the write loop, given whether the write succeeds.  The message has left the
  queue either way; a panic in the log line ends the task and drops the receiver.\<close>

definition write_upstream :: "env \<Rightarrow> bool \<Rightarrow> string \<Rightarrow> string mpsc \<Rightarrow> sys \<Rightarrow> sys" where
  "write_upstream e ok msg up s =
     (let s1 = s\<lparr> ctl := (ctl s)\<lparr> upstream := up \<rparr> \<rparr> in
      if slice_panics (debug_enabled e) msg 200
      then s1\<lparr> ctl := (ctl s1)\<lparr> upstream := close_rx up \<rparr>, link := LinkDead \<rparr>
      else if ok then s1\<lparr> wire := wire s1 @ [msg @ crlf] \<rparr>
      else s1\<lparr> link := Connecting \<rparr>)"

definition set_reader :: "nat \<Rightarrow> reader \<Rightarrow> sys \<Rightarrow> sys" where
  "set_reader j r s = s\<lparr> readers := (readers s)(j := Some r) \<rparr>"

text \<open>Moving a reader task on; leaving its loop clears the flag of the dashboard, a panic does
  not.\<close>

definition move_reader :: "nat \<Rightarrow> reader \<Rightarrow> control \<times> reader_pc \<Rightarrow> sys \<Rightarrow> sys" where
  "move_reader j r q s = (case q of (t, pc) \<Rightarrow>
     (set_reader j (r\<lparr> r_pc := pc \<rparr>) s)\<lparr>
        ctl := (if pc = REnded then with_metrics (\<lambda>m. m\<lparr> upstream_control_up := False \<rparr>) t else t) \<rparr>)"

definition reader_ended :: "reader option \<Rightarrow> bool" where
  "reader_ended r = (case r of Some q \<Rightarrow> r_pc q = REnded \<or> r_pc q = RCrashed | None \<Rightarrow> True)"

section \<open>Steps\<close>

inductive control_step :: "json_codec \<Rightarrow> sys \<Rightarrow> sys \<Rightarrow> bool" for J where
  trigger: "link s = NotStarted \<Longrightarrow> control_step J s (s\<lparr> link := Connecting \<rparr>)"
| accept: "codec e = J \<Longrightarrow> link s \<noteq> NotStarted \<Longrightarrow> control_step J s (accept_client e run s)"
| client_reads: "codec e = J \<Longrightarrow> clients s c = Some k \<Longrightarrow> c_pc k = Reading \<Longrightarrow> chunks_wf cs \<Longrightarrow>
    read_line_limited cs [] MAX_LINE_BYTES = (n, line, rest) \<Longrightarrow>
    control_step J s (move_client c k (client_line e run n line (ctl s)) s)"
| client_read_error: "clients s c = Some k \<Longrightarrow> c_pc k = Reading \<Longrightarrow>
    control_step J s (move_client c k (ctl s, ErrorExit) s)"
| client_replies: "clients s c = Some k \<Longrightarrow> c_pc k = Replying x \<Longrightarrow>
    send_response c x (ctl s) = Some t \<Longrightarrow> control_step J s (move_client c k (t, Reading) s)"
| client_locks: "codec e = J \<Longrightarrow> clients s c = Some k \<Longrightarrow> c_pc k = AwaitLock rid oid f \<Longrightarrow> lock_holder s = None \<Longrightarrow>
    control_step J s (lock_and_register e c k rid oid f s)"
| client_rejects: "clients s c = Some k \<Longrightarrow> c_pc k = Rejecting x \<Longrightarrow>
    send_response c x (ctl s) = Some t \<Longrightarrow>
    control_step J s ((move_client c k (t, Reading) s)\<lparr> lock_holder := None \<rparr>)"
| client_sends: "clients s c = Some k \<Longrightarrow> c_pc k = SendingRequest rid f \<Longrightarrow>
    send_request rid f (ctl s) = Some (t, pc) \<Longrightarrow> pc = Left \<longrightarrow> lock_holder s = None \<Longrightarrow>
    control_step J s (move_client c k (t, pc) s)"
| client_notes: "clients s c = Some k \<Longrightarrow> c_pc k = SendingNote f \<Longrightarrow>
    send_note f (ctl s) = Some (t, pc) \<Longrightarrow> control_step J s (move_client c k (t, pc) s)"
| client_finishes: "codec e = J \<Longrightarrow> clients s c = Some k \<Longrightarrow> c_pc k = Left \<or> c_pc k = ErrorExit \<Longrightarrow>
    control_step J s (finish_client e run c k s)"
| writer_response: "clients s c = Some k \<Longrightarrow> c_writer k \<Longrightarrow>
    recv (responses (ctl s) c) = Some (x, ch) \<Longrightarrow> control_step J s (write_response c k x ch s)"
| writer_event: "clients s c = Some k \<Longrightarrow> c_writer k \<Longrightarrow>
    brecv (events (ctl s)) (c_evpos k) = BMsg x p \<Longrightarrow> control_step J s (write_event c k x p s)"
| writer_lagged: "clients s c = Some k \<Longrightarrow> c_writer k \<Longrightarrow>
    brecv (events (ctl s)) (c_evpos k) = BLagged d p \<Longrightarrow>
    control_step J s (set_client c (k\<lparr> c_evpos := p \<rparr>) s)"
| writer_fails: "clients s c = Some k \<Longrightarrow> c_writer k \<Longrightarrow> control_step J s (writer_stops c k s)"
| connects: "codec e = J \<Longrightarrow> link s = Connecting \<Longrightarrow> lock_holder s = None \<Longrightarrow>
    control_step J s (connect_upstream e run s)"
| writes: "codec e = J \<Longrightarrow> link s = Connected j \<Longrightarrow> recv (upstream (ctl s)) = Some (x, up) \<Longrightarrow>
    control_step J s (write_upstream e ok x up s)"
| reader_gone: "link s = Connected j \<Longrightarrow> reader_ended (readers s j) \<Longrightarrow>
    control_step J s (s\<lparr> link := Connecting \<rparr>)"
| reader_reads: "readers s j = Some r \<Longrightarrow> r_pc r = RIdle \<Longrightarrow> nl_pos (r_buf r) = None \<Longrightarrow>
    \<not> buffer_overflow (r_buf r) \<Longrightarrow> chunk \<noteq> [] \<Longrightarrow> length chunk \<le> 32 * 1024 \<Longrightarrow>
    control_step J s (set_reader j (r\<lparr> r_buf := r_buf r @ chunk \<rparr>) s)"
| reader_processes: "codec e = J \<Longrightarrow> readers s j = Some r \<Longrightarrow> r_pc r = RIdle \<Longrightarrow> nl_pos (r_buf r) = Some pos \<Longrightarrow>
    control_step J s (move_reader j (r\<lparr> r_buf := drop (pos + 1) (r_buf r) \<rparr>)
      (reader_line e run (take pos (r_buf r)) (ctl s)) s)"
| reader_ends: "readers s j = Some r \<Longrightarrow> r_pc r = RIdle \<Longrightarrow> nl_pos (r_buf r) = None \<Longrightarrow>
    control_step J s (move_reader j r (ctl s, REnded) s)"
| reader_routes: "codec e = J \<Longrightarrow> readers s j = Some r \<Longrightarrow> r_pc r = RLocking msg trimmed rid \<Longrightarrow>
    lock_holder s = None \<Longrightarrow>
    control_step J s (move_reader j r (reader_route e run msg trimmed rid (ctl s)) s)"
| reader_delivers: "readers s j = Some r \<Longrightarrow> r_pc r = RDelivering c x \<Longrightarrow>
    send_response c x (ctl s) = Some t \<Longrightarrow> control_step J s (move_reader j r (t, RIdle) s)"
| heartbeat: "hb_msg s = None \<Longrightarrow> heartbeat_tick (ctl s) = (t, m) \<Longrightarrow>
    control_step J s (s\<lparr> ctl := t, hb_msg := m \<rparr>)"
| heartbeat_sends: "hb_msg s = Some x \<Longrightarrow> poll_send x (upstream (ctl s)) = Sent up \<Longrightarrow>
    control_step J s (s\<lparr> ctl := (ctl s)\<lparr> upstream := up \<rparr>, hb_msg := None \<rparr>)"

section \<open>What the tasks do to the routing state\<close>

lemma ctl_frame [frame_simps, simp]:
  "pending (record_ctl e d x s) = pending s" "next_id (record_ctl e d x s) = next_id s"
  "pending (with_metrics f s) = pending s" "next_id (with_metrics f s) = next_id s"
  "pending (broadcast_event x s) = pending s" "next_id (broadcast_event x s) = next_id s"
  "pending (set_response c ch s) = pending s" "next_id (set_response c ch s) = next_id s"
  "next_id (remove_pending rid s) = next_id s"
  "pending (remove_pending rid s) = AList.delete rid (pending s)"
  by (simp_all add: record_ctl_def with_metrics_def broadcast_event_def set_response_def
      remove_pending_def)

text \<open>Reading a line allocates at most one identifier, and only the next one.\<close>

definition reads_ok :: "control \<Rightarrow> control \<times> client_pc \<Rightarrow> bool" where
  "reads_ok s r \<longleftrightarrow> pending (fst r) = pending s \<and>
     (case snd r of
        AwaitLock rid oid f \<Rightarrow> rid = next_id s \<and> next_id (fst r) = next_id s + 1
      | Rejecting x \<Rightarrow> False
      | _ \<Rightarrow> next_id (fst r) = next_id s \<or> next_id (fst r) = next_id s + 1)"

lemma forward_request_ok: "reads_ok s (forward_request e msg s)"
  by (simp add: forward_request_def reads_ok_def Let_def split: option.splits)

lemma forward_request_ok':
  "pending s' = pending s \<Longrightarrow> next_id s' = next_id s \<Longrightarrow> reads_ok s (forward_request e msg s')"
  using forward_request_ok [of s' e msg] by (auto simp: reads_ok_def split: client_pc.splits)

lemma client_message_ok: "reads_ok s (client_message e run x s)"
  unfolding client_message_def Let_def
  by (auto simp: case_prod_beta intro!: forward_request_ok' split: option.splits hook_action.splits)
    (auto simp: reads_ok_def)

lemma client_line_ok: "reads_ok s (client_line e run n line s)"
proof -
  have "reads_ok s (s, pc)" if "pc = Left \<or> pc = Reading" for pc
    using that by (auto simp: reads_ok_def)
  then show ?thesis by (simp add: client_line_def Let_def client_message_ok)
qed

lemma send_response_frame:
  "send_response c x s = Some t \<Longrightarrow> pending t = pending s \<and> next_id t = next_id s"
  by (auto simp: send_response_def split: send_poll.splits)

lemma send_request_frame:
  "send_request rid f s = Some (t, pc) \<Longrightarrow>
     next_id t = next_id s \<and>
     (pc = Reading \<and> pending t = pending s \<or> pc = Left \<and> pending t = AList.delete rid (pending s))"
  by (auto simp: send_request_def split: send_poll.splits)

lemma send_note_frame:
  "send_note f s = Some (t, pc) \<Longrightarrow>
     next_id t = next_id s \<and> pending t = pending s \<and> (pc = Reading \<or> pc = Left)"
  by (auto simp: send_note_def split: send_poll.splits)

lemma reader_line_frame:
  "pending (fst (reader_line e run l s)) = pending s" "next_id (fst (reader_line e run l s)) = next_id s"
  by (auto simp: reader_line_def reader_event_def Let_def case_prod_beta split: option.splits)

lemma reader_route_frame:
  "next_id (fst (reader_route e run msg t rid s)) = next_id s"
  "pending (fst (reader_route e run msg t rid s)) = pending s \<or>
   pending (fst (reader_route e run msg t rid s)) = AList.delete rid (pending s)"
  by (auto simp: reader_route_def Let_def case_prod_beta split: option.splits)

lemma drain_pending_frame: "next_id (drain_pending e s) = next_id s" "pending (drain_pending e s) = []"
proof -
  have "next_id (fold (\<lambda>(_, p). fail_pending e p) ps t) = next_id t" for ps t
    by (induction ps arbitrary: t) (auto simp: fail_pending_def split: sum.splits)
  then show "next_id (drain_pending e s) = next_id s" by (simp add: drain_pending_def)
qed (simp add: drain_pending_def)

lemma upstream_connected_frame:
  "next_id (upstream_connected e run s) = next_id s" "pending (upstream_connected e run s) = []"
  by (auto simp: upstream_connected_def drain_pending_frame Let_def case_prod_beta split: option.splits)

lemma heartbeat_tick_frame:
  "heartbeat_tick s = (t, m) \<Longrightarrow>
     pending t = pending s \<and> (next_id t = next_id s \<or> next_id t = next_id s + 1)"
  by (auto simp: heartbeat_tick_def split: if_splits)

lemmas step_frames = send_response_frame send_request_frame send_note_frame reader_line_frame
  reader_route_frame upstream_connected_frame heartbeat_tick_frame

section \<open>Refinement of the router\<close>

definition pc_want :: "client_pc \<Rightarrow> (u64 \<times> json) option" where
  "pc_want pc = (case pc of AwaitLock rid oid f \<Rightarrow> Some (rid, oid) | _ \<Rightarrow> None)"

definition want :: "sys \<Rightarrow> nat \<Rightarrow> (u64 \<times> json) option" where
  "want s c = Option.bind (clients s c) (\<lambda>k. pc_want (c_pc k))"

definition abst :: "sys \<Rightarrow> router" where
  "abst s = \<lparr> r_next = next_id (ctl s), r_pending = pending (ctl s), r_want = want s \<rparr>"

text \<open>Client numbers are handed out in order, and the lock is held across an await exactly by a
  client that is sending its rejection.\<close>

definition is_Rejecting :: "client_pc \<Rightarrow> bool" where
  "is_Rejecting pc \<longleftrightarrow> (\<exists>x. pc = Rejecting x)"

definition holds_lock :: "sys \<Rightarrow> nat \<Rightarrow> bool" where
  "holds_lock s c \<longleftrightarrow> (\<exists>k x. clients s c = Some k \<and> c_pc k = Rejecting x)"

definition sys_inv :: "sys \<Rightarrow> bool" where
  "sys_inv s \<longleftrightarrow> (\<forall>c \<ge> next_client s. clients s c = None) \<and>
     (\<forall>c. lock_holder s = Some c \<longleftrightarrow> holds_lock s c)"

lemma pc_want_Some: "pc_want pc = Some (rid, oid) \<longleftrightarrow> (\<exists>f. pc = AwaitLock rid oid f)"
  by (cases pc) (auto simp: pc_want_def)

lemma pc_want_simps [simp]:
  "pc_want Reading = None" "pc_want (Replying x) = None" "pc_want (AwaitLock rid oid f) = Some (rid, oid)"
  "pc_want (Rejecting x) = None" "pc_want (SendingRequest rid f) = None" "pc_want (SendingNote f) = None"
  "pc_want Left = None" "pc_want ErrorExit = None" "pc_want Crashed = None" "pc_want Finished = None"
  by (simp_all add: pc_want_def)

lemma set_client_frame [simp]:
  "ctl (set_client c k s) = ctl s" "next_client (set_client c k s) = next_client s"
  "lock_holder (set_client c k s) = lock_holder s" "clients (set_client c k s) = (clients s)(c := Some k)"
  by (simp_all add: set_client_def)

lemma set_reader_frame [simp]:
  "ctl (set_reader j r s) = ctl s" "next_client (set_reader j r s) = next_client s"
  "lock_holder (set_reader j r s) = lock_holder s" "clients (set_reader j r s) = clients s"
  by (simp_all add: set_reader_def)

lemma move_client_frame [simp]:
  "pending (ctl (move_client c k r s)) = pending (fst r)" "next_id (ctl (move_client c k r s)) = next_id (fst r)"
  "next_client (move_client c k r s) = next_client s" "lock_holder (move_client c k r s) = lock_holder s"
  by (simp_all add: move_client_def case_prod_beta)

lemma move_client_pc:
  "\<exists>k'. clients (move_client c k r s) = (clients s)(c := Some k') \<and> c_pc k' = snd r"
  by (auto simp: move_client_def case_prod_beta)

lemma move_reader_frame [simp]:
  "pending (ctl (move_reader j r q s)) = pending (fst q)" "next_id (ctl (move_reader j r q s)) = next_id (fst q)"
  "next_client (move_reader j r q s) = next_client s" "lock_holder (move_reader j r q s) = lock_holder s"
  "clients (move_reader j r q s) = clients s"
  by (simp_all add: move_reader_def case_prod_beta)

text \<open>Two states with the same routing state are indistinguishable to the router; a client whose
  counter moved by itself has burnt an identifier.\<close>

lemma want_upd: "clients t = (clients s)(c := Some k') \<Longrightarrow> want t = (want s)(c := pc_want (c_pc k'))"
  by (auto simp: want_def fun_eq_iff)

lemma abst_skip:
  assumes "pending (ctl t) = pending (ctl s)" "next_id (ctl t) = next_id (ctl s)" "want t = want s"
  shows "router_step (abst s) (abst t)"
  using r_skip [of "abst s"] assms by (simp add: abst_def)

lemma abst_burn:
  assumes "pending (ctl t) = pending (ctl s)" "next_id (ctl t) = next_id (ctl s) + 1" "want t = want s"
  shows "router_step (abst s) (abst t)"
  using r_burn [of "abst s"] assms by (simp add: abst_def)

lemma abst_remove:
  assumes "pending (ctl t) = AList.delete rid (pending (ctl s))" "next_id (ctl t) = next_id (ctl s)"
    "want t = want s"
  shows "router_step (abst s) (abst t)"
  using r_remove [of "abst s" rid] assms by (simp add: abst_def)

lemma abst_drain:
  assumes "pending (ctl t) = []" "next_id (ctl t) = next_id (ctl s)" "want t = want s"
  shows "router_step (abst s) (abst t)"
  using r_drain [of "abst s"] assms by (simp add: abst_def)

lemma want_same_client:
  assumes "clients s c = Some k" "clients t = (clients s)(c := Some k')"
    "pc_want (c_pc k') = pc_want (c_pc k)"
  shows "want t = want s"
  using assms by (auto simp: want_def fun_eq_iff)

text \<open>A client that reads a line.\<close>

lemma abst_reads:
  assumes k: "clients s c = Some k" "c_pc k = Reading" and ok: "reads_ok (ctl s) r"
  shows "router_step (abst s) (abst (move_client c k r s))"
proof -
  obtain k' where k': "clients (move_client c k r s) = (clients s)(c := Some k')" "c_pc k' = snd r"
    using move_client_pc by blast
  have p: "pending (fst r) = pending (ctl s)" using ok by (simp add: reads_ok_def)
  show ?thesis
  proof (cases "\<exists>rid oid f. snd r = AwaitLock rid oid f")
    case True
    then obtain rid oid f where a: "snd r = AwaitLock rid oid f" by blast
    have "want s c = None" using k by (simp add: want_def)
    with r_alloc [of "abst s" c oid] show ?thesis
      using a ok p k' by (simp add: abst_def want_upd reads_ok_def)
  next
    case False
    then have "pc_want (snd r) = None" by (auto simp: pc_want_def split: client_pc.splits)
    then have w: "want (move_client c k r s) = want s"
      using k k' by (intro want_same_client [OF k(1) k'(1)]) simp
    have "next_id (fst r) = next_id (ctl s) \<or> next_id (fst r) = next_id (ctl s) + 1"
      using ok by (auto simp: reads_ok_def split: client_pc.splits)
    with w p show ?thesis by (auto intro: abst_skip abst_burn)
  qed
qed

text \<open>A client that has the lock.\<close>

lemma abst_locks:
  assumes k: "clients s c = Some k" "c_pc k = AwaitLock rid oid f"
  shows "router_step (abst s) (abst (lock_and_register e c k rid oid f s))"
proof -
  let ?r = "register_request e c rid oid f (ctl s)"
  obtain k' where k': "clients (move_client c k ?r s) = (clients s)(c := Some k')" "c_pc k' = snd ?r"
    using move_client_pc by blast
  have w: "want s c = Some (rid, oid)" using k by (simp add: want_def)
  have u: "want (lock_and_register e c k rid oid f s) = (want s)(c := None)"
    using k' by (subst want_upd [of _ s c k'])
      (auto simp: lock_and_register_def register_request_def Let_def)
  show ?thesis
  proof (cases "MAX_PENDING_REQUESTS \<le> length (pending (ctl s))")
    case True
    with r_reject [of "abst s" c "(rid, oid)"] w u show ?thesis
      by (simp add: abst_def lock_and_register_def register_request_def)
  next
    case False
    with r_register [of "abst s" c rid oid] w u show ?thesis
      by (simp add: abst_def lock_and_register_def register_request_def)
  qed
qed

text \<open>A client that moves on without taking an identifier.\<close>

lemma want_move_client:
  assumes "clients s c = Some k" "pc_want (snd r) = pc_want (c_pc k)"
  shows "want (move_client c k r s) = want s"
  using move_client_pc [of c k r s] assms want_same_client by metis

lemma want_frame: "clients t = clients s \<Longrightarrow> want t = want s"
  by (simp add: want_def fun_eq_iff)

lemma want_untouched [simp]:
  "want (s\<lparr> lock_holder := h \<rparr>) = want s" "want (s\<lparr> ctl := t \<rparr>) = want s"
  "want (s\<lparr> link := l \<rparr>) = want s" "want (s\<lparr> hb_msg := m \<rparr>) = want s"
  "want (set_reader j r s) = want s" "want (move_reader j r q s) = want s"
  by (simp_all add: want_def fun_eq_iff)

lemma want_set_client:
  assumes "clients s c = Some k" "pc_want (c_pc k') = pc_want (c_pc k)"
  shows "want (set_client c k' s) = want s"
  using want_same_client [OF assms(1) _ assms(2)] by simp

lemma want_accept: "clients s (next_client s) = None \<Longrightarrow> want (accept_client e run s) = want s"
  by (auto simp: accept_client_def Let_def want_def fun_eq_iff)

lemma accept_client_frame:
  "pending (ctl (accept_client e run s)) = pending (ctl s)"
  "next_id (ctl (accept_client e run s)) = next_id (ctl s)"
  "lock_holder (accept_client e run s) = lock_holder s"
  by (simp_all add: accept_client_def Let_def split: option.splits)

lemma finish_client_frame:
  "pending (ctl (finish_client e run c k s)) = pending (ctl s)"
  "next_id (ctl (finish_client e run c k s)) = next_id (ctl s)"
  "clients (finish_client e run c k s) = (clients s)(c := Some (k\<lparr> c_pc := Finished \<rparr>))"
  "lock_holder (finish_client e run c k s) = lock_holder s"
  by (simp_all add: finish_client_def Let_def split: option.splits)

lemma write_upstream_frame:
  "pending (ctl (write_upstream e ok x up s)) = pending (ctl s)"
  "next_id (ctl (write_upstream e ok x up s)) = next_id (ctl s)"
  "clients (write_upstream e ok x up s) = clients s"
  "next_client (write_upstream e ok x up s) = next_client s"
  "lock_holder (write_upstream e ok x up s) = lock_holder s"
  by (simp_all add: write_upstream_def Let_def)

lemma connect_upstream_frame:
  "pending (ctl (connect_upstream e run s)) = []"
  "next_id (ctl (connect_upstream e run s)) = next_id (ctl s)"
  "clients (connect_upstream e run s) = clients s"
  "next_client (connect_upstream e run s) = next_client s"
  "lock_holder (connect_upstream e run s) = lock_holder s"
  by (simp_all add: connect_upstream_def upstream_connected_frame)

lemma control_step_sim:
  assumes inv: "sys_inv s" and step: "control_step J s t"
  shows "router_step (abst s) (abst t)"
  using step
proof cases
  case (accept e run)
  moreover have "clients s (next_client s) = None" using inv by (simp add: sys_inv_def)
  ultimately show ?thesis by (auto intro!: abst_skip simp: want_accept accept_client_frame)
next
  case (client_reads e c k cs n line rest run)
  then show ?thesis using abst_reads [OF _ _ client_line_ok] by simp
next
  case (client_locks e c k rid oid f)
  then show ?thesis using abst_locks by simp
next
  case (client_sends c k rid f t' pc)
  then have "want t = want s" by (auto intro!: want_move_client dest: send_request_frame)
  with client_sends send_request_frame [OF client_sends(4)] show ?thesis
    by (auto intro: abst_skip abst_remove)
next
  case (client_finishes e c k run)
  then have "want t = want s" by (auto intro!: want_same_client simp: finish_client_frame)
  with client_finishes show ?thesis by (auto intro!: abst_skip simp: finish_client_frame)
next
  case (connects e run)
  then show ?thesis by (auto intro!: abst_drain want_frame simp: connect_upstream_frame)
next
  case (reader_routes e j r msg trimmed rid run)
  then have "want t = want s" by (auto intro!: want_frame)
  with reader_routes show ?thesis
    using reader_route_frame [of e run msg trimmed rid "ctl s"] by (auto intro: abst_skip abst_remove)
next
  case (heartbeat t' m)
  then have "want t = want s" by (auto intro!: want_frame)
  with heartbeat heartbeat_tick_frame [OF heartbeat(3)] show ?thesis
    by (auto intro: abst_skip abst_burn)
next
  case (writes e j x up ok)
  then show ?thesis by (auto intro!: abst_skip want_frame simp: write_upstream_frame)
qed (auto intro!: abst_skip want_move_client want_set_client
      simp: step_frames write_response_def write_event_def writer_stops_def
      dest: send_response_frame send_note_frame)

text \<open>The invariant: steps that move a client keep it when the client does not become the holder of
  the lock behind the lock's back.\<close>

lemma sys_inv_move:
  assumes inv: "sys_inv s" and k: "clients s c = Some k"
    and t: "clients t = (clients s)(c := Some k')" "next_client t = next_client s"
      "lock_holder t = lock_holder s"
    and pc: "is_Rejecting (c_pc k') = is_Rejecting (c_pc k)"
  shows "sys_inv t"
  using inv k t pc by (auto simp: sys_inv_def holds_lock_def is_Rejecting_def)

lemma sys_inv_frame:
  assumes "sys_inv s" "clients t = clients s" "next_client t = next_client s"
    "lock_holder t = lock_holder s"
  shows "sys_inv t"
  using assms by (simp add: sys_inv_def holds_lock_def)

lemma sys_inv_locks:
  assumes inv: "sys_inv s" and k: "clients s c = Some k" "c_pc k = AwaitLock rid oid f"
    and free: "lock_holder s = None"
  shows "sys_inv (lock_and_register e c k rid oid f s)"
proof -
  let ?r = "register_request e c rid oid f (ctl s)"
  obtain k' where "clients (move_client c k ?r s) = (clients s)(c := Some k')" "c_pc k' = snd ?r"
    using move_client_pc by blast
  with inv k free show ?thesis
    by (auto simp: sys_inv_def holds_lock_def lock_and_register_def Let_def register_request_def)
qed

lemma sys_inv_rejects:
  assumes inv: "sys_inv s" and k: "clients s c = Some k" "c_pc k = Rejecting x"
  shows "sys_inv ((move_client c k (t, Reading) s)\<lparr> lock_holder := None \<rparr>)"
proof -
  obtain k' where "clients (move_client c k (t, Reading) s) = (clients s)(c := Some k')" "c_pc k' = Reading"
    using move_client_pc [of c k "(t, Reading)" s] by auto
  moreover have "lock_holder s = Some c" using inv k by (auto simp: sys_inv_def holds_lock_def)
  moreover have "\<forall>c'. holds_lock s c' \<longrightarrow> c' = c" using inv \<open>lock_holder s = Some c\<close>
    by (metis sys_inv_def option.inject)
  ultimately show ?thesis using inv k by (auto simp: sys_inv_def holds_lock_def)
qed

lemma sys_inv_move_client:
  assumes "sys_inv s" "clients s c = Some k" "is_Rejecting (snd r) = is_Rejecting (c_pc k)"
  shows "sys_inv (move_client c k r s)"
  using move_client_pc [of c k r s] assms sys_inv_move [of s c k "move_client c k r s"] by auto

lemma is_Rejecting_simps [simp]:
  "\<not> is_Rejecting Reading" "\<not> is_Rejecting (Replying x)" "\<not> is_Rejecting (AwaitLock rid oid f)"
  "is_Rejecting (Rejecting x)" "\<not> is_Rejecting (SendingRequest rid f)" "\<not> is_Rejecting (SendingNote f)"
  "\<not> is_Rejecting Left" "\<not> is_Rejecting ErrorExit" "\<not> is_Rejecting Crashed" "\<not> is_Rejecting Finished"
  by (simp_all add: is_Rejecting_def)

lemma reads_ok_not_Rejecting: "reads_ok s r \<Longrightarrow> \<not> is_Rejecting (snd r)"
  by (auto simp: reads_ok_def is_Rejecting_def)

lemma sys_inv_accept:
  assumes "sys_inv s" shows "sys_inv (accept_client e run s)"
proof -
  have n: "clients s (next_client s) = None" using assms by (simp add: sys_inv_def)
  show ?thesis using assms n by (auto simp: sys_inv_def holds_lock_def accept_client_def Let_def)
qed

lemma sys_inv_set_client:
  assumes "sys_inv s" "clients s c = Some k" "is_Rejecting (c_pc k') = is_Rejecting (c_pc k)"
  shows "sys_inv (set_client c k' s)"
  using sys_inv_move [OF assms(1,2) _ _ _ assms(3), of "set_client c k' s"] by simp

lemma sys_inv_untouched [simp]:
  "sys_inv (s\<lparr> ctl := t \<rparr>) = sys_inv s" "sys_inv (s\<lparr> link := l \<rparr>) = sys_inv s"
  "sys_inv (s\<lparr> hb_msg := m \<rparr>) = sys_inv s" "sys_inv (set_reader j r s) = sys_inv s"
  "sys_inv (move_reader j r q s) = sys_inv s" "sys_inv (write_upstream e ok x up s) = sys_inv s"
  "sys_inv (connect_upstream e run s) = sys_inv s"
  by (simp_all add: sys_inv_def holds_lock_def write_upstream_frame connect_upstream_frame)

lemma control_step_inv:
  assumes inv: "sys_inv s" and step: "control_step J s t"
  shows "sys_inv t"
  using step
proof cases
  case (client_reads e c k cs n line rest run)
  with inv show ?thesis
    using reads_ok_not_Rejecting [OF client_line_ok] by (auto intro!: sys_inv_move_client)
next
  case (client_finishes e c k run)
  with inv show ?thesis
    by (auto intro!: sys_inv_set_client simp: finish_client_def Let_def)
qed (use inv in \<open>auto intro!: sys_inv_move_client sys_inv_set_client sys_inv_locks sys_inv_rejects
      sys_inv_accept
      simp: write_response_def write_event_def writer_stops_def
      dest: send_request_frame send_note_frame\<close>)

interpretation sim: refinement sys_start "control_step J" router_start router_step abst sys_inv for J
proof unfold_locales
  fix s assume "sys_start s"
  then show "router_start (abst s) \<and> sys_inv s"
    by (auto simp: sys_start_def router_start_def abst_def want_def fun_eq_iff control_init_def
        sys_inv_def holds_lock_def)
qed (fact control_step_inv, fact control_step_sim)

lemma reach_fresh: "reach_in sys_start (control_step J) n s \<Longrightarrow> fresh_inv n (abst s)"
  by (rule fresh.reach_inv [OF sim.reach_refines])

end
