(* ===== verification/Control_Demo.thy ===== *)
theory Control_Demo
  imports Control_System
begin

text \<open>
  A concrete run of the control proxy, from the first client to the delivery of the response to
  its request, at which the properties of \<open>Control_Routing\<close> are exercised.  The codec knows the
  two messages of the run in both directions.
\<close>

definition demo_request :: json where "demo_request = Obj [(''id'', Number (PosInt 7))]"
definition demo_remapped :: json where "demo_remapped = Obj [(''id'', Number (PosInt 100000))]"

definition demo_codec :: json_codec where
  "demo_codec =
     \<lparr> from_str = (\<lambda>x. if x = ''{id:7}'' then Some demo_request
                     else if x = ''{id:100000}'' then Some demo_remapped else None),
       to_string = (\<lambda>v. if v = demo_request then Some ''{id:7}''
                      else if v = demo_remapped then Some ''{id:100000}'' else None) \<rparr>"

definition demo_env :: env where
  "demo_env =
     \<lparr> codec = demo_codec,
       rcodec = \<lparr> ser_line = (\<lambda>_. None), de_line = (\<lambda>_. None), ser_manifest = (\<lambda>_. None),
                  de_manifest = (\<lambda>_. None) \<rparr>,
       disk = (\<lambda>_. True), lua = \<lparr> lg_function = (\<lambda>_. False), lg_telescope = False, lg_to_value = (\<lambda>_. True) \<rparr>,
       now = \<lparr> now_elapsed_ms = 0, now_epoch_ms = 0 \<rparr>, rec_ts = 0, warn_enabled = True,
       debug_enabled = False \<rparr>"

definition demo_lua :: lua_run where "demo_lua = \<lparr> run_sends = [], run_result = None \<rparr>"

text \<open>The states of the run: the counter, the pending map, the queue to the telescope, whether the
  handshake is done, where the client and the reader are, and what was written.\<close>

definition demo_state ::
    "u64 \<Rightarrow> (u64 \<times> pending_request) list \<Rightarrow> string list \<Rightarrow> bool \<Rightarrow> client_pc \<Rightarrow> reader \<Rightarrow> string list \<Rightarrow> sys" where
  "demo_state nid pend up hs pc r w =
     \<lparr> ctl = \<lparr> next_id = nid, pending = pend,
               upstream = \<lparr> mcap = 256, mbuf = up, mopen = True \<rparr>,
               responses = (\<lambda>_. close_rx (mpsc_channel 64))(0 := mpsc_channel 64),
               events = broadcast_channel 256, handshake_done = hs, ctl_metrics = None,
               ctl_recorder = None, ctl_hooks = None \<rparr>,
       clients = (\<lambda>_. None)(0 := Some \<lparr> c_pc = pc, c_evpos = 0, c_writer = True, c_out = [] \<rparr>),
       next_client = 1, lock_holder = None,
       readers = (\<lambda>_. None)(0 := Some r), next_conn = 1, link = Connected 0, wire = w, hb_msg = None \<rparr>"

definition demo_idle :: reader where "demo_idle = \<lparr> r_pc = RIdle, r_buf = [] \<rparr>"

definition demo_line :: bytes where "demo_line = as_bytes ''{id:7}'' @ [nl]"

definition demo_answer :: bytes where "demo_answer = as_bytes ''{id:100000}'' @ [nl]"

definition demo_entry :: "u64 \<times> pending_request" where
  "demo_entry = (100000, \<lparr> client_tx = 0, original_id = Number (PosInt 7) \<rparr>)"

definition demo_start :: sys where
  "demo_start =
     \<lparr> ctl = control_init None None None, clients = (\<lambda>_. None), next_client = 0, lock_holder = None,
       readers = (\<lambda>_. None), next_conn = 0, link = NotStarted, wire = [], hb_msg = None \<rparr>"

definition demo_connected :: sys where
  "demo_connected = demo_state 100000 [] [] False Reading demo_idle []"

definition demo_waiting :: sys where
  "demo_waiting =
     demo_state 100001 [] [] False (AwaitLock 100000 (Number (PosInt 7)) ''{id:100000}'') demo_idle []"

definition demo_registered :: sys where
  "demo_registered =
     demo_state 100001 [demo_entry] [] False (SendingRequest 100000 ''{id:100000}'') demo_idle []"

definition demo_sent :: sys where
  "demo_sent =
     demo_state 100001 [demo_entry] [] False Reading demo_idle [''{id:100000}'' @ crlf]"

definition demo_looking :: sys where
  "demo_looking =
     demo_state 100001 [demo_entry] [] True Reading
       \<lparr> r_pc = RLocking demo_remapped ''{id:100000}'' 100000, r_buf = [] \<rparr> [''{id:100000}'' @ crlf]"

definition demo_delivering :: sys where
  "demo_delivering =
     demo_state 100001 [] [] True Reading
       \<lparr> r_pc = RDelivering 0 ''{id:7}'', r_buf = [] \<rparr> [''{id:100000}'' @ crlf]"

lemmas demo_defs = demo_start_def demo_connected_def demo_waiting_def demo_registered_def demo_sent_def
  demo_looking_def demo_delivering_def demo_state_def demo_env_def demo_lua_def demo_idle_def
  demo_entry_def

lemma demo_connects: "reach_in sys_start (control_step demo_codec) 3 demo_connected"
proof -
  let ?s1 = "demo_start\<lparr> link := Connecting \<rparr>"
  let ?s2 = "accept_client demo_env demo_lua ?s1"
  have "reach_in sys_start (control_step demo_codec) 0 demo_start"
    by (rule reach_start) (auto simp: sys_start_def demo_start_def)
  moreover have "control_step demo_codec demo_start ?s1"
    by (rule trigger) (simp add: demo_start_def)
  moreover have "control_step demo_codec ?s1 ?s2"
    by (rule accept) (simp_all add: demo_env_def)
  moreover have "control_step demo_codec ?s2 (connect_upstream demo_env demo_lua ?s2)"
    by (rule connects) (simp_all add: demo_env_def accept_client_def set_client_def demo_start_def Let_def)
  moreover have "connect_upstream demo_env demo_lua ?s2 = demo_connected"
    by (simp add: demo_defs connect_upstream_def accept_client_def Let_def set_client_def
        upstream_connected_def drain_pending_def with_metrics_def set_response_def control_init_def
        mpsc_channel_def broadcast_channel_def subscribe_def)
  ultimately show ?thesis
    by (metis reach_step numeral_3_eq_3)
qed

lemma demo_read:
  "trim (from_utf8_lossy demo_line) = ''{id:7}''"
  "nl_pos demo_answer = Some 11"
  "trim (from_utf8_lossy (take 11 demo_answer)) = ''{id:100000}''"
  "drop 12 demo_answer = []" "length demo_answer = 12" "length demo_line = 7"
  by code_simp+

lemma demo_read_line: "read_line_limited [demo_line] [] MAX_LINE_BYTES = (7, demo_line, [])"
proof -
  have "nl_pos demo_line = Some 6" by code_simp
  then show ?thesis using demo_read(6)
    by (simp add: read_line_limited_def consume_def demo_line_def)
qed

lemma demo_messages:
  "from_str demo_codec ''{id:7}'' = Some demo_request"
  "from_str demo_codec ''{id:100000}'' = Some demo_remapped"
  "to_string demo_codec demo_request = Some ''{id:7}''"
  "to_string demo_codec demo_remapped = Some ''{id:100000}''"
  "get_id demo_request = Some (Number (PosInt 7))" "set_json_rpc_id demo_request 100000 = demo_remapped"
  "json_rpc_id demo_remapped = Some 100000" "\<not> is_event demo_remapped"
  "set_json_rpc_id_value demo_remapped (Number (PosInt 7)) = demo_request"
  "method_hint ''{id:100000}'' = Ret ''{id:100000}''"
  by code_simp+

lemma demo_waits: "control_step demo_codec demo_connected demo_waiting"
proof -
  let ?k = "\<lparr> c_pc = Reading, c_evpos = 0, c_writer = True, c_out = [] \<rparr>"
  have "control_step demo_codec demo_connected
     (move_client 0 ?k (client_line demo_env demo_lua 7 demo_line (ctl demo_connected)) demo_connected)"
    by (rule client_reads [where cs = "[demo_line]"])
      (simp_all add: demo_read_line, simp_all add: demo_defs chunks_wf_def demo_line_def)
  moreover have "client_line demo_env demo_lua 7 demo_line (ctl demo_connected) =
      ((ctl demo_connected)\<lparr> next_id := 100001 \<rparr>, AwaitLock 100000 (Number (PosInt 7)) ''{id:100000}'')"
    by (simp add: client_line_def demo_read client_message_def Let_def forward_request_def
        demo_messages MAX_LINE_BYTES_def)
      (simp add: demo_defs demo_messages forward_request_def record_ctl_def with_metrics_def)
  ultimately show ?thesis by (simp add: demo_defs move_client_def set_client_def)
qed

lemma demo_registers: "control_step demo_codec demo_waiting demo_registered"
proof -
  let ?k = "\<lparr> c_pc = AwaitLock 100000 (Number (PosInt 7)) ''{id:100000}'', c_evpos = 0,
              c_writer = True, c_out = [] \<rparr>"
  have "control_step demo_codec demo_waiting
     (lock_and_register demo_env 0 ?k 100000 (Number (PosInt 7)) ''{id:100000}'' demo_waiting)"
    by (rule client_locks) (simp_all add: demo_defs)
  then show ?thesis
    by (simp add: demo_defs lock_and_register_def register_request_def MAX_PENDING_REQUESTS_def Let_def
        move_client_def set_client_def)
qed

definition demo_queued :: sys where
  "demo_queued = demo_state 100001 [demo_entry] [''{id:100000}''] False Reading demo_idle []"

lemma demo_sends: "control_step demo_codec demo_registered demo_queued"
proof -
  let ?k = "\<lparr> c_pc = SendingRequest 100000 ''{id:100000}'', c_evpos = 0, c_writer = True, c_out = [] \<rparr>"
  have "send_request 100000 ''{id:100000}'' (ctl demo_registered) = Some (ctl demo_queued, Reading)"
    by (simp add: demo_defs demo_queued_def send_request_def poll_send_def try_send_def)
  then have "control_step demo_codec demo_registered (move_client 0 ?k (ctl demo_queued, Reading) demo_registered)"
    by (rule client_sends [rotated 2]) (simp_all add: demo_registered_def demo_state_def)
  then show ?thesis
    by (simp add: demo_defs demo_queued_def move_client_def set_client_def)
qed

lemma demo_writes: "control_step demo_codec demo_queued demo_sent"
proof -
  have "control_step demo_codec demo_queued
     (write_upstream demo_env True ''{id:100000}'' (upstream (ctl demo_sent)) demo_queued)"
    by (rule writes [where j = 0]) (simp_all add: demo_defs demo_queued_def recv_def)
  then show ?thesis
    by (simp add: demo_defs demo_queued_def write_upstream_def Let_def slice_panics_def)
qed

lemma demo_reaches_sent: "reach_in sys_start (control_step demo_codec) 7 demo_sent"
  using reach_step [OF reach_step [OF reach_step [OF reach_step [OF demo_connects demo_waits]
        demo_registers] demo_sends] demo_writes] by simp

lemma demo_reaches_looking: "reach_in sys_start (control_step demo_codec) 9 demo_looking"
proof -
  let ?r = "demo_idle\<lparr> r_buf := demo_answer \<rparr>"
  have "control_step demo_codec demo_sent (set_reader 0 (demo_idle\<lparr> r_buf := r_buf demo_idle @ demo_answer \<rparr>) demo_sent)"
    using demo_read by (intro reader_reads) (auto simp: demo_defs buffer_overflow_def)
  then have s1: "control_step demo_codec demo_sent (set_reader 0 ?r demo_sent)"
    by (simp add: demo_idle_def)
  have "control_step demo_codec (set_reader 0 ?r demo_sent)
     (move_reader 0 (?r\<lparr> r_buf := drop (11 + 1) (r_buf ?r) \<rparr>)
        (reader_line demo_env demo_lua (take 11 (r_buf ?r)) (ctl (set_reader 0 ?r demo_sent)))
        (set_reader 0 ?r demo_sent))"
    using demo_read by (intro reader_processes) (simp_all add: demo_defs set_reader_def)
  moreover have "reader_line demo_env demo_lua (take 11 demo_answer) (ctl demo_sent) =
     (ctl demo_looking, RLocking demo_remapped ''{id:100000}'' 100000)"
    using demo_read demo_messages
    by (simp add: reader_line_def Let_def) (simp add: demo_defs record_ctl_def with_metrics_def)
  ultimately have "control_step demo_codec (set_reader 0 ?r demo_sent) demo_looking"
    using demo_read by (simp add: demo_defs move_reader_def set_reader_def)
  with s1 show ?thesis using reach_step [OF reach_step [OF demo_reaches_sent s1]] by simp
qed

lemma demo_routes: "control_step demo_codec demo_looking demo_delivering"
proof -
  let ?r = "\<lparr> r_pc = RLocking demo_remapped ''{id:100000}'' 100000, r_buf = [] \<rparr>"
  have "control_step demo_codec demo_looking
     (move_reader 0 ?r (reader_route demo_env demo_lua demo_remapped ''{id:100000}'' 100000 (ctl demo_looking))
        demo_looking)"
    by (rule reader_routes) (simp_all add: demo_defs)
  moreover have "reader_route demo_env demo_lua demo_remapped ''{id:100000}'' 100000 (ctl demo_looking) =
     (ctl demo_delivering, RDelivering 0 ''{id:7}'')"
    using demo_messages by (simp add: reader_route_def demo_defs Let_def remove_pending_def
        restored_response_def with_metrics_def)
  ultimately show ?thesis by (simp add: demo_defs move_reader_def set_reader_def)
qed

lemma demo_reaches_delivering: "reach_in sys_start (control_step demo_codec) 10 demo_delivering"
  using reach_step [OF demo_reaches_looking demo_routes] by simp

end
