(* ===== verification/Control_Routing.thy ===== *)
theory Control_Routing
  imports Control_Demo
begin

text \<open>
  What the control proxy guarantees of every interleaving of its tasks: the bound on pending
  requests, and that a response can only reach the client whose request it answers, once.
\<close>

lemma map_of_keys: "map_of m k = None \<longleftrightarrow> k \<notin> keys m"
  by (simp add: keys_def map_of_eq_None_iff)

text \<open>C3. At no moment of any run are more than 1024 requests pending, and no two of them share a
  remapped id: the check and the insertion happen under one acquisition of the lock.\<close>

theorem pending_bounded:
  assumes "reach_in sys_start (control_step J) n s"
  shows "length (pending (ctl s)) \<le> 1024 \<and> distinct (map fst (pending (ctl s)))"
  using bnd.reach_inv [OF sim.reach_refines [OF assms]]
  by (simp add: bounded_inv_def abst_def MAX_PENDING_REQUESTS_def)

theorem pending_bounded_witness:
  "pending (ctl demo_sent) = [demo_entry] \<and> length (pending (ctl demo_sent)) \<le> 1024 \<and>
   distinct (map fst (pending (ctl demo_sent)))"
  using pending_bounded [OF demo_reaches_sent] by (simp add: demo_sent_def demo_state_def)

text \<open>A pending entry is never redirected: whatever step is taken, the id still stands for the
  same client and the same original id, or it has left the map (as long as the 64-bit counter has
  not wrapped, which takes at least 2^64 - 100000 steps).\<close>

theorem pending_entry_stable:
  assumes "reach_in sys_start (control_step J) n s" and "100000 + n < 2 ^ 64" and "control_step J s t"
    and "map_of (pending (ctl s)) rid = Some p"
  shows "map_of (pending (ctl t)) rid = Some p \<or> map_of (pending (ctl t)) rid = None"
  using router_entry_stable [OF reach_fresh [OF assms(1)] assms(2)
      control_step_sim [OF sim.reach_cinv [OF assms(1)] assms(3)], of rid p] assms(4)
  by (simp add: abst_def)

theorem pending_entry_stable_witness:
  "map_of (pending (ctl demo_delivering)) 100000 = Some (snd demo_entry) \<or>
   map_of (pending (ctl demo_delivering)) 100000 = None"
  by (rule pending_entry_stable [OF demo_reaches_looking _ demo_routes])
    (simp_all add: demo_looking_def demo_state_def demo_entry_def)

section \<open>From the request to the delivery\<close>

text \<open>What a client waiting for the lock, and a reader waiting for it, have in hand.\<close>

definition awaits_ok :: "json_codec \<Rightarrow> client_pc \<Rightarrow> bool" where
  "awaits_ok J pc \<longleftrightarrow> (\<forall>rid oid f. pc = AwaitLock rid oid f \<longrightarrow>
     (\<exists>line req. from_str J line = Some req \<and> get_id req = Some oid \<and> to_string J (set_json_rpc_id req rid) = Some f))"

definition reader_ok :: "json_codec \<Rightarrow> reader_pc \<Rightarrow> bool" where
  "reader_ok J pc \<longleftrightarrow> (\<forall>msg x rid. pc = RLocking msg x rid \<longrightarrow>
     json_rpc_id msg = Some rid \<and> from_str J x = Some msg \<and> \<not> is_event msg)"

definition tasks_ok :: "json_codec \<Rightarrow> sys \<Rightarrow> bool" where
  "tasks_ok J s \<longleftrightarrow> (\<forall>c k. clients s c = Some k \<longrightarrow> awaits_ok J (c_pc k)) \<and>
     (\<forall>j r. readers s j = Some r \<longrightarrow> reader_ok J (r_pc r))"

lemma forward_request_awaits: "from_str (codec e) x = Some msg \<Longrightarrow> awaits_ok (codec e) (snd (forward_request e msg s))"
  by (auto simp: forward_request_def awaits_ok_def Let_def split: option.splits)

lemma client_line_awaits: "awaits_ok (codec e) (snd (client_line e run n line s))"
proof -
  have "awaits_ok (codec e) (snd (client_message e run x s))" for x
    unfolding client_message_def Let_def
    by (auto simp: case_prod_beta intro: forward_request_awaits split: option.splits hook_action.splits)
      (auto simp: awaits_ok_def)
  then show ?thesis by (simp add: client_line_def Let_def) (simp add: awaits_ok_def)
qed

lemma reader_line_ok: "reader_ok (codec e) (snd (reader_line e run l s))"
  by (auto simp: reader_line_def reader_ok_def Let_def split: option.splits if_splits)

lemma reader_route_pc:
  "snd (reader_route e run msg x rid s) = RIdle \<or>
   (\<exists>p. map_of (pending s) rid = Some p \<and>
        snd (reader_route e run msg x rid s) = RDelivering (client_tx p) (restored_response e msg p))"
  by (auto simp: reader_route_def Let_def case_prod_beta split: option.splits)

lemma awaits_ok_simps [simp]:
  "awaits_ok J Reading" "awaits_ok J (Replying x)" "awaits_ok J (Rejecting x)"
  "awaits_ok J (SendingRequest rid f)" "awaits_ok J (SendingNote f)" "awaits_ok J Left"
  "awaits_ok J ErrorExit" "awaits_ok J Crashed" "awaits_ok J Finished"
  by (simp_all add: awaits_ok_def)

lemma reader_ok_simps [simp]:
  "reader_ok J RIdle" "reader_ok J (RDelivering c x)" "reader_ok J REnded" "reader_ok J RCrashed"
  by (simp_all add: reader_ok_def)

lemma reader_route_ok: "reader_ok J (snd (reader_route e run msg x rid s))"
  using reader_route_pc [of e run msg x rid s] by auto

lemma tasks_ok_untouched [simp]:
  "tasks_ok J (s\<lparr> ctl := t \<rparr>) = tasks_ok J s" "tasks_ok J (s\<lparr> link := l \<rparr>) = tasks_ok J s"
  "tasks_ok J (s\<lparr> hb_msg := m \<rparr>) = tasks_ok J s" "tasks_ok J (s\<lparr> lock_holder := h \<rparr>) = tasks_ok J s"
  "tasks_ok J (write_upstream e ok x up s) = tasks_ok J s"
  by (simp_all add: tasks_ok_def write_upstream_def Let_def)

lemma tasks_ok_set:
  "tasks_ok J s \<Longrightarrow> awaits_ok J (c_pc k) \<Longrightarrow> tasks_ok J (set_client c k s)"
  "tasks_ok J s \<Longrightarrow> reader_ok J (r_pc r) \<Longrightarrow> tasks_ok J (set_reader j r s)"
  "tasks_ok J s \<Longrightarrow> awaits_ok J (snd q) \<Longrightarrow> tasks_ok J (move_client c k q s)"
  "tasks_ok J s \<Longrightarrow> reader_ok J (snd v) \<Longrightarrow> tasks_ok J (move_reader j r v s)"
  by (auto simp: tasks_ok_def set_client_def set_reader_def move_client_def move_reader_def
      split: prod.splits)

lemma tasks_ok_client: "tasks_ok J s \<Longrightarrow> clients s c = Some k \<Longrightarrow> awaits_ok J (c_pc k)"
  by (simp add: tasks_ok_def)

lemma tasks_ok_accept: "tasks_ok J s \<Longrightarrow> tasks_ok J (accept_client e run s)"
  by (auto simp: tasks_ok_def accept_client_def set_client_def Let_def)

lemma tasks_ok_connect: "tasks_ok J s \<Longrightarrow> tasks_ok J (connect_upstream e run s)"
  by (auto simp: tasks_ok_def connect_upstream_def)

lemma control_step_tasks:
  assumes inv: "tasks_ok J s" and step: "control_step J s t"
  shows "tasks_ok J t"
  using step
proof cases
  case (client_reads e c k cs n line rest run)
  then show ?thesis using inv client_line_awaits [of e] by (auto intro!: tasks_ok_set)
next
  case (client_locks e c k rid oid f)
  then show ?thesis using inv
    by (auto intro!: tasks_ok_set simp: lock_and_register_def Let_def register_request_def)
next
  case (client_finishes e c k run)
  then show ?thesis using inv by (auto intro!: tasks_ok_set simp: finish_client_def Let_def)
next
  case (reader_processes e j r pos run)
  then show ?thesis using inv reader_line_ok [of e] by (auto intro!: tasks_ok_set)
next
  case (reader_routes e j r msg x rid run)
  then show ?thesis using inv reader_route_ok by (auto intro!: tasks_ok_set)
next
  case (reader_reads j r chunk)
  then show ?thesis using inv by (auto intro!: tasks_ok_set)
qed (use inv in \<open>auto intro!: tasks_ok_set tasks_ok_accept tasks_ok_connect
      simp: write_response_def write_event_def writer_stops_def tasks_ok_client
      dest: send_request_frame send_note_frame\<close>)

lemma tasks_ok_start: "sys_start s \<Longrightarrow> tasks_ok J s"
  by (auto simp: sys_start_def tasks_ok_def)

interpretation tsk: counted_invariant sys_start "control_step J" "\<lambda>_. tasks_ok J" for J
  by unfold_locales (auto intro: tasks_ok_start control_step_tasks)

text \<open>Whatever is pending got there by the registration of the client it names.\<close>

lemma pending_entry_origin:
  assumes "reach_in sys_start (control_step J) n s" and "map_of (pending (ctl s)) rid = Some p"
  shows "\<exists>m s0 k f. m < n \<and> reach_in sys_start (control_step J) m s0 \<and>
           clients s0 (client_tx p) = Some k \<and> c_pc k = AwaitLock rid (original_id p) f"
proof -
  let ?P = "\<lambda>s. map_of (pending (ctl s)) rid = Some p"
  have "\<not> ?P s" if "sys_start s" for s using that by (auto simp: sys_start_def control_init_def)
  with reach_origin [OF assms(1), of ?P] assms(2) obtain m s0 t0 where
    r: "m < n" "reach_in sys_start (control_step J) m s0" "control_step J s0 t0" "\<not> ?P s0" "?P t0"
    by blast
  have "want s0 (client_tx p) = Some (rid, original_id p)"
    using router_entry_origin [OF control_step_sim [OF sim.reach_cinv [OF r(2)] r(3)]] r(4,5)
    by (simp add: abst_def)
  then obtain k f where "clients s0 (client_tx p) = Some k" "c_pc k = AwaitLock rid (original_id p) f"
    by (auto simp: want_def bind_eq_Some_conv pc_want_Some)
  with r show ?thesis by blast
qed

text \<open>A reader starts a delivery only by looking an id up.\<close>

definition delivering :: "nat \<Rightarrow> string \<Rightarrow> sys \<Rightarrow> bool" where
  "delivering c x s \<longleftrightarrow> (\<exists>j r. readers s j = Some r \<and> r_pc r = RDelivering c x)"

lemma delivering_untouched [simp]:
  "delivering c x (s\<lparr> ctl := t \<rparr>) = delivering c x s" "delivering c x (s\<lparr> link := l \<rparr>) = delivering c x s"
  "delivering c x (s\<lparr> hb_msg := m \<rparr>) = delivering c x s"
  "delivering c x (s\<lparr> lock_holder := h \<rparr>) = delivering c x s"
  "delivering c x (set_client c' k s) = delivering c x s"
  "delivering c x (move_client c' k q s) = delivering c x s"
  "delivering c x (write_upstream e ok y up s) = delivering c x s"
  "delivering c x (accept_client e run s) = delivering c x s"
  by (auto simp: delivering_def write_upstream_def set_client_def move_client_def accept_client_def Let_def
      split: prod.splits)

lemma delivering_move_reader:
  "delivering c x (move_reader j r q s) \<Longrightarrow> delivering c x s \<or> snd q = RDelivering c x"
  by (auto simp: delivering_def move_reader_def set_reader_def split: prod.splits if_splits)

lemma delivering_connect:
  "delivering c x (connect_upstream e run s) \<Longrightarrow> delivering c x s"
  by (auto simp: delivering_def connect_upstream_def split: if_splits)

lemma delivering_set_reader:
  "delivering c x (set_reader j (r\<lparr> r_buf := b \<rparr>) s) \<Longrightarrow> readers s j = Some r \<Longrightarrow> delivering c x s"
  by (auto simp: delivering_def set_reader_def split: if_splits)

lemma reader_line_not_delivering: "snd (reader_line e run l s) \<noteq> RDelivering c x"
  by (auto simp: reader_line_def Let_def split: option.splits)

lemma delivery_starts:
  assumes "control_step J s t" "delivering c x t" "\<not> delivering c x s" "tasks_ok J s"
  shows "\<exists>answer msg rid p. from_str J answer = Some msg \<and> json_rpc_id msg = Some rid \<and> map_of (pending (ctl s)) rid = Some p \<and>
           client_tx p = c \<and> (\<exists>e. codec e = J \<and> x = restored_response e msg p)"
  using assms(1)
proof cases
  case (reader_routes e j r msg y rid run)
  with assms(2,3) have "snd (reader_route e run msg y rid (ctl s)) = RDelivering c x"
    by (auto dest: delivering_move_reader)
  then obtain p where "map_of (pending (ctl s)) rid = Some p" "c = client_tx p"
    "x = restored_response e msg p"
    using reader_route_pc [of e run msg y rid "ctl s"] by auto
  moreover have "from_str J y = Some msg" "json_rpc_id msg = Some rid"
    using assms(4) reader_routes by (auto simp: tasks_ok_def reader_ok_def)
  ultimately show ?thesis using reader_routes by blast
qed (use assms(2,3) in \<open>auto simp: lock_and_register_def Let_def finish_client_def write_response_def
      write_event_def writer_stops_def reader_line_not_delivering
      dest: delivering_move_reader delivering_connect delivering_set_reader\<close>)

text \<open>Behind every delivery there is a request of the client, forwarded under the id the answer carries.\<close>

lemma delivery_origin:
  assumes "reach_in sys_start (control_step J) n s" and "delivering c x s"
  shows "\<exists>m s0 k line req oid rid f answer msg. m < n \<and> reach_in sys_start (control_step J) m s0 \<and>
           clients s0 c = Some k \<and> c_pc k = AwaitLock rid oid f \<and> from_str J line = Some req \<and>
           get_id req = Some oid \<and> to_string J (set_json_rpc_id req rid) = Some f \<and>
           from_str J answer = Some msg \<and> json_rpc_id msg = Some rid \<and>
           x = (case to_string J (set_json_rpc_id_value msg oid) of Some y \<Rightarrow> y | None \<Rightarrow> [])"
proof -
  have "\<not> delivering c x s" if "sys_start s" for s using that by (auto simp: sys_start_def delivering_def)
  with reach_origin [OF assms(1), of "delivering c x"] assms(2) obtain m s1 t1 where
    r: "m < n" "reach_in sys_start (control_step J) m s1" "control_step J s1 t1" "\<not> delivering c x s1"
      "delivering c x t1" by blast
  obtain answer msg rid p e where d: "json_rpc_id msg = Some rid" "map_of (pending (ctl s1)) rid = Some p"
    "client_tx p = c" "codec e = J" "x = restored_response e msg p" "from_str J answer = Some msg"
    using delivery_starts [OF r(3,5,4) tsk.reach_inv [OF r(2)]] by blast
  obtain m0 s0 k f where o: "m0 < m" "reach_in sys_start (control_step J) m0 s0"
    "clients s0 c = Some k" "c_pc k = AwaitLock rid (original_id p) f"
    using pending_entry_origin [OF r(2) d(2)] d(3) by blast
  obtain line req where "from_str J line = Some req" "get_id req = Some (original_id p)" "to_string J (set_json_rpc_id req rid) = Some f"
    using tasks_ok_client [OF tsk.reach_inv [OF o(2)] o(3)] o(4) by (auto simp: awaits_ok_def)
  moreover have "m0 < n" using o(1) r(1) by simp
  moreover have "x = (case to_string J (set_json_rpc_id_value msg (original_id p)) of
      Some y \<Rightarrow> y | None \<Rightarrow> [])"
    using d(4,5) by (simp add: restored_response_def)
  ultimately show ?thesis using d(1,6) o(2,3,4) by blast
qed

text \<open>C2. A response reaches only the client that asked: whenever a reader is delivering a line to
  client \<open>c\<close>, that client earlier sent a request \<open>req\<close> which was forwarded under the id \<open>rid\<close>, the
  telescope answered with \<open>rid\<close>, and the line is that answer with the id of the request put back.\<close>

theorem response_reaches_its_client:
  assumes "reach_in sys_start (control_step J) n s" and "delivering c x s"
  shows "\<exists>m s0 k line req oid rid f answer msg. m < n \<and> reach_in sys_start (control_step J) m s0 \<and>
           clients s0 c = Some k \<and> c_pc k = AwaitLock rid oid f \<and> from_str J line = Some req \<and>
           get_id req = Some oid \<and> to_string J (set_json_rpc_id req rid) = Some f \<and>
           from_str J answer = Some msg \<and> json_rpc_id msg = Some rid \<and>
           x = (case to_string J (set_json_rpc_id_value msg oid) of Some y \<Rightarrow> y | None \<Rightarrow> [])"
  by (rule delivery_origin [OF assms])

theorem response_reaches_its_client_witness:
  "\<exists>m s0 k line req oid rid f answer msg. m < 10 \<and> reach_in sys_start (control_step demo_codec) m s0 \<and>
     clients s0 0 = Some k \<and> c_pc k = AwaitLock rid oid f \<and> from_str demo_codec line = Some req \<and>
     get_id req = Some oid \<and> to_string demo_codec (set_json_rpc_id req rid) = Some f \<and>
     from_str demo_codec answer = Some msg \<and> json_rpc_id msg = Some rid \<and>
     ''{id:7}'' = (case to_string demo_codec (set_json_rpc_id_value msg oid) of Some y \<Rightarrow> y | None \<Rightarrow> [])"
  by (rule response_reaches_its_client [OF demo_reaches_delivering])
    (auto simp: delivering_def demo_delivering_def demo_state_def)

lemma json_wf_get_id: "json_wf msg \<Longrightarrow> get_id msg = Some v \<Longrightarrow> json_wf v"
  using map_of_SomeD by (fastforce dest!: get_id_object)

lemma awaited_typed:
  assumes "\<And>x v. from_str J x = Some v \<Longrightarrow> json_wf v" and "awaits_ok J (AwaitLock rid oid f)"
  shows "json_wf oid \<and> oid \<noteq> Null \<and> (\<exists>v. json_wf v \<and> json_rpc_id v = Some rid \<and> to_string J v = Some f)"
proof -
  obtain line req where r: "from_str J line = Some req" "get_id req = Some oid" "to_string J (set_json_rpc_id req rid) = Some f"
    using assms(2) by (auto simp: awaits_ok_def)
  then have w: "json_wf req" using assms(1) by blast
  moreover have "json_rpc_id (set_json_rpc_id req rid) = Some rid"
    using get_id_object [OF r(2)] by (intro json_rpc_id_set) (auto simp: as_object_def)
  ultimately show ?thesis using r json_wf_get_id [OF w r(2)] json_wf_set_id(1) [OF w] get_id_object [OF r(2)] by blast
qed

text \<open>C18. Whatever the clients and the telescope send, the values the proxy passes on are well-typed, for a codec that
  parses into well-formed values: a request that waits to be registered is the serialisation of
  a well-formed object whose id is the number it was given, a pending id is a well-formed non-null value, and a
  response that is delivered is the serialisation of a well-formed object with such an id.\<close>

theorem messages_well_typed:
  assumes "reach_in sys_start (control_step J) n s" and "\<And>x v. from_str J x = Some v \<Longrightarrow> json_wf v"
  shows "(clients s c = Some k \<and> c_pc k = AwaitLock rid oid f \<longrightarrow>
       json_wf oid \<and> oid \<noteq> Null \<and> (\<exists>v. json_wf v \<and> json_rpc_id v = Some rid \<and> to_string J v = Some f)) \<and>
     (map_of (pending (ctl s)) rid = Some p \<longrightarrow> json_wf (original_id p) \<and> original_id p \<noteq> Null) \<and>
     (delivering c y s \<longrightarrow> (\<exists>v oid. json_wf v \<and> get_id v = Some oid \<and>
       y = (case to_string J v of Some z \<Rightarrow> z | None \<Rightarrow> [])))"
proof (intro conjI impI)
  have typed: "json_wf oid \<and> oid \<noteq> Null \<and> (\<exists>v. json_wf v \<and> json_rpc_id v = Some rid \<and> to_string J v = Some f)"
    if "reach_in sys_start (control_step J) m u" "clients u c = Some k" "c_pc k = AwaitLock rid oid f" for m u c k rid oid f
    using awaited_typed [OF assms(2)] tasks_ok_client [OF tsk.reach_inv [OF that(1)] that(2)] that(3) by simp
  { assume "clients s c = Some k \<and> c_pc k = AwaitLock rid oid f"
    then show "json_wf oid" "oid \<noteq> Null" "\<exists>v. json_wf v \<and> json_rpc_id v = Some rid \<and> to_string J v = Some f"
      using typed [OF assms(1)] by blast+ }
  { assume "map_of (pending (ctl s)) rid = Some p"
    then show "json_wf (original_id p)" "original_id p \<noteq> Null"
      using pending_entry_origin [OF assms(1)] typed by blast+ }
  assume "delivering c y s"
  then obtain m s0 k' oid' rid' f' answer msg where d: "reach_in sys_start (control_step J) m s0" "clients s0 c = Some k'"
    "c_pc k' = AwaitLock rid' oid' f'" "from_str J answer = Some msg" "json_rpc_id msg = Some rid'"
    "y = (case to_string J (set_json_rpc_id_value msg oid') of Some z \<Rightarrow> z | None \<Rightarrow> [])"
    using delivery_origin [OF assms(1)] by blast
  have "json_wf (set_json_rpc_id_value msg oid')"
    using json_wf_set_id(2) [OF assms(2) [OF d(4)]] typed [OF d(1-3)] by blast
  moreover have "get_id (set_json_rpc_id_value msg oid') = Some oid'"
    using json_rpc_id_object [OF d(5)] typed [OF d(1-3)] by (intro get_id_set_value) (auto simp: as_object_def)
  ultimately show "\<exists>v oid. json_wf v \<and> get_id v = Some oid \<and> y = (case to_string J v of Some z \<Rightarrow> z | None \<Rightarrow> [])"
    using d(6) by blast
qed

theorem messages_well_typed_witness:
  "\<exists>v oid. json_wf v \<and> get_id v = Some oid \<and> ''{id:7}'' = (case to_string demo_codec v of Some z \<Rightarrow> z | None \<Rightarrow> [])"
proof -
  have "json_wf v" if "from_str demo_codec x = Some v" for x v
    using that by (auto simp: demo_codec_def demo_request_def demo_remapped_def map_wf_def split: if_splits)
  moreover have "delivering 0 ''{id:7}'' demo_delivering"
    by (auto simp: delivering_def demo_delivering_def demo_state_def)
  ultimately show ?thesis using messages_well_typed [OF demo_reaches_delivering, of 0 _ _ _ _ _ "''{id:7}''"] by blast
qed

lemma reach_from_abst:
  "reach_in ((=) t) (control_step J) m u \<Longrightarrow> sys_inv t \<Longrightarrow>
     reach_in ((=) (abst t)) router_step m (abst u) \<and> sys_inv u"
  by (induction rule: reach_in.induct)
    (auto intro: reach_in.intros control_step_sim control_step_inv)

text \<open>C4. A request is answered at most once: after the id has left the map (answered, failed by a
  reconnect, or withdrawn) it is not pending in any later state, so that a second message with this
  id is not routed to the client as a response.\<close>

theorem answered_at_most_once:
  assumes "reach_in sys_start (control_step J) n s" and "map_of (pending (ctl s)) rid = Some p"
    and "control_step J s t" and "map_of (pending (ctl t)) rid = None"
    and "reach_in ((=) t) (control_step J) m u" and "100000 + Suc n + m < 2 ^ 64"
  shows "map_of (pending (ctl u)) rid = None"
proof -
  have inv: "sys_inv s" and r: "reach_in router_start router_step n (abst s)"
    using assms(1) sim.reach_cinv sim.reach_refines by blast+
  have st: "router_step (abst s) (abst t)" by (rule control_step_sim [OF inv assms(3)])
  have "rid \<in> keys (pending (ctl s))" using assms(2) map_of_keys [of "pending (ctl s)" rid] by auto
  then have "spent rid (abst t)"
    using assms(4,6) by (intro removed_spent [OF reach_fresh [OF assms(1)] _ st])
      (auto simp: abst_def map_of_keys)
  moreover have "reach_in ((=) (abst t)) router_step m (abst u)"
    using reach_from_abst [OF assms(5)] control_step_inv [OF inv assms(3)] by blast
  ultimately have "spent rid (abst u)"
    using reach_in.reach_step [OF r st] assms(6) by (blast intro: spent_reach)
  then show ?thesis by (simp add: spent_def abst_def map_of_keys)
qed

theorem answered_at_most_once_witness:
  "map_of (pending (fst (heartbeat_tick (ctl demo_delivering)))) 100000 = None"
proof -
  let ?u = "demo_delivering\<lparr> ctl := fst (heartbeat_tick (ctl demo_delivering)),
              hb_msg := snd (heartbeat_tick (ctl demo_delivering)) \<rparr>"
  have "control_step demo_codec demo_delivering ?u"
    by (rule heartbeat) (simp_all add: demo_delivering_def demo_state_def)
  then have "reach_in ((=) demo_delivering) (control_step demo_codec) (Suc 0) ?u"
    by (intro reach_step [OF reach_start]) simp_all
  from answered_at_most_once [OF demo_reaches_looking _ demo_routes _ this, of 100000 "snd demo_entry"]
  show ?thesis
    by (simp add: demo_looking_def demo_delivering_def demo_state_def demo_entry_def)
qed

end
