(* ===== verification/Long_Word.thy ===== *)
theory Long_Word
  imports Proxy_Base
begin

text \<open>
  A word of ASCII letters that ends in a character of two bytes: the shortest text on which a slice
  at a fixed byte offset panics.
\<close>

definition long_word :: "nat \<Rightarrow> string" where
  "long_word n = replicate n (CHR ''a'') @ [CHR 0xC3, CHR 0xA9]"

lemma lossy_ascii: "lossy_codes (replicate n 97 @ bs) = replicate n 97 @ lossy_codes bs"
proof (induction n)
  case (Suc n)
  have "utf8_step (97 # replicate n 97 @ bs) = (True, 1)" by (simp add: utf8_step_def safe_get_def)
  with Suc show ?case by (simp add: lossy_codes.simps [of "97 # replicate n 97 @ bs"])
qed simp
lemma long_word_codes:
  "map of_char (long_word n) = replicate n 97 @ [195, 169 :: nat]"
  "map char_of (replicate n 97 @ [195, 169 :: nat]) = long_word n"
  "map unat (as_bytes (long_word n)) = replicate n 97 @ [195, 169]"
proof -
  have "char_of (97 :: nat) = CHR ''a''" "char_of (195 :: nat) = CHR 0xC3" "char_of (169 :: nat) = CHR 0xA9"
    by code_simp+
  then show "map char_of (replicate n 97 @ [195, 169 :: nat]) = long_word n"
    by (simp add: long_word_def)
  have "unat (u8_of_char CHR ''a'') = 97" "unat (u8_of_char CHR 0xC3) = 195"
    "unat (u8_of_char CHR 0xA9) = 169" by code_simp+
  then show "map unat (as_bytes (long_word n)) = replicate n 97 @ [195, 169]"
    by (simp add: as_bytes_def long_word_def)
qed (simp add: long_word_def)

lemma long_word_lossy:
  "from_utf8_lossy (as_bytes (long_word n)) = long_word n"
  "from_utf8_lossy (as_bytes (long_word n) @ [nl]) = long_word n @ [CHR 0x0A]"
proof -
  have "lossy_codes [195, 169] = [195, 169]" "lossy_codes [195, 169, 10] = [195, 169, 10]"
    "char_of (10 :: nat) = CHR 0x0A"
    by code_simp+
  then show "from_utf8_lossy (as_bytes (long_word n)) = long_word n"
    "from_utf8_lossy (as_bytes (long_word n) @ [nl]) = long_word n @ [CHR 0x0A]"
    using long_word_codes [of n] by (simp_all add: from_utf8_lossy_def lossy_ascii nl_def)
qed

lemma long_word_trim:
  "trim (long_word n) = long_word n" "trim (long_word n @ [CHR 0x0A]) = long_word n"
proof -
  have start: "trim_codes ws_len (replicate n 97 @ 195 # bs) = replicate n 97 @ 195 # bs" for bs
  proof -
    have "ws_len (replicate n 97 @ 195 # bs) = 0" by (cases n) (auto split: list.splits)
    then show ?thesis by (subst trim_codes.simps) simp
  qed
  have "ws_len_rev (169 # 195 # bs) = 0" for bs by (cases bs) (auto simp: ws_len_rev_def)
  then have e: "trim_codes ws_len_rev (169 # 195 # bs) = 169 # 195 # bs" for bs
    by (subst trim_codes.simps) simp
  have "ws_len_rev (10 # bs) = 1" for bs by (simp add: ws_len_rev_def)
  then have e': "trim_codes ws_len_rev (10 # 169 # 195 # bs) = 169 # 195 # bs" for bs
    using e by (subst trim_codes.simps) simp
  show "trim (long_word n) = long_word n"
    using start e long_word_codes [of n] by (simp add: trim_def trim_end_def trim_start_def)
  show "trim (long_word n @ [CHR 0x0A]) = long_word n"
    using start e' long_word_codes [of n] by (simp add: trim_def trim_end_def trim_start_def)
qed

lemma log_prefix_Panic: "log_prefix s n = Panic \<longleftrightarrow> n < length s \<and> \<not> is_char_boundary s n"
  by (auto simp: log_prefix_def str_slice_def is_char_boundary_def min_def)

lemma long_word_boundary: "0 < n \<Longrightarrow> \<not> is_char_boundary (long_word n) (Suc n)"
  by (simp add: is_char_boundary_def long_word_def nth_append is_cont_def)

end
