(* ===== verification/Control_Tasks.thy ===== *)
theory Control_Tasks
  imports Control_Routing Long_Word
begin

text \<open>
  The single tasks of the control proxy: heartbeats, the reconnect, what a hook can do to a request,
  the lock that is held while a rejection is sent, and the lines on which a task panics.
\<close>

section \<open>Heartbeats\<close>

lemma burnt_spent:
  assumes "fresh_inv n r" "100000 + Suc n < 2 ^ 64"
  shows "spent (r_next r) (r\<lparr> r_next := r_next r + 1 \<rparr>)"
proof -
  have "unat (r_next r + 1) = Suc (unat (r_next r))"
    using assms by (intro next_no_wrap [of _ n]) (auto simp: fresh_inv_def)
  moreover have "r_next r \<notin> keys (r_pending r)" "\<forall>c oid. r_want r c \<noteq> Some (r_next r, oid)"
    using assms by (auto simp: fresh_inv_def)
  ultimately show ?thesis by (simp add: spent_def)
qed



section \<open>Reconnecting\<close>

lemma fail_pending_responses:
  "responses (fail_pending e p s) c =
     (if c = client_tx p \<and> mopen (responses s c) \<and> length (mbuf (responses s c)) < mcap (responses s c)
      then (responses s c)\<lparr> mbuf := mbuf (responses s c) @ [reconnect_error e p] \<rparr> else responses s c)"
  by (auto simp: fail_pending_def try_send_def set_response_def)

definition errors_for :: "env \<Rightarrow> nat \<Rightarrow> (u64 \<times> pending_request) list \<Rightarrow> string list" where
  "errors_for e c ps = map (reconnect_error e) (filter (\<lambda>p. client_tx p = c) (map snd ps))"

lemma drain_responses:
  "mopen (responses s c) \<Longrightarrow> length (mbuf (responses s c)) \<le> mcap (responses s c) \<Longrightarrow>
   responses (fold (\<lambda>(_, p). fail_pending e p) ps s) c =
     (responses s c)\<lparr> mbuf := mbuf (responses s c) @
        take (mcap (responses s c) - length (mbuf (responses s c))) (errors_for e c ps) \<rparr>"
proof (induction ps arbitrary: s)
  case (Cons q ps)
  show ?case
  proof (cases "client_tx (snd q) = c \<and> length (mbuf (responses s c)) < mcap (responses s c)")
    case True
    then obtain d where "mcap (responses s c) - length (mbuf (responses s c)) = Suc d"
      by (metis Suc_diff_Suc)
    moreover from this have "mcap (responses s c) - Suc (length (mbuf (responses s c))) = d" by simp
    ultimately show ?thesis using True Cons
      by (simp add: fail_pending_responses errors_for_def case_prod_beta)
  next
    case False
    with Cons.prems have "client_tx (snd q) \<noteq> c \<or> mcap (responses s c) = length (mbuf (responses s c))"
      by auto
    with Cons show ?thesis
      by (auto simp: fail_pending_responses errors_for_def case_prod_beta)
  qed
qed (simp add: errors_for_def)

lemma drain_closed:
  "\<not> mopen (responses s c) \<Longrightarrow>
   responses (fold (\<lambda>(_, p). fail_pending e p) ps s) c = responses s c"
  by (induction ps arbitrary: s) (auto simp: fail_pending_responses)

lemma upstream_connected_responses:
  "responses (upstream_connected e run s) = responses (drain_pending e s)"
proof -
  have eq: "responses (fold (\<lambda>(_, p). fail_pending e p) ps t) = responses (fold (\<lambda>(_, p). fail_pending e p) ps t')"
    if "responses t = responses t'" for ps t t'
    using that by (induction ps arbitrary: t t') (auto simp: fail_pending_responses fun_eq_iff)
  show ?thesis
    using eq [of "s\<lparr> handshake_done := False, ctl_metrics := map_option reset_telescope_state (ctl_metrics s) \<rparr>" s]
    by (auto simp: upstream_connected_def drain_pending_def Let_def with_metrics_def case_prod_beta
        split: option.splits)
qed

lemma drain_handshake: "handshake_done (drain_pending e s) = handshake_done s"
proof -
  have "handshake_done (fail_pending e p t) = handshake_done t" for p t
    by (simp add: fail_pending_def set_response_def split: sum.splits)
  then have "handshake_done (fold (\<lambda>(_, p). fail_pending e p) ps t) = handshake_done t" for ps t
    by (induction ps arbitrary: t) (simp_all add: case_prod_beta)
  then show ?thesis by (simp add: drain_pending_def)
qed

lemma upstream_connected_handshake: "\<not> handshake_done (upstream_connected e run s)"
proof -
  let ?s3 = "drain_pending e (with_metrics reset_telescope_state (s\<lparr> handshake_done := False \<rparr>))"
  have "\<not> handshake_done ?s3" by (simp only: drain_handshake) (simp add: with_metrics_def)
  then show ?thesis
    by (cases "ctl_hooks ?s3") (simp_all add: upstream_connected_def Let_def case_prod_beta)
qed

text \<open>C15. When the telescope connection is re-established no request stays pending, and every client
  that is still there is sent, in its queue behind what was already there, one error carrying the
  original id for each of its requests in flight, as far as the queue of 64 has room; the heartbeats
  stop until the telescope has spoken again.\<close>

theorem reconnect_fails_pending:
  assumes "mopen (responses s c)" and "length (mbuf (responses s c)) \<le> mcap (responses s c)"
  shows "pending (upstream_connected e run s) = [] \<and> \<not> handshake_done (upstream_connected e run s) \<and>
     mbuf (responses (upstream_connected e run s) c) = mbuf (responses s c) @
       take (mcap (responses s c) - length (mbuf (responses s c))) (errors_for e c (pending s))"
  using drain_responses [OF assms, of e "pending s"] upstream_connected_handshake [of e run s]
    upstream_connected_frame(2) [of e run s]
  by (simp only: upstream_connected_responses drain_pending_def) simp

theorem reconnect_fails_pending_witness:
  "pending (upstream_connected demo_env demo_lua (ctl demo_sent)) = [] \<and>
   \<not> handshake_done (upstream_connected demo_env demo_lua (ctl demo_sent)) \<and>
   mbuf (responses (upstream_connected demo_env demo_lua (ctl demo_sent)) 0) =
     [reconnect_error demo_env (snd demo_entry)]"
  using reconnect_fails_pending [of "ctl demo_sent" 0 demo_env demo_lua]
  by (simp add: demo_sent_def demo_state_def mpsc_channel_def errors_for_def demo_entry_def)

section \<open>Hooks and requests\<close>

lemma client_message_hook:
  assumes "ctl_hooks s = Some h" and "from_str (codec e) x = Some msg"
    and "on_request (codec e) (lua e) h run msg (upstream s) = (action, up)"
    and "action = Block \<or> action = Reply y"
  shows "\<exists>t. fst (client_message e run x s) = t\<lparr> upstream := up \<rparr> \<and> next_id t = next_id s \<and>
           pending t = pending s \<and> responses t = responses s \<and> events t = events s \<and>
           (snd (client_message e run x s) = Crashed \<or>
            snd (client_message e run x s) = (case action of Reply z \<Rightarrow> Replying z | _ \<Rightarrow> Reading))"
  using assms
  by (intro exI [of _ "with_metrics (client_metrics e x) (record_ctl e ''client'' x s)"])
    (auto simp: client_message_def Let_def record_ctl_def with_metrics_def split: if_splits)

text \<open>C30. A request that a hook blocks or answers itself takes no id, is not registered and not queued
  for the telescope: the only messages that the line adds to the upstream queue are those the script
  itself sent, and the client goes on reading, or is sent the script's reply.\<close>

theorem hooked_request_not_forwarded:
  assumes "ctl_hooks s = Some h" and "from_str (codec e) x = Some msg"
    and "on_request (codec e) (lua e) h run msg (upstream s) = (action, up)"
    and "action = Block \<or> action = Reply y" and "client_message e run x s = (t, pc)"
  shows "next_id t = next_id s \<and> pending t = pending s \<and> responses t = responses s \<and>
         events t = events s \<and> upstream t = up \<and> (\<exists>ms. mbuf up = mbuf (upstream s) @ ms) \<and>
         (pc = Crashed \<or> pc = (case action of Reply z \<Rightarrow> Replying z | _ \<Rightarrow> Reading))"
proof -
  have "extends (upstream s) up"
    using hooks_extend(1) [of "upstream s" "codec e" "lua e" h run msg] assms(3) by simp
  then show ?thesis
    using client_message_hook [OF assms(1-4)] assms(5) by (auto simp: extends_def)
qed

definition demo_engine :: hook_engine where
  "demo_engine =
     \<lparr> has_on_request = True, has_on_response = False, has_on_event = False,
       has_on_upstream_connect = False, has_on_client_connect = False, has_on_client_disconnect = False,
       tx_set = True,
       telescope = \<lparr> tt_is_streaming = False, tt_is_goto = False, tt_is_stacking = False,
         tt_view_mode = None, tt_battery = 0, tt_temperature = 0, tt_stack_count = None \<rparr> \<rparr>"

definition demo_hook_env :: env where
  "demo_hook_env = demo_env\<lparr> lua := \<lparr> lg_function = (\<lambda>f. f = ''on_request''), lg_telescope = True,
     lg_to_value = (\<lambda>_. True) \<rparr> \<rparr>"

definition demo_block_run :: lua_run where
  "demo_block_run = \<lparr> run_sends = [Some demo_remapped], run_result = Some (LBoolean False) \<rparr>"

theorem hooked_request_not_forwarded_witness:
  "let s = (ctl demo_connected)\<lparr> ctl_hooks := Some demo_engine \<rparr>;
       (t, pc) = client_message demo_hook_env demo_block_run ''{id:7}'' s
   in next_id t = 100000 \<and> pending t = [] \<and> mbuf (upstream t) = [''{id:100000}''] \<and>
      (pc = Crashed \<or> pc = Reading)"
proof -
  let ?s = "(ctl demo_connected)\<lparr> ctl_hooks := Some demo_engine \<rparr>"
  let ?up = "\<lparr> mcap = 256, mbuf = [''{id:100000}''], mopen = True \<rparr>"
  obtain t pc where r: "client_message demo_hook_env demo_block_run ''{id:7}'' ?s = (t, pc)"
    by (cases "client_message demo_hook_env demo_block_run ''{id:7}'' ?s")
  have "on_request (codec demo_hook_env) (lua demo_hook_env) demo_engine demo_block_run demo_request
      (upstream ?s) = (Block, ?up)"
    by (simp add: on_request_def call_message_hook_def demo_hook_env_def demo_block_run_def demo_engine_def
        demo_connected_def demo_state_def interpret_result_def lua_sends_def telescope_send_def
        try_send_def demo_env_def demo_messages)
  moreover have "from_str (codec demo_hook_env) ''{id:7}'' = Some demo_request"
    by (simp add: demo_hook_env_def demo_env_def demo_messages)
  ultimately show ?thesis
    using hooked_request_not_forwarded [where y = "[]", OF _ _ _ _ r] r
    by (auto simp: demo_connected_def demo_state_def)
qed

section \<open>The lock is held while a rejection is being sent\<close>

text \<open>C39. While a client over the limit is being sent its rejection, no other task can register,
  withdraw or route a request, and if that client does not read its socket and its queue is full, no
  step but its own writer's changes that: one client that stops reading stalls the routing for all.\<close>

theorem rejection_stalls_routing:
  assumes "sys_inv s" and "lock_holder s = Some c" and "control_step J s t"
  shows "pending (ctl t) = pending (ctl s) \<and>
         (mopen (responses (ctl s) c) \<and> mcap (responses (ctl s) c) \<le> length (mbuf (responses (ctl s) c))
            \<longrightarrow> lock_holder t = Some c)"
proof -
  have h: "c' = c" if "clients s c' = Some k" "c_pc k = Rejecting x" for c' k x
    using assms(1,2) that
    by (metis holds_lock_def option.inject sys_inv_def)
  show ?thesis using assms(3)
  proof cases
    case (client_rejects c' k x t')
    with h have "c' = c" by blast
    with client_rejects show ?thesis
      by (auto simp: send_response_def poll_send_def try_send_def split: if_splits)
  next
    case (client_reads e c' k cs n line rest run)
    with assms(2) show ?thesis using client_line_ok [of "ctl s" e run n line] by (auto simp: reads_ok_def)
  next
    case (client_sends c' k rid f t' pc)
    with assms(2) show ?thesis by (auto dest: send_request_frame)
  qed (use assms(2) in \<open>auto simp: accept_client_frame finish_client_frame step_frames write_upstream_frame
        write_response_def write_event_def writer_stops_def
        dest: send_response_frame send_note_frame heartbeat_tick_frame\<close>)
qed

definition demo_stalled :: sys where
  "demo_stalled = (demo_state 102025 (map (\<lambda>i. (of_nat (100000 + i), snd demo_entry)) [0 ..< 1024])
      [] True (Rejecting ''no'') demo_idle [])\<lparr> lock_holder := Some 0 \<rparr>"

theorem rejection_stalls_routing_witness:
  "pending (fst (heartbeat_tick (ctl demo_stalled))) = pending (ctl demo_stalled)"
proof -
  let ?t = "demo_stalled\<lparr> ctl := fst (heartbeat_tick (ctl demo_stalled)),
              hb_msg := snd (heartbeat_tick (ctl demo_stalled)) \<rparr>"
  have "control_step demo_codec demo_stalled ?t"
    by (rule heartbeat) (simp_all add: demo_stalled_def demo_state_def)
  moreover have "sys_inv demo_stalled"
    by (auto simp: sys_inv_def holds_lock_def demo_stalled_def demo_state_def)
  moreover have "lock_holder demo_stalled = Some 0"
    by (simp add: demo_stalled_def)
  ultimately show ?thesis using rejection_stalls_routing [of demo_stalled 0 demo_codec ?t] by simp
qed

section \<open>Lines that end a task\<close>

lemma long_word_cut: "method_hint (long_word 59) = Panic" "log_prefix (long_word 99) 100 = Panic"
  by code_simp+

text \<open>A line from the telescope whose log excerpt of 60 bytes ends inside a character ends the
  reader task, whatever the log level and whatever the codec makes of the line: it is neither
  recorded nor routed, and unlike at the end of the stream the dashboard keeps showing the telescope
  as connected.\<close>

theorem telescope_line_crashes_reader:
  "reader_line e run (as_bytes (long_word 59)) s = (s, RCrashed) \<and>
   ctl (move_reader j r (reader_line e run (as_bytes (long_word 59)) (ctl u)) u) = ctl u"
proof -
  have "long_word 59 \<noteq> []" by (simp add: long_word_def)
  then show ?thesis
    by (simp add: reader_line_def Let_def move_reader_def long_word_lossy long_word_trim long_word_cut)
qed

lemma move_client_other:
  "c' \<noteq> c \<Longrightarrow> clients (move_client c' k r s) c = clients s c"
  by (auto simp: move_client_def split: prod.splits)

lemma crashed_stays:
  assumes "control_step J s t" and "sys_inv s" and "clients s c = Some k" and "c_pc k = Crashed"
  shows "\<exists>k'. clients t c = Some k' \<and> c_pc k' = Crashed"
proof -
  have n: "clients s (next_client s) = None" using assms(2) by (simp add: sys_inv_def)
  have m: "\<exists>k'. clients (move_client c' k'' r s) c = Some k' \<and> c_pc k' = Crashed"
    if "clients s c' = Some k''" "c_pc k'' \<noteq> Crashed" for c' k'' r
    using that assms(3,4) by (cases "c' = c") (auto simp: move_client_other)
  show ?thesis using assms(1)
  proof cases
    case (accept e run)
    with n assms(3,4) show ?thesis by (auto simp: accept_client_def Let_def)
  next
    case (client_locks e c' k'' rid oid f)
    with m show ?thesis by (simp add: lock_and_register_def Let_def)
  qed (use m assms(3,4) in \<open>auto simp: finish_client_frame write_response_def write_event_def
      writer_stops_def write_upstream_frame connect_upstream_frame\<close>)
qed

text \<open>A line that is not JSON and has a character across its hundredth byte ends the task of the
  client that sent it (when warnings are logged), and from then on no step brings the task to the
  point where the client is uncounted and its disconnect hook run.\<close>

theorem client_line_crashes_client:
  assumes "warn_enabled e" and "from_str (codec e) (long_word 99) = None"
    and "sys_inv s" and "clients s c = Some k" and "c_pc k = Crashed"
    and "reach_in ((=) s) (control_step J) n t"
  shows "snd (client_line e run 102 (as_bytes (long_word 99) @ [nl]) (ctl u)) = Crashed \<and>
         (\<exists>k'. clients t c = Some k' \<and> c_pc k' = Crashed)"
proof -
  have ne: "long_word 99 \<noteq> []" and len: "length (long_word 99) = 101" by (simp_all add: long_word_def)
  have "client_line e run 102 (as_bytes (long_word 99) @ [nl]) (ctl u) =
      client_message e run (long_word 99) (ctl u)"
    using ne len by (simp add: client_line_def Let_def long_word_lossy long_word_trim MAX_LINE_BYTES_def)
  then have "snd (client_line e run 102 (as_bytes (long_word 99) @ [nl]) (ctl u)) = Crashed"
    using assms(1,2) by (simp add: client_message_def Let_def slice_panics_def long_word_cut)
  moreover from assms(6) have "sys_inv t \<and> (\<exists>k'. clients t c = Some k' \<and> c_pc k' = Crashed)"
    using assms(3-5)
    by (induction rule: reach_in.induct) (auto intro: control_step_inv dest: crashed_stays)
  ultimately show ?thesis by blast
qed

definition demo_crashed :: sys where
  "demo_crashed = demo_state 100000 [] [] False Crashed demo_idle []"

theorem client_line_crashes_client_witness:
  "snd (client_line demo_env demo_lua 102 (as_bytes (long_word 99) @ [nl]) (ctl demo_connected)) = Crashed \<and>
   (\<exists>k'. clients demo_crashed 0 = Some k' \<and> c_pc k' = Crashed)"
proof -
  have "from_str (codec demo_env) (long_word 99) = None"
    by (simp add: demo_env_def demo_codec_def long_word_def eval_nat_numeral)
  then show ?thesis
    by (intro client_line_crashes_client [where s = demo_crashed and J = demo_codec and n = 0,
          OF _ _ _ _ _ reach_start])
      (auto simp: demo_crashed_def demo_state_def demo_env_def sys_inv_def holds_lock_def)
qed

end
