(* ===== verification/Control_Progress.thy ===== *)
theory Control_Progress
  imports Control_Routing
begin

text \<open>
  The positive side of routing: a request that got its identifier can always be brought to the
  telescope, and a response that was read can always be brought to its client, by steps of the proxy's
  own tasks.  What this rests on is an invariant of the queues: a queue whose reading task is alive
  is open.
\<close>

section \<open>Queues whose reader is alive are open\<close>

definition same_chans :: "control \<Rightarrow> control \<Rightarrow> bool" where
  "same_chans u v \<longleftrightarrow> mopen (upstream v) = mopen (upstream u) \<and> mcap (upstream v) = mcap (upstream u) \<and>
     (\<forall>c. mopen (responses v c) = mopen (responses u c) \<and> mcap (responses v c) = mcap (responses u c))"

lemma same_chans_refl [simp]: "same_chans u u"
  by (simp add: same_chans_def)

lemma same_chans_trans: "same_chans u v \<Longrightarrow> same_chans v w \<Longrightarrow> same_chans u w"
  by (simp add: same_chans_def)

lemma same_chans_eq: "upstream v = upstream u \<Longrightarrow> responses v = responses u \<Longrightarrow> same_chans u v"
  by (simp add: same_chans_def)

lemma same_chans_ctl [simp]:
  "same_chans u (record_ctl e d x v) = same_chans u v" "same_chans u (with_metrics f v) = same_chans u v"
  "same_chans u (broadcast_event x v) = same_chans u v" "same_chans u (remove_pending rid v) = same_chans u v"
  "same_chans u (v\<lparr> next_id := i \<rparr>) = same_chans u v" "same_chans u (v\<lparr> pending := ps \<rparr>) = same_chans u v"
  "same_chans u (v\<lparr> handshake_done := b \<rparr>) = same_chans u v" "same_chans u (v\<lparr> ctl_hooks := h \<rparr>) = same_chans u v"
  by (simp_all add: same_chans_def record_ctl_def with_metrics_def broadcast_event_def remove_pending_def)

lemma same_chans_upstream: "same_chans u v \<Longrightarrow> extends (upstream v) up \<Longrightarrow> same_chans u (v\<lparr> upstream := up \<rparr>)"
  by (simp add: same_chans_def extends_def)

lemma upstream_ctl [simp]:
  "upstream (record_ctl e d x v) = upstream v" "upstream (with_metrics f v) = upstream v"
  by (simp_all add: record_ctl_def with_metrics_def)

lemma same_chans_forward: "same_chans u s \<Longrightarrow> same_chans u (fst (forward_request e msg s))"
  by (simp add: forward_request_def Let_def split: option.splits)

lemma same_chans_line: "same_chans s (fst (client_line e run n line s))"
  by (auto simp: client_line_def client_message_def Let_def case_prod_beta intro!: same_chans_forward same_chans_upstream
      split: option.splits hook_action.splits)

lemma same_chans_try_send:
  "try_send x ch = Inr ch' \<Longrightarrow> mopen ch' = mopen ch \<and> mcap ch' = mcap ch"
  by (auto simp: try_send_def split: if_splits)

lemma same_chans_poll: "poll_send x ch = Sent ch' \<Longrightarrow> mopen ch' = mopen ch \<and> mcap ch' = mcap ch"
  by (auto simp: poll_send_def try_send_def split: if_splits)

lemma same_chans_set_response:
  "mopen ch = mopen (responses s c) \<Longrightarrow> mcap ch = mcap (responses s c) \<Longrightarrow> same_chans s (set_response c ch s)"
  by (simp add: same_chans_def set_response_def)

lemma same_chans_sends:
  "send_response c x s = Some t \<Longrightarrow> same_chans s t"
  "send_request rid f s = Some (t, pc) \<Longrightarrow> same_chans s t"
  "send_note f s = Some (t, pc) \<Longrightarrow> same_chans s t"
  by (auto simp: send_response_def send_request_def send_note_def same_chans_def set_response_def remove_pending_def
      split: send_poll.splits if_splits dest!: same_chans_poll)

lemma same_chans_reader: "same_chans s (fst (reader_line e run l s))" "same_chans s (fst (reader_route e run msg x rid s))"
  by (auto simp: reader_line_def reader_route_def reader_event_def Let_def case_prod_beta intro!: same_chans_upstream
      split: option.splits)

lemma same_chans_drain: "same_chans u s \<Longrightarrow> same_chans u (drain_pending e s)"
proof -
  have f: "same_chans s (fail_pending e p s)" for p s
    by (auto simp: fail_pending_def intro!: same_chans_set_response dest: same_chans_try_send split: sum.splits)
  have "same_chans u (fold (\<lambda>(_, p). fail_pending e p) ps s)" if "same_chans u s" for ps u s
    using that
  proof (induction ps arbitrary: s)
    case (Cons p ps)
    then show ?case using same_chans_trans [OF _ f] by (auto simp: case_prod_beta)
  qed simp
  then show "same_chans u s \<Longrightarrow> same_chans u (drain_pending e s)" by (simp add: drain_pending_def)
qed

lemma same_chans_connected: "same_chans s (upstream_connected e run s)"
  by (auto simp: upstream_connected_def Let_def case_prod_beta intro!: same_chans_drain same_chans_upstream split: option.splits)

definition chan_inv :: "sys \<Rightarrow> bool" where
  "chan_inv s \<longleftrightarrow> mcap (upstream (ctl s)) = 256 \<and> (link s \<noteq> LinkDead \<longrightarrow> mopen (upstream (ctl s))) \<and>
     (\<forall>c k. clients s c = Some k \<longrightarrow> mcap (responses (ctl s) c) = 64 \<and> (c_writer k \<longrightarrow> mopen (responses (ctl s) c)))"

lemma chan_inv_client:
  assumes "chan_inv s" and "same_chans (ctl s) t" and "clients s c = Some k" and "c_writer k' \<longrightarrow> c_writer k"
  shows "chan_inv ((set_client c k' s)\<lparr> ctl := t \<rparr>)"
  using assms by (auto simp: chan_inv_def same_chans_def set_client_def)

lemma chan_inv_set:
  assumes "chan_inv s" and "clients s c = Some k" and "c_writer k' \<longrightarrow> c_writer k"
  shows "chan_inv (set_client c k' s)"
  using assms by (auto simp: chan_inv_def set_client_def)

lemma chan_inv_move:
  assumes "chan_inv s" and "clients s c = Some k" and "same_chans (ctl s) (fst r)"
  shows "chan_inv (move_client c k r s)"
  using assms by (auto simp: move_client_def chan_inv_def same_chans_def set_client_def set_response_def close_rx_def case_prod_beta)

lemma chan_inv_reader:
  assumes "chan_inv s" and "same_chans (ctl s) (fst q)"
  shows "chan_inv (move_reader j r q s)"
  using assms by (auto simp: move_reader_def chan_inv_def same_chans_def set_reader_def with_metrics_def case_prod_beta)

lemma chan_inv_untouched [simp]:
  "chan_inv (s\<lparr> lock_holder := h \<rparr>) = chan_inv s" "chan_inv (s\<lparr> hb_msg := m \<rparr>) = chan_inv s"
  "chan_inv (set_reader j r s) = chan_inv s"
  by (simp_all add: chan_inv_def set_reader_def)

lemma chan_inv_link: "chan_inv s \<Longrightarrow> link s \<noteq> LinkDead \<Longrightarrow> chan_inv (s\<lparr> link := l \<rparr>)"
  by (simp add: chan_inv_def)

lemma chan_inv_ctl: "chan_inv s \<Longrightarrow> same_chans (ctl s) t \<Longrightarrow> chan_inv (s\<lparr> ctl := t \<rparr>)"
  by (auto simp: chan_inv_def same_chans_def)

lemma recv_same: "recv ch = Some (x, ch') \<Longrightarrow> mopen ch' = mopen ch \<and> mcap ch' = mcap ch"
  by (auto simp: recv_def split: list.splits)

lemma chan_inv_accept:
  assumes "chan_inv s" shows "chan_inv (accept_client e run s)"
  using assms hooks_extend(4) [of "upstream (ctl s)" "codec e" "lua e" _ run]
  by (auto simp: accept_client_def chan_inv_def set_client_def set_response_def mpsc_channel_def with_metrics_def Let_def
      extends_def split: option.splits)

lemma chan_inv_step:
  assumes inv: "chan_inv s" and step: "control_step J s t"
  shows "chan_inv t"
  using step
proof cases
  case (accept e run)
  then show ?thesis using inv chan_inv_accept by simp
next
  case (client_finishes e c k run)
  have "same_chans (ctl s) (ctl t)" using client_finishes
    by (auto simp: finish_client_def Let_def intro!: same_chans_upstream split: option.splits)
  then show ?thesis using chan_inv_client [OF inv _ client_finishes(3), of _ "k\<lparr> c_pc := Finished \<rparr>"] client_finishes
    by (simp add: finish_client_def Let_def)
next
  case (client_locks e c k rid oid f)
  then show ?thesis using inv
    by (auto simp: lock_and_register_def register_request_def Let_def intro!: chan_inv_move)
next
  case (writer_response c k x ch)
  then show ?thesis using inv recv_same [OF writer_response(4)]
    by (auto simp: write_response_def intro!: chan_inv_client same_chans_set_response)
next
  case (writer_fails c k)
  then show ?thesis using inv
    by (auto simp: writer_stops_def chan_inv_def set_client_def set_response_def close_rx_def)
next
  case (connects e run)
  then show ?thesis using inv same_chans_connected [of "ctl s" e run]
    by (auto simp: connect_upstream_def chan_inv_def same_chans_def with_metrics_def)
next
  case (writes e j x up ok)
  then show ?thesis using inv recv_same [OF writes(4)]
    by (auto simp: write_upstream_def chan_inv_def close_rx_def Let_def)
next
  case (heartbeat c m)
  then show ?thesis using inv by (auto simp: heartbeat_tick_def intro!: chan_inv_ctl split: if_splits)
next
  case (heartbeat_sends x up)
  then show ?thesis using inv same_chans_poll [OF heartbeat_sends(3)] by (auto simp: chan_inv_def)
next
  case (writer_event c k x q)
  then show ?thesis using chan_inv_set [OF inv] by (simp add: write_event_def)
next
  case (writer_lagged c k d q)
  then show ?thesis using chan_inv_set [OF inv] by simp
qed (use inv in \<open>auto intro!: chan_inv_move chan_inv_reader chan_inv_link simp: same_chans_line same_chans_reader
      dest: same_chans_sends\<close>)

lemma chan_inv_start: "sys_start s \<Longrightarrow> chan_inv s"
  by (auto simp: sys_start_def chan_inv_def control_init_def mpsc_channel_def)

interpretation chans: counted_invariant sys_start "control_step J" "\<lambda>_. chan_inv" for J
  by unfold_locales (fact chan_inv_start, fact chan_inv_step)

section \<open>Emptying a queue\<close>

lemma reach_snoc: "reach_in ((=) s) step m u \<Longrightarrow> step u t \<Longrightarrow> reach_in ((=) s) step (Suc m) t"
  by (rule reach_step)

lemma reach_cons: "step s u \<Longrightarrow> reach_in ((=) u) step m t \<Longrightarrow> reach_in ((=) s) step (Suc m) t"
  using reach_append [OF _ reach_one [of step s u]] by simp

text \<open>The writer task of a client writes what is queued for it.\<close>

definition written :: "nat \<Rightarrow> client \<Rightarrow> string list \<Rightarrow> sys \<Rightarrow> sys" where
  "written c k xs s =
     (set_client c (k\<lparr> c_out := c_out k @ map (\<lambda>x. x @ crlf) xs \<rparr>) s)\<lparr>
        ctl := set_response c ((responses (ctl s) c)\<lparr> mbuf := [] \<rparr>) (ctl s) \<rparr>"

lemma writer_empties:
  "mbuf (responses (ctl s) c) = xs \<Longrightarrow> clients s c = Some k \<Longrightarrow> c_writer k \<Longrightarrow>
     reach_in ((=) s) (control_step J) (length xs) (written c k xs s)"
proof (induction xs arbitrary: s k)
  case Nil
  have "written c k [] s = s" using Nil
    by (simp add: written_def set_client_def set_response_def fun_upd_idem)
  then show ?case using reach_start [of "(=) s" s] by simp
next
  case (Cons x xs)
  let ?ch = "(responses (ctl s) c)\<lparr> mbuf := xs \<rparr>"
  let ?u = "write_response c k x ?ch s" and ?k = "k\<lparr> c_out := c_out k @ [x @ crlf] \<rparr>"
  have "recv (responses (ctl s) c) = Some (x, ?ch)" using Cons.prems(1) by (simp add: recv_def)
  then have "control_step J s ?u" using Cons.prems by (intro writer_response) auto
  moreover have "reach_in ((=) ?u) (control_step J) (length xs) (written c ?k xs ?u)"
    using Cons.prems by (intro Cons.IH) (simp_all add: write_response_def set_client_def set_response_def)
  moreover have "written c ?k xs ?u = written c k (x # xs) s"
    by (simp add: written_def write_response_def set_client_def set_response_def)
  ultimately show ?case using reach_cons [of "control_step J" s ?u] by simp
qed

text \<open>The upstream task writes what is queued for the telescope.\<close>

definition quiet_env :: "json_codec \<Rightarrow> env" where
  "quiet_env J = undefined\<lparr> codec := J, warn_enabled := False, debug_enabled := False \<rparr>"

definition transmitted :: "string list \<Rightarrow> sys \<Rightarrow> sys" where
  "transmitted xs s =
     s\<lparr> ctl := (ctl s)\<lparr> upstream := (upstream (ctl s))\<lparr> mbuf := [] \<rparr> \<rparr>, wire := wire s @ map (\<lambda>x. x @ crlf) xs \<rparr>"

lemma upstream_empties:
  "mbuf (upstream (ctl s)) = xs \<Longrightarrow> link s = Connected j \<Longrightarrow>
     reach_in ((=) s) (control_step J) (length xs) (transmitted xs s)"
proof (induction xs arbitrary: s)
  case Nil
  have "transmitted [] s = s" using Nil by (simp add: transmitted_def)
  then show ?case using reach_start [of "(=) s" s] by simp
next
  case (Cons x xs)
  let ?up = "(upstream (ctl s))\<lparr> mbuf := xs \<rparr>"
  let ?u = "write_upstream (quiet_env J) True x ?up s"
  have u: "?u = s\<lparr> ctl := (ctl s)\<lparr> upstream := ?up \<rparr>, wire := wire s @ [x @ crlf] \<rparr>"
    by (simp add: write_upstream_def Let_def slice_panics_def quiet_env_def)
  have "recv (upstream (ctl s)) = Some (x, ?up)" using Cons.prems(1) by (simp add: recv_def)
  then have "control_step J s ?u" using Cons.prems by (intro writes [where j = j]) (auto simp: quiet_env_def)
  moreover have "reach_in ((=) ?u) (control_step J) (length xs) (transmitted xs ?u)"
    using Cons.prems by (intro Cons.IH) (simp_all add: u)
  moreover have "transmitted xs ?u = transmitted (x # xs) s" by (simp add: u transmitted_def)
  ultimately show ?case using reach_cons [of "control_step J" s ?u] by simp
qed

section \<open>Progress\<close>

lemma reader_route_found:
  assumes "map_of (pending t) rid = Some p"
  shows "snd (reader_route e run msg x rid t) = RDelivering (client_tx p) (restored_response e msg p)"
    "pending (fst (reader_route e run msg x rid t)) = AList.delete rid (pending t)"
    "responses (fst (reader_route e run msg x rid t)) = responses t"
  using assms by (simp_all add: reader_route_def Let_def with_metrics_def remove_pending_def)

lemma send_response_empty:
  "mopen (responses s c) \<Longrightarrow> mbuf (responses s c) = [] \<Longrightarrow> mcap (responses s c) = 64 \<Longrightarrow>
     send_response c x s = Some (set_response c ((responses s c)\<lparr> mbuf := [x] \<rparr>) s)"
  by (simp add: send_response_def poll_send_def try_send_def)

lemma written_frame [simp]:
  "readers (written c k xs s) = readers s" "lock_holder (written c k xs s) = lock_holder s"
  "clients (written c k xs s) c = Some (k\<lparr> c_out := c_out k @ map (\<lambda>x. x @ crlf) xs \<rparr>)"
  "pending (ctl (written c k xs s)) = pending (ctl s)"
  "responses (ctl (written c k xs s)) c = (responses (ctl s) c)\<lparr> mbuf := [] \<rparr>"
  by (simp_all add: written_def set_client_def set_response_def)

text \<open>A delivery under way can always be completed: the client's writer makes room, takes the response and
  writes it.\<close>

lemma delivery_completes:
  assumes "chan_inv s" and "readers s j = Some r" and "r_pc r = RDelivering c x"
    and "clients s c = Some k" and "c_writer k"
  shows "\<exists>m t k'. reach_in ((=) s) (control_step J) m t \<and> clients t c = Some k' \<and>
     c_out k' = c_out k @ map (\<lambda>y. y @ crlf) (mbuf (responses (ctl s) c) @ [x]) \<and>
     pending (ctl t) = pending (ctl s) \<and> readers t j = Some (r\<lparr> r_pc := RIdle \<rparr>)"
proof -
  let ?xs = "mbuf (responses (ctl s) c)"
  let ?k1 = "k\<lparr> c_out := c_out k @ map (\<lambda>y. y @ crlf) ?xs \<rparr>"
  let ?s1 = "written c k ?xs s"
  have o: "mopen (responses (ctl s) c)" "mcap (responses (ctl s) c) = 64" using assms by (auto simp: chan_inv_def)
  let ?t2 = "set_response c ((responses (ctl ?s1) c)\<lparr> mbuf := [x] \<rparr>) (ctl ?s1)"
  let ?s2 = "move_reader j r (?t2, RIdle) ?s1"
  have "send_response c x (ctl ?s1) = Some ?t2" using o by (intro send_response_empty) simp_all
  then have 2: "control_step J ?s1 ?s2" using assms by (intro reader_delivers) simp_all
  have m: "mbuf (responses (ctl ?s2) c) = [x]" "clients ?s2 c = Some ?k1" "pending (ctl ?s2) = pending (ctl s)"
    "readers ?s2 j = Some (r\<lparr> r_pc := RIdle \<rparr>)"
    by (simp_all add: move_reader_def set_reader_def set_response_def)
  have 3: "reach_in ((=) ?s2) (control_step J) (length [x]) (written c ?k1 [x] ?s2)"
    using m assms(5) by (intro writer_empties) simp_all
  have "reach_in ((=) s) (control_step J) (Suc (length ?xs)) ?s2"
    by (rule reach_snoc [OF writer_empties [OF refl assms(4,5)] 2])
  from reach_append [OF 3 this] m show ?thesis by fastforce
qed

text \<open>A response that was read goes to the client that asked.\<close>

lemma response_path:
  assumes "reach_in sys_start (control_step J) n s"
    and "readers s j = Some r" and "r_pc r = RLocking msg line rid" and "lock_holder s = None"
    and "map_of (pending (ctl s)) rid = Some p" and "clients s (client_tx p) = Some k" and "c_writer k"
  shows "\<exists>m t k'. reach_in ((=) s) (control_step J) m t \<and> clients t (client_tx p) = Some k' \<and>
     c_out k' = c_out k @ map (\<lambda>y. y @ crlf) (mbuf (responses (ctl s) (client_tx p)) @
       [case to_string J (set_json_rpc_id_value msg (original_id p)) of Some y \<Rightarrow> y | None \<Rightarrow> []]) \<and>
     map_of (pending (ctl t)) rid = None"
proof -
  let ?q = "reader_route (quiet_env J) undefined msg line rid (ctl s)"
  let ?s1 = "move_reader j r ?q s"
  let ?x = "case to_string J (set_json_rpc_id_value msg (original_id p)) of Some y \<Rightarrow> y | None \<Rightarrow> []"
  note f = reader_route_found [OF assms(5), of "quiet_env J" undefined msg line]
  have e: "codec (quiet_env J) = J" by (simp add: quiet_env_def)
  have 1: "control_step J s ?s1" by (rule reader_routes [OF e assms(2-4)])
  have "chan_inv ?s1" by (rule chan_inv_step [OF chans.reach_inv [OF assms(1)] 1])
  moreover have "readers ?s1 j = Some (r\<lparr> r_pc := RDelivering (client_tx p) ?x \<rparr>)"
    using f(1) e by (simp add: move_reader_def set_reader_def case_prod_beta restored_response_def)
  moreover have "clients ?s1 (client_tx p) = Some k" using assms(6) by simp
  ultimately obtain m t k' where t: "reach_in ((=) ?s1) (control_step J) m t" "clients t (client_tx p) = Some k'"
    "c_out k' = c_out k @ map (\<lambda>y. y @ crlf) (mbuf (responses (ctl ?s1) (client_tx p)) @ [?x])" "pending (ctl t) = pending (ctl ?s1)"
    using delivery_completes [of ?s1 j _ "client_tx p" ?x k J] assms(7) by (metis (no_types, lifting) reader.select_convs(1) reader.surjective reader.update_convs(1))
  moreover have "responses (ctl ?s1) = responses (ctl s)"
    using f by (simp add: move_reader_def case_prod_beta)
  moreover have "map_of (pending (ctl ?s1)) rid = None" using f(2) by (simp add: delete_conv')
  ultimately show ?thesis using reach_cons [OF 1 t(1)] by metis
qed

text \<open>Likewise a request that got its identifier.\<close>

lemma request_path:
  assumes "reach_in sys_start (control_step J) n s"
    and "clients s c = Some k" and "c_pc k = AwaitLock rid oid line" and "lock_holder s = None"
    and "length (pending (ctl s)) < 1024" and "link s = Connected j"
  shows "\<exists>m t. reach_in ((=) s) (control_step J) m t \<and>
     wire t = wire s @ map (\<lambda>y. y @ crlf) (mbuf (upstream (ctl s)) @ [line]) \<and>
     map_of (pending (ctl t)) rid = Some \<lparr> client_tx = c, original_id = oid \<rparr> \<and> link t = Connected j \<and>
     clients t c = Some (k\<lparr> c_pc := Reading \<rparr>) \<and> lock_holder t = None \<and> readers t = readers s \<and> responses (ctl t) = responses (ctl s)"
proof -
  let ?p = "AList.update rid \<lparr> client_tx = c, original_id = oid \<rparr> (pending (ctl s))"
  let ?k1 = "k\<lparr> c_pc := SendingRequest rid line \<rparr>"
  let ?s1 = "(set_client c ?k1 s)\<lparr> ctl := (ctl s)\<lparr> pending := ?p \<rparr> \<rparr>"
  have "control_step J s (lock_and_register (quiet_env J) c k rid oid line s)"
    by (rule client_locks) (use assms in \<open>simp_all add: quiet_env_def\<close>)
  moreover have "lock_and_register (quiet_env J) c k rid oid line s = ?s1"
    using assms(5) by (simp add: lock_and_register_def register_request_def MAX_PENDING_REQUESTS_def move_client_def set_client_def)
  ultimately have 1: "control_step J s ?s1" by simp
  let ?xs = "mbuf (upstream (ctl s))"
  let ?s2 = "transmitted ?xs ?s1"
  have 2: "reach_in ((=) ?s1) (control_step J) (length ?xs) ?s2"
    using assms(6) by (intro upstream_empties [where j = j]) (simp_all add: set_client_def)
  have o: "mopen (upstream (ctl s))" "mcap (upstream (ctl s)) = 256"
    using chans.reach_inv [OF assms(1)] assms(6) by (auto simp: chan_inv_def)
  let ?t3 = "(ctl ?s2)\<lparr> upstream := (upstream (ctl ?s2))\<lparr> mbuf := [line] \<rparr> \<rparr>"
  let ?s3 = "move_client c ?k1 (?t3, Reading) ?s2"
  have "send_request rid line (ctl ?s2) = Some (?t3, Reading)"
    using o by (simp add: send_request_def poll_send_def try_send_def transmitted_def)
  then have 3: "control_step J ?s2 ?s3"
    by (rule client_sends [rotated 2]) (simp_all add: transmitted_def set_client_def)
  have 4: "reach_in ((=) ?s3) (control_step J) (length [line]) (transmitted [line] ?s3)"
    using assms(6) by (intro upstream_empties [where j = j]) (simp_all add: move_client_def transmitted_def set_client_def)
  have "reach_in ((=) s) (control_step J) (Suc (length ?xs)) ?s2"
    by (rule reach_cons [where step = "control_step J", OF 1 2])
  then have "reach_in ((=) s) (control_step J) (Suc (Suc (length ?xs))) ?s3"
    using 3 by (rule reach_snoc [where step = "control_step J"])
  note r = reach_append [OF 4 this]
  have "wire (transmitted [line] ?s3) = wire s @ map (\<lambda>y. y @ crlf) (?xs @ [line])"
    "map_of (pending (ctl (transmitted [line] ?s3))) rid = Some \<lparr> client_tx = c, original_id = oid \<rparr>"
    "link (transmitted [line] ?s3) = Connected j" "clients (transmitted [line] ?s3) c = Some (k\<lparr> c_pc := Reading \<rparr>)"
    "lock_holder (transmitted [line] ?s3) = None" "readers (transmitted [line] ?s3) = readers s"
    "responses (ctl (transmitted [line] ?s3)) = responses (ctl s)"
    using assms(4,6) by (simp_all add: transmitted_def move_client_def set_client_def update_conv')
  with r show ?thesis by blast
qed

text \<open>C6. A response that the telescope gave to a pending request can always be delivered: when its line has been read
  and the lock is free, the tasks of the proxy alone can bring it to the client that asked, as long as
  the client's writer is alive, whatever is queued for the client before it; and the request is no
  longer pending then.\<close>

theorem response_delivered:
  assumes "reach_in sys_start (control_step J) n s"
    and "readers s j = Some r" and "r_pc r = RLocking msg line rid" and "lock_holder s = None"
    and "map_of (pending (ctl s)) rid = Some p" and "clients s (client_tx p) = Some k" and "c_writer k"
  shows "\<exists>m t k'. reach_in ((=) s) (control_step J) m t \<and> clients t (client_tx p) = Some k' \<and>
     c_out k' = c_out k @ map (\<lambda>y. y @ crlf) (mbuf (responses (ctl s) (client_tx p)) @
       [case to_string J (set_json_rpc_id_value msg (original_id p)) of Some y \<Rightarrow> y | None \<Rightarrow> []]) \<and>
     map_of (pending (ctl t)) rid = None"
  using assms by (rule response_path)

text \<open>A request that got its identifier can always be brought to the telescope: when the lock is free, the limit
  not reached and a connection up, the tasks of the proxy alone can register it and write it, after
  all that was queued before it.\<close>

theorem request_forwarded:
  assumes "reach_in sys_start (control_step J) n s"
    and "clients s c = Some k" and "c_pc k = AwaitLock rid oid line" and "lock_holder s = None"
    and "length (pending (ctl s)) < 1024" and "link s = Connected j"
  shows "\<exists>m t. reach_in ((=) s) (control_step J) m t \<and>
     wire t = wire s @ map (\<lambda>y. y @ crlf) (mbuf (upstream (ctl s)) @ [line]) \<and>
     map_of (pending (ctl t)) rid = Some \<lparr> client_tx = c, original_id = oid \<rparr> \<and> link t = Connected j"
  using request_path [OF assms] by blast

theorem response_delivered_witness:
  "\<exists>m t k'. reach_in ((=) demo_looking) (control_step demo_codec) m t \<and> clients t 0 = Some k' \<and> c_out k' = [''{id:7}'' @ crlf]"
proof -
  let ?r = "\<lparr> r_pc = RLocking demo_remapped ''{id:100000}'' 100000, r_buf = [] \<rparr>"
  let ?k = "\<lparr> c_pc = Reading, c_evpos = 0, c_writer = True, c_out = [] \<rparr>"
  have s: "readers demo_looking 0 = Some ?r" "lock_holder demo_looking = None" "clients demo_looking (client_tx (snd demo_entry)) = Some ?k"
    "map_of (pending (ctl demo_looking)) 100000 = Some (snd demo_entry)" "mbuf (responses (ctl demo_looking) 0) = []"
    by (simp_all add: demo_looking_def demo_state_def demo_entry_def mpsc_channel_def)
  have x: "to_string demo_codec (set_json_rpc_id_value demo_remapped (original_id (snd demo_entry))) = Some ''{id:7}''"
    "client_tx (snd demo_entry) = 0"
    using demo_messages by (simp_all add: demo_entry_def)
  from response_delivered [OF demo_reaches_looking s(1) _ s(2,4,3)] x s(5) show ?thesis by auto
qed

theorem request_forwarded_witness:
  "\<exists>m t. reach_in ((=) demo_waiting) (control_step demo_codec) m t \<and> wire t = [''{id:100000}'' @ crlf]"
proof -
  let ?k = "\<lparr> c_pc = AwaitLock 100000 (Number (PosInt 7)) ''{id:100000}'', c_evpos = 0, c_writer = True, c_out = [] \<rparr>"
  have s: "clients demo_waiting 0 = Some ?k" "lock_holder demo_waiting = None" "length (pending (ctl demo_waiting)) < 1024"
    "link demo_waiting = Connected 0" "wire demo_waiting = []" "mbuf (upstream (ctl demo_waiting)) = []"
    by (simp_all add: demo_waiting_def demo_state_def)
  from request_forwarded [OF reach_step [where step = "control_step demo_codec", OF demo_connects demo_waits] s(1) _ s(2-4)] s(5,6)
  show ?thesis by auto
qed

end
