(* ===== verification/Control_Cycle.thy ===== *)
theory Control_Cycle
  imports Control_Progress
begin

text \<open>
  The whole way of a request through the control proxy (\<open>control::handle_client\<close>, the upstream task and
  \<open>control::upstream_reader_task\<close>): from the client's line to the telescope and from the telescope's
  answer back to the client.
\<close>

text \<open>A line with a request, and a line of the telescope that answers under an identifier.\<close>

definition request_line :: "json_codec \<Rightarrow> bytes \<Rightarrow> json \<Rightarrow> json \<Rightarrow> bool" where
  "request_line J line req oid \<longleftrightarrow> nl_pos line = Some (length line - 1) \<and> length line \<le> MAX_LINE_BYTES \<and>
     trim (from_utf8_lossy line) \<noteq> [] \<and> from_str J (trim (from_utf8_lossy line)) = Some req \<and> get_id req = Some oid"

definition answer_line :: "json_codec \<Rightarrow> bytes \<Rightarrow> json \<Rightarrow> u64 \<Rightarrow> bool" where
  "answer_line J ans msg rid \<longleftrightarrow> nl_pos ans = Some (length ans - 1) \<and> length ans \<le> 32 * 1024 \<and>
     trim (from_utf8_lossy (butlast ans)) \<noteq> [] \<and> method_hint (trim (from_utf8_lossy (butlast ans))) \<noteq> Panic \<and>
     from_str J (trim (from_utf8_lossy (butlast ans))) = Some msg \<and> \<not> is_event msg \<and> json_rpc_id msg = Some rid"

lemma nl_pos_nonempty: "nl_pos xs = Some n \<Longrightarrow> xs \<noteq> []"
  by (auto simp: nl_pos_Some)

text \<open>Reading the request gives it the next identifier.\<close>

lemma request_read:
  assumes "clients s c = Some k" and "c_pc k = Reading" and "ctl_hooks (ctl s) = None" and "request_line J line req oid"
    and "to_string J (set_json_rpc_id req (next_id (ctl s))) = Some fwd"
  shows "\<exists>t. control_step J s (move_client c k (t, AwaitLock (next_id (ctl s)) oid fwd) s) \<and>
    pending t = pending (ctl s) \<and> upstream t = upstream (ctl s) \<and> responses t = responses (ctl s)"
proof -
  let ?e = "quiet_env J" and ?n = "length line"
  have l: "nl_pos line = Some (?n - 1)" "line \<noteq> []" "?n \<le> MAX_LINE_BYTES" "trim (from_utf8_lossy line) \<noteq> []"
    "from_str J (trim (from_utf8_lossy line)) = Some req" "get_id req = Some oid"
    using assms(4) nl_pos_nonempty by (auto simp: request_line_def)
  have e: "codec ?e = J" by (simp add: quiet_env_def)
  have r: "read_line_limited [line] [] MAX_LINE_BYTES = (?n, line, [])" using l(1,2) by (simp add: read_line_limited_def consume_def)
  obtain t where "client_line ?e undefined ?n line (ctl s) = (t, AwaitLock (next_id (ctl s)) oid fwd)"
    "pending t = pending (ctl s)" "upstream t = upstream (ctl s)" "responses t = responses (ctl s)"
    using l e assms(3,5) by (auto simp: client_line_def client_message_def forward_request_def record_ctl_def with_metrics_def Let_def)
  moreover have "control_step J s (move_client c k (client_line ?e undefined ?n line (ctl s)) s)"
    using l(2) by (intro client_reads [OF e assms(1,2) _ r]) (simp add: chunks_wf_def)
  ultimately show ?thesis by metis
qed

text \<open>Reading the answer takes the reader to its lookup.\<close>

lemma answer_read:
  assumes "readers s j = Some \<lparr> r_pc = RIdle, r_buf = [] \<rparr>" and "answer_line J ans msg rid"
  shows "\<exists>u x. reach_in ((=) s) (control_step J) 2 u \<and> readers u j = Some \<lparr> r_pc = RLocking msg x rid, r_buf = [] \<rparr> \<and>
    lock_holder u = lock_holder s \<and> clients u = clients s \<and> pending (ctl u) = pending (ctl s) \<and> responses (ctl u) = responses (ctl s)"
proof -
  let ?e = "quiet_env J" and ?n = "length ans - 1" and ?x = "trim (from_utf8_lossy (butlast ans))"
  have a: "nl_pos ans = Some ?n" "ans \<noteq> []" "length ans \<le> 32 * 1024" "?x \<noteq> []" "method_hint ?x \<noteq> Panic"
    "from_str J ?x = Some msg" "\<not> is_event msg" "json_rpc_id msg = Some rid"
    using assms(2) nl_pos_nonempty by (auto simp: answer_line_def)
  have e: "codec ?e = J" by (simp add: quiet_env_def)
  have n0: "nl_pos [] = None" by (simp add: nl_pos_None)
  let ?r = "\<lparr> r_pc = RIdle, r_buf = ans \<rparr>"
  let ?s1 = "set_reader j ?r s"
  have 1: "control_step J s ?s1"
    using reader_reads [OF assms(1) _ _ _ a(2,3)] n0 by (simp add: buffer_overflow_def)
  have t: "take ?n ans = butlast ans" "drop (?n + 1) ans = []" using a(2) by (simp_all add: butlast_conv_take)
  obtain q where q: "reader_line ?e undefined (butlast ans) (ctl s) = (q, RLocking msg ?x rid)"
    "pending q = pending (ctl s)" "responses q = responses (ctl s)"
    using a e by (auto simp: reader_line_def record_ctl_def with_metrics_def Let_def)
  let ?s2 = "move_reader j (?r\<lparr> r_buf := drop (?n + 1) (r_buf ?r) \<rparr>) (reader_line ?e undefined (take ?n (r_buf ?r)) (ctl ?s1)) ?s1"
  have 2: "control_step J ?s1 ?s2" using a(1) by (intro reader_processes [OF e]) (simp_all add: set_reader_def)
  have s2: "?s2 = move_reader j \<lparr> r_pc = RIdle, r_buf = [] \<rparr> (q, RLocking msg ?x rid) ?s1"
    using t q(1) by (simp add: set_reader_def)
  have "reach_in ((=) s) (control_step J) 2 ?s2"
    using reach_snoc [where step = "control_step J", OF reach_one [where step = "control_step J", OF 1] 2] by (simp add: numeral_2_eq_2)
  then show ?thesis unfolding s2
    by (rule_tac x = "move_reader j \<lparr> r_pc = RIdle, r_buf = [] \<rparr> (q, RLocking msg ?x rid) ?s1" in exI, rule_tac x = ?x in exI)
      (simp add: move_reader_def set_reader_def q(2,3))
qed



end
