(* ===== verification/Replay.thy ===== *)
theory Replay
  imports Recorder Metrics Channels
begin

text \<open>
  \<open>src/replay.rs\<close>: loading a recorded session and playing it back.  The session directory is given
  by what reading it yields; the two derived deserialisers are those of \<open>record_codec\<close>.  Sleeps are
  collected as the pairs of timestamps whose difference is slept.
\<close>

section \<open>Loading\<close>

record control_entry =
  ce_timestamp :: f64
  ce_raw :: string

text \<open>\<open>Duration::from_secs_f64(d / n)\<close>, or two seconds.\<close>

datatype frame_gap = Quotient f64 u32 | TwoSeconds

record replay_session =
  control_messages :: "control_entry list"
  frame_paths :: "string list"
  frame_interval :: frame_gap

datatype dir_listing = NoDir | ListError | Listing "string list"

text \<open>The directory: \<open>manifest.json\<close> and \<open>control.jsonl\<close> as text (\<open>None\<close> if unreadable), the UTF-8
  names listed in \<open>frames/\<close> in any order, and the content of the frame files.\<close>

record session_dir =
  sd_manifest :: "string option"
  sd_control :: "string option"
  sd_frames :: dir_listing
  sd_read :: "string \<Rightarrow> bytes option"

datatype load_error = NoManifest | BadManifest | BadListing

definition strip_cr :: "string \<Rightarrow> string" where
  "strip_cr l = (if l \<noteq> [] \<and> last l = CHR 0x0D then butlast l else l)"

text \<open>\<open>str::lines\<close>: a line ends with LF or CR LF; the last one may have no ending.\<close>

fun str_lines :: "string \<Rightarrow> string \<Rightarrow> string list" where
  "str_lines cur [] = (if cur = [] then [] else [cur])"
| "str_lines cur (c # cs) = (if c = lf then strip_cr cur # str_lines [] cs else str_lines (cur @ [c]) cs)"

definition load_line :: "record_codec \<Rightarrow> string \<Rightarrow> control_entry list" where
  "load_line rc line =
     (let trimmed = trim line in
      if trimmed = [] then []
      else case de_line rc trimmed of
        Some entry \<Rightarrow>
          (if cl_direction entry = ''telescope''
           then [\<lparr> ce_timestamp = cl_timestamp entry, ce_raw = cl_raw entry \<rparr>] else [])
      | None \<Rightarrow> [])"

definition is_frame_name :: "string \<Rightarrow> bool" where
  "is_frame_name n \<longleftrightarrow> starts_with n ''frame_'' \<and> ends_with n ''.bin''"

definition f64_is_nan :: "f64 \<Rightarrow> bool" where
  "f64_is_nan b \<longleftrightarrow> f64_exp b = 2047 \<and> f64_man b \<noteq> 0"

definition f64_key :: "f64 \<Rightarrow> int" where
  "f64_key b = (let m = int (unat b mod 2 ^ 63) in if f64_sign b then - m else m)"

text \<open>The IEEE order: both zeros are equal, NaN compares with nothing.\<close>

definition f64_less :: "f64 \<Rightarrow> f64 \<Rightarrow> bool" where
  "f64_less a b \<longleftrightarrow> \<not> f64_is_nan a \<and> \<not> f64_is_nan b \<and> f64_key a < f64_key b"

definition frame_gap_of :: "u32 \<Rightarrow> f64 \<Rightarrow> frame_gap" where
  "frame_gap_of n d = (if 0 < n \<and> f64_less 0 d then Quotient d n else TwoSeconds)"

definition replay_load :: "record_codec \<Rightarrow> session_dir \<Rightarrow> load_error + replay_session" where
  "replay_load rc d = (case sd_manifest d of
      None \<Rightarrow> Inl NoManifest
    | Some text \<Rightarrow> (case de_manifest rc text of
        None \<Rightarrow> Inl BadManifest
      | Some (fcount, dur) \<Rightarrow>
          let msgs = (case sd_control d of
                        Some t \<Rightarrow> concat (map (load_line rc) (str_lines [] t)) | None \<Rightarrow> []);
              finish = (\<lambda>paths. Inr \<lparr> control_messages = msgs, frame_paths = sort paths,
                                      frame_interval = frame_gap_of fcount dur \<rparr>)
          in case sd_frames d of
               NoDir \<Rightarrow> finish []
             | ListError \<Rightarrow> Inl BadListing
             | Listing names \<Rightarrow> finish (filter is_frame_name names)))"

section \<open>Playing back\<close>

record player =
  pl_events :: "string bcast"
  pl_frames :: "bytes bcast"
  pl_handshake :: bool
  pl_metrics :: "metrics option"
  pl_sleeps :: "(f64 \<times> f64) list"

definition replay_entry_metrics :: "json_codec \<Rightarrow> clock \<Rightarrow> string \<Rightarrow> metrics \<Rightarrow> metrics" where
  "replay_entry_metrics J nw raw m =
     (let m1 = m\<lparr> control_rx := control_rx m + 1 \<rparr> in
      case from_str J raw of
        None \<Rightarrow> m1
      | Some v \<Rightarrow>
          let m2 = (if is_event v then m1\<lparr> control_events := control_events m1 + 1 \<rparr> else m1);
              meth = (case method_name v of Some s \<Rightarrow> s | None \<Rightarrow> ''?'')
          in push_log_with_payload nw ''ctrl-rx'' meth (Some raw) m2)"

text \<open>\<open>clk i\<close> is the clock at the \<open>i\<close>-th message.\<close>

fun replay_control ::
    "json_codec \<Rightarrow> (nat \<Rightarrow> clock) \<Rightarrow> nat \<Rightarrow> f64 option \<Rightarrow> control_entry list \<Rightarrow> player \<Rightarrow> player" where
  "replay_control J clk i prev_ts [] p = p"
| "replay_control J clk i prev_ts (entry # rest) p =
     (let ts = ce_timestamp entry;
          p1 = (case prev_ts of
                  Some prev \<Rightarrow> (if f64_less prev ts then p\<lparr> pl_sleeps := pl_sleeps p @ [(prev, ts)] \<rparr> else p)
                | None \<Rightarrow> p);
          p2 = p1\<lparr> pl_handshake := True \<rparr>;
          p3 = p2\<lparr> pl_metrics := map_option (replay_entry_metrics J (clk i) (ce_raw entry)) (pl_metrics p2) \<rparr>
      in replay_control J clk (Suc i) (Some ts) rest
           (p3\<lparr> pl_events := bsend (ce_raw entry) (pl_events p3) \<rparr>))"

definition frame_kind_name :: "u8 \<Rightarrow> string" where
  "frame_kind_name fid =
     (if fid = 23 then ''stack'' else if fid = 21 then ''preview'' else if fid = 20 then ''view''
      else ''frame'')"

definition replay_frame_metrics :: "clock \<Rightarrow> bytes \<Rightarrow> metrics \<Rightarrow> metrics" where
  "replay_frame_metrics nw data m =
     (let parsed = parse_header (take HEADER_SIZE data);
          m1 = m\<lparr> imaging_frames := imaging_frames m + 1,
                  imaging_bytes := imaging_bytes m + of_nat (length data) \<rparr>
      in push_log nw ''img-rx''
           (frame_kind_name (fh_id parsed) @ '' '' @ show_nat (unat (fh_width parsed)) @ ''x'' @
            show_nat (unat (fh_height parsed))) m1)"

fun replay_imaging ::
    "(string \<Rightarrow> bytes option) \<Rightarrow> (nat \<Rightarrow> clock) \<Rightarrow> nat \<Rightarrow> string list \<Rightarrow> player \<Rightarrow> player" where
  "replay_imaging rd clk i [] p = p"
| "replay_imaging rd clk i (path # rest) p = (case rd path of
      None \<Rightarrow> replay_imaging rd clk (Suc i) rest p
    | Some data \<Rightarrow>
        if length data < HEADER_SIZE then replay_imaging rd clk (Suc i) rest p
        else replay_imaging rd clk (Suc i) rest
          (p\<lparr> pl_metrics := map_option (replay_frame_metrics (clk i) data) (pl_metrics p),
              pl_frames := bsend data (pl_frames p) \<rparr>))"

section \<open>Playback\<close>

lemma replay_control_events:
  "bhist (pl_events (replay_control J clk i prev es p)) = bhist (pl_events p) @ map ce_raw es"
  by (induction es arbitrary: i prev p) (auto simp: Let_def bsend_def split: option.splits)

lemma replay_control_frames: "pl_frames (replay_control J clk i prev es p) = pl_frames p"
  by (induction es arbitrary: i prev p) (auto simp: Let_def split: option.splits)

lemma replay_imaging_frames:
  "bhist (pl_frames (replay_imaging rd clk i ps p)) =
     bhist (pl_frames p) @ filter (\<lambda>d. HEADER_SIZE \<le> length d) (List.map_filter rd ps)"
  by (induction ps arbitrary: i p) (auto simp: bsend_def map_filter_simps split: option.splits)

section \<open>Round trip\<close>

text \<open>What recording relies on serde for, stated of one line: the line serialises to one line of
  text that deserialises to it.\<close>

definition line_ok :: "record_codec \<Rightarrow> control_line \<Rightarrow> bool" where
  "line_ok rc l \<longleftrightarrow> (\<exists>j. ser_line rc l = Some j \<and> de_line rc j = Some l \<and> lf \<notin> set j \<and>
     j \<noteq> [] \<and> trim j = j \<and> strip_cr j = j)"

definition msg_line :: "control_msg \<Rightarrow> control_line" where
  "msg_line m = (case m of (ts, dir, raw) \<Rightarrow> \<lparr> cl_timestamp = ts, cl_direction = dir, cl_raw = raw \<rparr>)"

definition telescope_entries :: "control_msg list \<Rightarrow> control_entry list" where
  "telescope_entries ms =
     map (\<lambda>(ts, dir, raw). \<lparr> ce_timestamp = ts, ce_raw = raw \<rparr>) (filter (\<lambda>(ts, dir, raw). dir = ''telescope'') ms)"

lemma str_lines_append:
  "lf \<notin> set l \<Longrightarrow> str_lines cur (l @ lf # rest) = strip_cr (cur @ l) # str_lines [] rest"
  by (induction l arbitrary: cur) auto

lemma record_controls_Cons:
  "record_controls rc w (m # ms) r = record_controls rc w ms (record_control rc w (fst m) (fst (snd m)) (snd (snd m)) r)"
  by (simp add: record_controls_def case_prod_beta)

lemma record_controls_file:
  assumes "\<forall>m \<in> set ms. line_ok rc (msg_line m)"
  shows "\<exists>js. control_file (record_controls rc (\<lambda>_. True) ms r) =
           control_file r @ concat (map (\<lambda>j. j @ [lf]) js) \<and>
           list_all2 (\<lambda>m j. ser_line rc (msg_line m) = Some j \<and> de_line rc j = Some (msg_line m) \<and>
             lf \<notin> set j \<and> j \<noteq> [] \<and> trim j = j \<and> strip_cr j = j) ms js"
  using assms
proof (induction ms arbitrary: r)
  case (Cons m ms)
  obtain ts dir raw where m: "m = (ts, dir, raw)" by (cases m)
  from Cons.prems obtain j where j: "ser_line rc (msg_line m) = Some j" "de_line rc j = Some (msg_line m)"
    "lf \<notin> set j" "j \<noteq> []" "trim j = j" "strip_cr j = j" by (auto simp: line_ok_def)
  let ?r = "record_control rc (\<lambda>_. True) ts dir raw r"
  have c: "control_file ?r = control_file r @ j @ [lf]"
    using j(1) by (simp add: record_control_def Let_def msg_line_def m)
  from Cons.IH [of ?r] Cons.prems obtain js where
    "control_file (record_controls rc (\<lambda>_. True) ms ?r) = control_file ?r @ concat (map (\<lambda>j. j @ [lf]) js)"
    "list_all2 (\<lambda>m j. ser_line rc (msg_line m) = Some j \<and> de_line rc j = Some (msg_line m) \<and>
             lf \<notin> set j \<and> j \<noteq> [] \<and> trim j = j \<and> strip_cr j = j) ms js" by auto
  with c j show ?case by (intro exI [of _ "j # js"]) (simp add: record_controls_Cons m)
qed (simp add: record_controls_def)

lemma load_written:
  assumes "list_all2 (\<lambda>m j. ser_line rc (msg_line m) = Some j \<and> de_line rc j = Some (msg_line m) \<and>
             lf \<notin> set j \<and> j \<noteq> [] \<and> trim j = j \<and> strip_cr j = j) ms js"
  shows "concat (map (load_line rc) (str_lines [] (concat (map (\<lambda>j. j @ [lf]) js)))) = telescope_entries ms"
  using assms
proof (induction rule: list_all2_induct)
  case (Cons m ms j js)
  then have "str_lines [] ((j @ [lf]) @ concat (map (\<lambda>j. j @ [lf]) js)) =
      j # str_lines [] (concat (map (\<lambda>j. j @ [lf]) js))"
    by (simp add: str_lines_append)
  with Cons show ?case
    by (cases m) (simp add: load_line_def Let_def telescope_entries_def msg_line_def)
qed (simp add: telescope_entries_def)

lemma load_recorded:
  assumes "\<forall>m \<in> set ms. line_ok rc (msg_line m)"
  shows "concat (map (load_line rc) (str_lines [] (control_file (record_controls rc (\<lambda>_. True) ms recorder_new))))
           = telescope_entries ms"
  using record_controls_file [OF assms, of recorder_new] load_written
  by (auto simp: recorder_new_def)

text \<open>The names under which a list of images is stored, from a first index on.\<close>

definition frame_names :: "nat \<Rightarrow> (bytes \<times> bytes) list \<Rightarrow> string list" where
  "frame_names n fs = map (\<lambda>(i, h, p). frame_file (of_nat i) (frame_kind h)) (zip [n ..< n + length fs] fs)"

lemma frame_names_Cons: "frame_names n (f # fs) = frame_file (of_nat n) (frame_kind (fst f)) # frame_names (Suc n) fs"
proof -
  have "[n ..< n + length (f # fs)] = n # [Suc n ..< Suc n + length fs]"
    by (subst upt_conv_Cons) simp_all
  then show ?thesis by (cases f) (simp add: frame_names_def del: upt_Suc)
qed

lemma length_frame_names [simp]: "length (frame_names n fs) = length fs"
  by (simp add: frame_names_def)

lemma in_frame_names: "x \<in> set (frame_names n fs) \<Longrightarrow> \<exists>i k. n \<le> i \<and> i < n + length fs \<and> x = frame_file (of_nat i) k"
  by (auto simp: frame_names_def dest!: set_zip_leftD)

lemma frame_names_sorted: "n + length fs \<le> 10000 \<Longrightarrow> sorted_wrt (<) (frame_names n fs)"
proof (induction fs arbitrary: n)
  case (Cons f fs)
  then show ?case by (auto simp: frame_names_Cons dest!: in_frame_names intro!: frame_file_less)
qed (simp add: frame_names_def)

lemma update_new: "k \<notin> fst ` set al \<Longrightarrow> AList.update k v al = al @ [(k, v)]"
  by (induction al) auto

lemma frame_file_inj:
  assumes "i < 10000" "j < 10000" "frame_file (of_nat i) k = frame_file (of_nat j) k'" shows "i = j"
proof (rule ccontr)
  assume "i \<noteq> j"
  then consider "i < j" | "j < i" by linarith
  then show False using frame_file_less [of i j k k'] frame_file_less [of j i k' k] assms by cases auto
qed

lemma record_frames_files:
  assumes "\<forall>f \<in> set fs. is_image (parse_header (fst f))" and "n + length fs \<le> 10000"
    and "frame_counter r = of_nat n"
    and "\<forall>x \<in> fst ` set (files r). \<exists>i k. i < n \<and> x = ''frames/'' @ frame_file (of_nat i) k"
  shows "files (record_frames (\<lambda>_. True) fs r) = files r @ zip (map (\<lambda>x. ''frames/'' @ x) (frame_names n fs)) (map (\<lambda>(h, p). h @ p) fs)"
  using assms
proof (induction fs arbitrary: n r)
  case (Cons f fs)
  obtain h p where f: "f = (h, p)" by (cases f)
  let ?r = "record_frame (\<lambda>_. True) h p r" and ?k = "''frames/'' @ frame_file (of_nat n) (frame_kind h)"
  have im: "is_image (parse_header h)" using Cons.prems(1) f by simp
  have new: "?k \<notin> fst ` set (files r)"
  proof
    assume "?k \<in> fst ` set (files r)"
    with Cons.prems(4) obtain i k where "i < n" "frame_file (of_nat n) (frame_kind h) = frame_file (of_nat i) k"
      by (meson same_append_eq)
    with Cons.prems(2) show False using frame_file_inj [of n i] by auto
  qed
  have files: "files ?r = files r @ [(?k, h @ p)]" and cnt: "frame_counter ?r = of_nat (Suc n)"
    using record_frame_image [OF im, of p r] new Cons.prems(3) by (simp_all add: update_new)
  have old: "\<forall>x \<in> fst ` set (files ?r). \<exists>i k. i < Suc n \<and> x = ''frames/'' @ frame_file (of_nat i) k"
  proof
    fix x assume "x \<in> fst ` set (files ?r)"
    then consider "x \<in> fst ` set (files r)" | "x = ?k" by (auto simp: files)
    then show "\<exists>i k. i < Suc n \<and> x = ''frames/'' @ frame_file (of_nat i) k"
      using Cons.prems(4) less_SucI by cases blast+
  qed
  have "files (record_frames (\<lambda>_. True) fs ?r) =
      files ?r @ zip (map (\<lambda>x. ''frames/'' @ x) (frame_names (Suc n) fs)) (map (\<lambda>(h, p). h @ p) fs)"
    by (rule Cons.IH) (use Cons.prems(1,2) cnt old in simp_all)
  with files f show ?case by (simp add: record_frames_def frame_names_Cons)
qed (simp add: record_frames_def frame_names_def)

lemma map_filter_zip:
  "distinct ks \<Longrightarrow> length ks = length vs \<Longrightarrow> List.map_filter (map_of (zip ks vs)) ks = vs"
  by (simp add: List.map_filter_def comp_def filter_id_conv map_of_zip_is_None dom_def)
    (auto simp: list_eq_iff_nth_eq map_of_zip_nth)

lemma frame_file_name: "is_frame_name (frame_file i k)"
  by (simp add: is_frame_name_def starts_with_def ends_with_def frame_file_def)

lemma sort_listing:
  assumes "distinct names" and "set names = set (frame_names 0 fs)" and "length fs \<le> 10000"
  shows "sort (filter is_frame_name names) = frame_names 0 fs"
proof -
  have "filter is_frame_name names = names"
    using assms(2) by (auto simp: filter_id_conv dest!: in_frame_names intro: frame_file_name)
  moreover have "sorted_wrt (<) (frame_names 0 fs)" using assms(3) by (intro frame_names_sorted) simp
  ultimately show ?thesis
    using assms(1,2) by (intro sorted_distinct_set_unique) (auto simp: strict_sorted_iff)
qed

lemma replay_names:
  assumes fs: "\<forall>f \<in> set fs. is_image (parse_header (fst f)) \<and> length (fst f) = HEADER_SIZE"
    and n: "length fs \<le> 10000" and r: "frame_counter r = 0" "files r = []"
  shows "filter (\<lambda>d. HEADER_SIZE \<le> length d)
     (List.map_filter (\<lambda>n. map_of (files (record_frames (\<lambda>_. True) fs r)) (''frames/'' @ n)) (frame_names 0 fs))
     = map (\<lambda>(h, p). h @ p) fs"
proof -
  let ?names = "frame_names 0 fs" and ?data = "map (\<lambda>(h, p). h @ p) fs"
  let ?ks = "map (\<lambda>x. ''frames/'' @ x) ?names"
  have files: "files (record_frames (\<lambda>_. True) fs r) = zip ?ks ?data"
    using record_frames_files [of fs 0 r] fs n r by simp
  have d: "distinct ?ks"
    using frame_names_sorted [of 0 fs] n by (auto simp: distinct_map strict_sorted_iff inj_on_def)
  have "List.map_filter (\<lambda>n. map_of (zip ?ks ?data) (''frames/'' @ n)) ?names =
      List.map_filter (map_of (zip ?ks ?data)) ?ks"
    by (simp add: List.map_filter_def filter_map comp_def)
  also have "\<dots> = ?data" by (rule map_filter_zip [OF d]) (simp add: frame_names_def)
  finally show ?thesis using fs by (simp add: files filter_id_conv case_prod_beta)
qed

text \<open>A directory left behind by a recording of the control messages \<open>ms\<close> and the frames \<open>fs\<close>, when
  every write succeeds; the listing may come in any order.\<close>

definition recorded :: "record_codec \<Rightarrow> control_msg list \<Rightarrow> (bytes \<times> bytes) list \<Rightarrow> recorder" where
  "recorded rc ms fs = record_frames (\<lambda>_. True) fs (record_controls rc (\<lambda>_. True) ms recorder_new)"

definition session_of :: "recorder \<Rightarrow> string \<Rightarrow> string list \<Rightarrow> session_dir \<Rightarrow> bool" where
  "session_of r man names d \<longleftrightarrow>
     sd_manifest d = Some man \<and> sd_control d = Some (control_file r) \<and> sd_frames d = Listing names \<and>
     distinct names \<and> set names = {n. ''frames/'' @ n \<in> fst ` set (files r)} \<and>
     sd_read d = (\<lambda>n. map_of (files r) (''frames/'' @ n))"

lemma record_controls_frame:
  "files (record_controls rc w ms r) = files r \<and> frame_counter (record_controls rc w ms r) = frame_counter r"
  by (induction ms arbitrary: r)
    (auto simp: record_controls_def record_control_def Let_def split: option.splits)

lemma record_frames_control: "control_file (record_frames w fs r) = control_file r"
proof -
  have "control_file (record_frame w h p r) = control_file r" for h p r
    by (simp add: record_frame_def Let_def fs_write_def)
  then show ?thesis by (induction fs arbitrary: r) (auto simp: record_frames_def)
qed

lemma recorded_replays:
  assumes "\<forall>m \<in> set ms. line_ok rc (msg_line m)" and "\<forall>f \<in> set fs. length (fst f) = HEADER_SIZE"
    and "length (image_frames fs) \<le> 10000"
    and "session_of (recorded rc ms fs) man names d" and "de_manifest rc man = Some (nf, dur)"
  shows "\<exists>sess. replay_load rc d = Inr sess \<and> frame_interval sess = frame_gap_of nf dur \<and>
     bhist (pl_events (replay_control J clk 0 None (control_messages sess) p)) =
       bhist (pl_events p) @ [raw. (ts, dir, raw) \<leftarrow> ms, dir = ''telescope''] \<and>
     bhist (pl_frames (replay_imaging (sd_read d) clk' 0 (frame_paths sess) p)) =
       bhist (pl_frames p) @ map (\<lambda>(h, pld). h @ pld) (image_frames fs)"
proof -
  let ?r0 = "record_controls rc (\<lambda>_. True) ms recorder_new" and ?im = "image_frames fs"
  have r: "recorded rc ms fs = record_frames (\<lambda>_. True) ?im ?r0"
    by (simp add: recorded_def flip: record_frames_images)
  have im: "\<forall>f \<in> set ?im. is_image (parse_header (fst f)) \<and> length (fst f) = HEADER_SIZE"
    using assms(2) by (auto simp: image_frames_def)
  have r0: "frame_counter ?r0 = 0" "files ?r0 = []"
    by (simp_all add: record_controls_frame recorder_new_def)
  have "files (recorded rc ms fs) = zip (map (\<lambda>x. ''frames/'' @ x) (frame_names 0 ?im)) (map (\<lambda>(h, p). h @ p) ?im)"
    using record_frames_files [of ?im 0 ?r0] im assms(3) r0 by (simp add: r)
  then have "fst ` set (files (recorded rc ms fs)) = (\<lambda>x. ''frames/'' @ x) ` set (frame_names 0 ?im)"
    using map_fst_zip [of "map (\<lambda>x. ''frames/'' @ x) (frame_names 0 ?im)" "map (\<lambda>(h, p). h @ p) ?im"]
    by (metis length_frame_names length_map list.set_map)
  then have "set names = set (frame_names 0 ?im)"
    using assms(4) by (auto simp: session_of_def)
  then have paths: "sort (filter is_frame_name names) = frame_names 0 ?im"
    using assms(3,4) by (intro sort_listing) (auto simp: session_of_def)
  have ctl: "concat (map (load_line rc) (str_lines [] (control_file (recorded rc ms fs)))) = telescope_entries ms"
    using load_recorded [OF assms(1)] by (simp add: recorded_def record_frames_control)
  let ?s = "\<lparr> control_messages = telescope_entries ms, frame_paths = frame_names 0 ?im,
             frame_interval = frame_gap_of nf dur \<rparr>"
  have "replay_load rc d = Inr ?s"
    using assms(4,5) paths ctl by (simp add: replay_load_def session_of_def)
  moreover have "map ce_raw (telescope_entries ms) = [raw. (ts, dir, raw) \<leftarrow> ms, dir = ''telescope'']"
    by (induction ms) (auto simp: telescope_entries_def)
  moreover have "filter (\<lambda>d. HEADER_SIZE \<le> length d) (List.map_filter (sd_read d) (frame_names 0 ?im)) =
      map (\<lambda>(h, pld). h @ pld) ?im"
    using replay_names [OF im assms(3) r0] assms(4) by (simp add: r session_of_def)
  ultimately show ?thesis by (simp add: replay_control_events replay_imaging_frames)
qed

text \<open>A directory that holds what a recorder has written, in some order of its listing.\<close>

definition on_disk :: "recorder \<Rightarrow> string list \<Rightarrow> session_dir \<Rightarrow> bool" where
  "on_disk r names d \<longleftrightarrow>
     sd_manifest d = map_option from_bytes (map_of (files r) ''manifest.json'') \<and> sd_control d = Some (control_file r) \<and>
     sd_frames d = Listing names \<and> distinct names \<and> set names = {n. ''frames/'' @ n \<in> fst ` set (files r)} \<and>
     sd_read d = (\<lambda>n. map_of (files r) (''frames/'' @ n))"

lemma finalized_session:
  assumes "ser_manifest rc (session_manifest date dur r) = Some man" and "on_disk (finalize rc (\<lambda>_. True) date dur r) names d"
  shows "session_of r man names d"
proof -
  have f: "files (finalize rc (\<lambda>_. True) date dur r) = AList.update ''manifest.json'' (as_bytes man) (files r)"
    "control_file (finalize rc (\<lambda>_. True) date dur r) = control_file r"
    using assms(1) by (simp_all add: finalize_def fs_write_def)
  have "''frames/'' @ n \<in> fst ` set (AList.update ''manifest.json'' (as_bytes man) (files r)) \<longleftrightarrow> ''frames/'' @ n \<in> fst ` set (files r)" for n
    by (simp flip: dom_map_of_conv_image_fst add: AList.update_conv')
  then show ?thesis using assms(2) by (simp add: on_disk_def session_of_def f AList.update_conv')
qed

lemma recorded_frame_counter: "frame_counter (recorded rc ms fs) = of_nat (length (image_frames fs))"
proof -
  have i: "frame_counter (record_frames w gs r) = frame_counter r + of_nat (length gs)"
    if "\<forall>f \<in> set gs. is_image (parse_header (fst f))" for w gs r
    using that by (induction gs arbitrary: r) (auto simp: record_frames_def record_frame_def Let_def fs_write_def)
  have "\<forall>f \<in> set (image_frames fs). is_image (parse_header (fst f))" by (auto simp: image_frames_def)
  from i [OF this] show ?thesis
    by (simp add: recorded_def record_controls_frame recorder_new_def flip: record_frames_images)
qed

text \<open>Record and replay: loading the directory of a recording succeeds, and playing it back
  broadcasts exactly the messages that came from the telescope, in order and unchanged, and exactly the
  image frames, header and payload, in the order in which they arrived, for up to 10000 images.\<close>

theorem record_replay_roundtrip:
  assumes "\<forall>m \<in> set ms. line_ok rc (msg_line m)" and "\<forall>f \<in> set fs. length (fst f) = HEADER_SIZE"
    and "length (image_frames fs) \<le> 10000"
    and "session_of (recorded rc ms fs) man names d" and "de_manifest rc man = Some (nf, dur)"
  shows "\<exists>sess. replay_load rc d = Inr sess \<and>
     bhist (pl_events (replay_control J clk 0 None (control_messages sess) p)) =
       bhist (pl_events p) @ [raw. (ts, dir, raw) \<leftarrow> ms, dir = ''telescope''] \<and>
     bhist (pl_frames (replay_imaging (sd_read d) clk' 0 (frame_paths sess) p)) =
       bhist (pl_frames p) @ map (\<lambda>(h, pld). h @ pld) (image_frames fs)"
  using recorded_replays [OF assms] by blast

definition demo_rc :: record_codec where
  "demo_rc =
     \<lparr> ser_line = (\<lambda>l. Some (if cl_direction l = ''telescope'' then ''T'' @ cl_raw l else ''C'' @ cl_raw l)),
       de_line = (\<lambda>x. case x of c # raw \<Rightarrow>
          Some \<lparr> cl_timestamp = 0, cl_direction = (if c = CHR ''T'' then ''telescope'' else ''client''), cl_raw = raw \<rparr>
        | [] \<Rightarrow> None),
       ser_manifest = (\<lambda>_. Some ''{}''), de_manifest = (\<lambda>_. Some (1, 0)) \<rparr>"

definition demo_frame :: bytes where
  "demo_frame = encode_header 0 0 0 0 0
     \<lparr> fh_size = 1001, fh_code = 0, fh_id = 23, fh_width = 4, fh_height = 2 \<rparr>"

definition demo_msgs :: "control_msg list" where
  "demo_msgs = [(0, ''client'', ''ask''), (0, ''telescope'', ''answer'')]"

definition demo_dir :: session_dir where
  "demo_dir =
     \<lparr> sd_manifest = Some ''{}'', sd_control = Some (control_file (recorded demo_rc demo_msgs [(demo_frame, [1, 2])])),
       sd_frames = Listing [''frame_0000_stack.bin''],
       sd_read = (\<lambda>n. map_of (files (recorded demo_rc demo_msgs [(demo_frame, [1, 2])])) (''frames/'' @ n)) \<rparr>"

lemma demo_files:
  "files (recorded demo_rc demo_msgs [(demo_frame, p)]) =
     [(''frames/frame_0000_stack.bin'', demo_frame @ p)]"
proof -
  have "parse_header demo_frame = \<lparr> fh_size = 1001, fh_code = 0, fh_id = 23, fh_width = 4, fh_height = 2 \<rparr>"
    by (simp add: demo_frame_def)
  moreover have "pad4 0 = ''0000''" by code_simp
  ultimately show ?thesis
    by (simp add: recorded_def record_frames_def record_frame_def Let_def is_image_def fs_write_def
        record_controls_frame recorder_new_def frame_file_def)
qed

definition demo_player :: player where
  "demo_player =
     \<lparr> pl_events = broadcast_channel 256, pl_frames = broadcast_channel 16, pl_handshake = False,
       pl_metrics = Some metrics_new, pl_sleeps = [] \<rparr>"

definition demo_json :: json_codec where
  "demo_json = \<lparr> from_str = (\<lambda>_. Some Null), to_string = (\<lambda>_. None) \<rparr>"

definition demo_clock :: "nat \<Rightarrow> clock" where
  "demo_clock i = \<lparr> now_elapsed_ms = of_nat i, now_epoch_ms = of_nat i \<rparr>"

theorem record_replay_roundtrip_witness:
  "\<exists>sess. replay_load demo_rc demo_dir = Inr sess \<and>
     bhist (pl_events (replay_control demo_json demo_clock 0 None (control_messages sess) demo_player))
       = [''answer''] \<and>
     bhist (pl_frames (replay_imaging (sd_read demo_dir) demo_clock 0 (frame_paths sess) demo_player))
       = [demo_frame @ [1, 2]]"
proof -
  have "trim ''Task'' = ''Task''" "trim ''Cask'' = ''Cask''" "trim ''Tanswer'' = ''Tanswer''" by code_simp+
  then have a: "\<forall>m \<in> set demo_msgs. line_ok demo_rc (msg_line m)"
    by (simp add: demo_msgs_def line_ok_def demo_rc_def msg_line_def lf_def strip_cr_def)
  have im: "image_frames [(demo_frame, [1, 2])] = [(demo_frame, [1, 2])]"
    by (simp add: image_frames_def is_image_def demo_frame_def)
  have d: "session_of (recorded demo_rc demo_msgs [(demo_frame, [1, 2])]) ''{}'' [''frame_0000_stack.bin''] demo_dir"
    by (simp add: session_of_def demo_dir_def demo_files)
  have m: "de_manifest demo_rc ''{}'' = Some (1, 0)" by (simp add: demo_rc_def)
  have l: "length (fst (demo_frame, [1, 2])) = HEADER_SIZE" by (simp add: demo_frame_def)
  show ?thesis
    using record_replay_roundtrip [OF a _ _ d m, of demo_json demo_clock demo_player demo_clock] im l
    by (simp add: broadcast_channel_def demo_msgs_def demo_player_def)
qed

text \<open>From the 10001st image on the order is lost: the zero-padded names have four digits and
  are sorted as text, so the frame with index 10000 is played before the one with index 9999, whatever
  their kinds.\<close>

theorem replay_order_breaks_at_10000:
  "sort (filter is_frame_name [frame_file 9999 k, frame_file 10000 k']) = [frame_file 10000 k', frame_file 9999 k]"
proof -
  have "digit 9 = CHR ''9''" "digit 1 = CHR ''1''" "digit 0 = CHR ''0''" by code_simp+
  then have "pad4 9999 = ''9999''" "pad4 10000 = ''10000''"
    by (simp_all add: pad4_def show_nat_ge10 show_nat_lt10)
  then have "frame_file 10000 k' < frame_file 9999 k" by (simp add: frame_file_def)
  then show ?thesis by (auto simp: frame_file_name)
qed

end
