(* ===== verification/Replay_Mode.thy ===== *)
theory Replay_Mode
  imports Control_Demo Replay
begin

text \<open>
  \<open>control::run\<close> in replay mode.  There is no upstream task: a task drains what the clients send for the
  telescope, and another one plays the recorded messages into the event channel, while the clients are
  served as ever.  The tasks of the clients are those of \<open>control_step\<close>: as the link is down and no
  reader exists, none of the rules of the upstream tasks applies, and the heartbeat is left out.
\<close>

record replay_sys =
  rp :: sys
  rp_todo :: "control_entry list"
  rp_draining :: bool

definition replay_start :: "control_entry list \<Rightarrow> replay_sys \<Rightarrow> bool" where
  "replay_start es s \<longleftrightarrow> (\<exists>m r h. s =
     \<lparr> rp = \<lparr> ctl = control_init m r h, clients = (\<lambda>_. None), next_client = 0, lock_holder = None,
              readers = (\<lambda>_. None), next_conn = 0, link = LinkDead, wire = [], hb_msg = None \<rparr>,
       rp_todo = es, rp_draining = True \<rparr>)"

text \<open>One message of the recording.\<close>

definition play_entry :: "json_codec \<Rightarrow> clock \<Rightarrow> control_entry \<Rightarrow> control \<Rightarrow> control" where
  "play_entry J nw entry c =
     broadcast_event (ce_raw entry) (with_metrics (replay_entry_metrics J nw (ce_raw entry)) (c\<lparr> handshake_done := True \<rparr>))"

text \<open>One turn of the drain task: the log line slices the message.\<close>

definition drain_upstream :: "env \<Rightarrow> string \<Rightarrow> string mpsc \<Rightarrow> replay_sys \<Rightarrow> replay_sys" where
  "drain_upstream e msg up s =
     (if slice_panics (debug_enabled e) msg 120
      then s\<lparr> rp := (rp s)\<lparr> ctl := (ctl (rp s))\<lparr> upstream := close_rx up \<rparr> \<rparr>, rp_draining := False \<rparr>
      else s\<lparr> rp := (rp s)\<lparr> ctl := (ctl (rp s))\<lparr> upstream := up \<rparr> \<rparr> \<rparr>)"

inductive replay_step :: "json_codec \<Rightarrow> replay_sys \<Rightarrow> replay_sys \<Rightarrow> bool" for J where
  client_task: "control_step J (rp s) t \<Longrightarrow> hb_msg t = hb_msg (rp s) \<Longrightarrow> replay_step J s (s\<lparr> rp := t \<rparr>)"
| plays: "rp_todo s = entry # rest \<Longrightarrow>
    replay_step J s (s\<lparr> rp := (rp s)\<lparr> ctl := play_entry J nw entry (ctl (rp s)) \<rparr>, rp_todo := rest \<rparr>)"
| drains: "rp_draining s \<Longrightarrow> recv (upstream (ctl (rp s))) = Some (x, up) \<Longrightarrow>
    replay_step J s (drain_upstream e x up s)"

section \<open>Clients without a telescope\<close>

lemma upstream_frame [simp]:
  "upstream (record_ctl e d x s) = upstream s" "upstream (with_metrics f s) = upstream s"
  "upstream (broadcast_event x s) = upstream s" "upstream (set_response c ch s) = upstream s"
  "upstream (remove_pending rid s) = upstream s"
  by (simp_all add: record_ctl_def with_metrics_def broadcast_event_def set_response_def remove_pending_def)

lemma extends_open: "extends up up' \<Longrightarrow> mopen up' = mopen up"
  by (simp add: extends_def)

lemma hooks_open [simp]:
  "mopen (snd (on_request c g h run msg up)) = mopen up"
  "mopen (on_client_connect c g h run up) = mopen up" "mopen (on_client_disconnect c g h run up) = mopen up"
  by (simp_all add: extends_open)

lemma poll_send_open: "poll_send x ch = Sent ch' \<Longrightarrow> mopen ch' = mopen ch"
  by (auto simp: poll_send_def try_send_def split: if_splits)

lemma forward_request_upstream: "upstream (fst (forward_request e msg s)) = upstream s"
  by (simp add: forward_request_def Let_def split: option.splits)

lemma client_line_open: "mopen (upstream (fst (client_line e run n line s))) = mopen (upstream s)"
  by (simp add: client_line_def client_message_def Let_def case_prod_beta forward_request_upstream
      split: option.splits hook_action.splits)

text \<open>A step of a client neither brings the link up nor closes the queue to the telescope, and as long as
  that queue is open no request leaves the pending map.\<close>

definition offline :: "sys \<Rightarrow> bool" where
  "offline s \<longleftrightarrow> link s = LinkDead \<and> readers s = (\<lambda>_. None)"

lemma offline_step:
  assumes "offline s" and "control_step J s t"
  shows "offline t \<and> mopen (upstream (ctl t)) = mopen (upstream (ctl s)) \<and>
     (mopen (upstream (ctl s)) \<longrightarrow> keys (pending (ctl s)) \<subseteq> keys (pending (ctl t)))"
  using assms(2,1)
proof cases
  case (client_sends c k rid f t' pc)
  then show ?thesis using assms(1)
    by (auto simp: send_request_def offline_def move_client_def set_client_def poll_send_open poll_send_Failed
        split: send_poll.splits if_splits)
next
  case (client_reads e c k cs n line rest run)
  have "keys (pending (ctl s)) = keys (pending (fst (client_line e run n line (ctl s))))"
    using client_line_ok [of "ctl s" e run n line] by (simp add: reads_ok_def)
  then show ?thesis using client_reads assms(1) client_line_open [of e run n line "ctl s"]
    by (auto simp: offline_def move_client_def set_client_def case_prod_beta split: if_splits)
next
  case (client_locks e c k rid oid f)
  then show ?thesis using assms(1)
    by (auto simp: offline_def lock_and_register_def register_request_def move_client_def set_client_def Let_def)
qed (auto simp: offline_def accept_client_def finish_client_def move_client_def set_client_def write_response_def
    write_event_def writer_stops_def heartbeat_tick_def Let_def send_response_def send_note_def poll_send_open
    split: option.splits if_splits send_poll.splits)

section \<open>The router in replay mode\<close>

definition replay_inv :: "replay_sys \<Rightarrow> bool" where
  "replay_inv s \<longleftrightarrow> sys_inv (rp s) \<and> offline (rp s) \<and> (rp_draining s \<longrightarrow> mopen (upstream (ctl (rp s))))"

lemma abst_ctl:
  assumes "pending c = pending (ctl s)" and "next_id c = next_id (ctl s)"
  shows "abst (s\<lparr> ctl := c \<rparr>) = abst s" "sys_inv (s\<lparr> ctl := c \<rparr>) = sys_inv s" "offline (s\<lparr> ctl := c \<rparr>) = offline s"
  using assms by (simp_all add: abst_def sys_inv_def holds_lock_def offline_def)

lemma play_entry_frame [simp]:
  "pending (play_entry J nw entry c) = pending c" "next_id (play_entry J nw entry c) = next_id c"
  "upstream (play_entry J nw entry c) = upstream c"
  by (simp_all add: play_entry_def)

lemma recv_open: "recv ch = Some (x, ch') \<Longrightarrow> mopen ch' = mopen ch"
  by (auto simp: recv_def split: list.splits)

lemma drain_upstream_frame:
  "abst (rp (drain_upstream e x up s)) = abst (rp s)" "sys_inv (rp (drain_upstream e x up s)) = sys_inv (rp s)"
  "offline (rp (drain_upstream e x up s)) = offline (rp s)"
  "rp_draining (drain_upstream e x up s) \<Longrightarrow> rp_draining s \<and> upstream (ctl (rp (drain_upstream e x up s))) = up"
  by (auto simp: drain_upstream_def abst_ctl split: if_splits)

interpretation rsim: refinement "replay_start es" "replay_step J" router_start router_step "\<lambda>s. abst (rp s)" replay_inv for es J
proof unfold_locales
  fix s assume "replay_start es s"
  then show "router_start (abst (rp s)) \<and> replay_inv s"
    by (auto simp: replay_start_def router_start_def replay_inv_def offline_def abst_def want_def fun_eq_iff control_init_def
        sys_inv_def holds_lock_def mpsc_channel_def)
next
  fix s t assume inv: "replay_inv s" and "replay_step J s t"
  from this(2) show "replay_inv t"
  proof cases
    case (client_task u)
    then show ?thesis using inv control_step_inv [of "rp s" J u] offline_step [of "rp s" J u] by (auto simp: replay_inv_def)
  qed (use inv in \<open>auto simp: replay_inv_def abst_ctl drain_upstream_frame recv_open dest: drain_upstream_frame(4)\<close>)
next
  fix s t assume inv: "replay_inv s" and "replay_step J s t"
  from this(2) show "router_step (abst (rp s)) (abst (rp t))"
  proof cases
    case (client_task u)
    then show ?thesis using inv control_step_sim [of "rp s" J u] by (auto simp: replay_inv_def)
  qed (auto simp: abst_ctl drain_upstream_frame intro: r_skip)
qed

text \<open>As long as the drain task lives, the pending map only grows.\<close>

lemma replay_keys_grow:
  assumes "replay_inv s" and "replay_step J s t" and "rp_draining t"
  shows "rp_draining s \<and> keys (pending (ctl (rp s))) \<subseteq> keys (pending (ctl (rp t)))"
  using assms(2)
proof cases
  case (client_task u)
  then show ?thesis using assms offline_step [of "rp s" J u] by (auto simp: replay_inv_def)
next
  case (drains x up e)
  then show ?thesis using assms(3) by (auto simp: drain_upstream_def split: if_splits)
qed (use assms(3) in auto)

lemma replay_entries_stay:
  assumes "reach_in ((=) s) (replay_step J) m t" and "reach_in (replay_start es) (replay_step J) n s"
    and "100000 + n + m < 2 ^ 64" and "rp_draining t" and "map_of (pending (ctl (rp s))) rid = Some p"
  shows "map_of (pending (ctl (rp t))) rid = Some p"
  using assms
proof (induction rule: reach_in.induct)
  case (reach_step m u t)
  have r: "reach_in (replay_start es) (replay_step J) (n + m) u"
    by (rule reach_append [OF reach_step.hyps(1) reach_step.prems(1)])
  have inv: "replay_inv u" by (rule rsim.reach_cinv [OF r])
  have "rp_draining u" and k: "keys (pending (ctl (rp u))) \<subseteq> keys (pending (ctl (rp t)))"
    using replay_keys_grow [OF inv reach_step.hyps(2) reach_step.prems(3)] by auto
  then have p: "map_of (pending (ctl (rp u))) rid = Some p" using reach_step by simp
  then have "rid \<in> keys (pending (ctl (rp t)))" using k by (force simp: keys_dom)
  moreover have "map_of (pending (ctl (rp t))) rid = Some p \<or> map_of (pending (ctl (rp t))) rid = None"
    using router_entry_stable [OF fresh.reach_inv [OF rsim.reach_refines [OF r]] _ rsim.step_sim [OF inv reach_step.hyps(2)], of rid p]
      p reach_step.prems(2) by (simp add: abst_def)
  ultimately show ?case by (auto simp: keys_dom)
qed simp


text \<open>The messages that are played are those that \<open>replay_control\<close> sends, in its order.\<close>

fun play_all :: "json_codec \<Rightarrow> (nat \<Rightarrow> clock) \<Rightarrow> nat \<Rightarrow> control_entry list \<Rightarrow> control \<Rightarrow> control" where
  "play_all J clk i [] c = c"
| "play_all J clk i (en # es) c = play_all J clk (Suc i) es (play_entry J (clk i) en c)"

lemma play_all_replay_control:
  "events c = pl_events p \<Longrightarrow> ctl_metrics c = pl_metrics p \<Longrightarrow>
     events (play_all J clk i es c) = pl_events (replay_control J clk i prev es p) \<and>
     ctl_metrics (play_all J clk i es c) = pl_metrics (replay_control J clk i prev es p)"
proof (induction es arbitrary: i c prev p)
  case (Cons en es)
  then show ?case
    by (cases prev) (auto intro!: Cons.IH simp: Let_def play_entry_def broadcast_event_def with_metrics_def)
qed simp

section \<open>A concrete replay\<close>

definition replay_demo :: "u64 \<Rightarrow> (u64 \<times> pending_request) list \<Rightarrow> client_pc \<Rightarrow> replay_sys" where
  "replay_demo nid pend pc =
     \<lparr> rp = (demo_state nid pend [] False pc demo_idle [])\<lparr> readers := (\<lambda>_. None), next_conn := 0, link := LinkDead \<rparr>,
       rp_todo = [], rp_draining = True \<rparr>"

definition replay_demo_start :: replay_sys where
  "replay_demo_start = \<lparr> rp = demo_start\<lparr> link := LinkDead \<rparr>, rp_todo = [], rp_draining = True \<rparr>"

lemma replay_demo_accepts:
  "reach_in (replay_start []) (replay_step demo_codec) 1 (replay_demo 100000 [] Reading)"
proof -
  let ?s = "demo_start\<lparr> link := LinkDead \<rparr>"
  have "replay_start [] replay_demo_start"
    unfolding replay_start_def replay_demo_start_def demo_start_def by (intro exI [of _ None]) simp
  moreover have "control_step demo_codec ?s (accept_client demo_env demo_lua ?s)"
    by (rule accept) (simp_all add: demo_env_def)
  moreover have "accept_client demo_env demo_lua ?s = rp (replay_demo 100000 [] Reading)"
    by (simp add: replay_demo_def demo_defs accept_client_def Let_def set_client_def with_metrics_def set_response_def
        control_init_def mpsc_channel_def broadcast_channel_def subscribe_def)
  ultimately have "replay_step demo_codec replay_demo_start (replay_demo 100000 [] Reading)"
    using client_task [of demo_codec replay_demo_start "rp (replay_demo 100000 [] Reading)"]
    by (simp add: replay_demo_start_def replay_demo_def demo_state_def demo_start_def)
  with \<open>replay_start [] replay_demo_start\<close> show ?thesis by (rule reach_1 [of "replay_start []" replay_demo_start])
qed

lemma replay_demo_waits:
  "replay_step demo_codec (replay_demo 100000 [] Reading) (replay_demo 100001 [] (AwaitLock 100000 (Number (PosInt 7)) ''{id:100000}''))"
    (is "replay_step _ ?s ?t")
proof -
  let ?k = "\<lparr> c_pc = Reading, c_evpos = 0, c_writer = True, c_out = [] \<rparr>"
  have "control_step demo_codec (rp ?s) (move_client 0 ?k (client_line demo_env demo_lua 7 demo_line (ctl (rp ?s))) (rp ?s))"
    by (rule client_reads [where cs = "[demo_line]"])
      (simp_all add: demo_read_line, simp_all add: replay_demo_def demo_defs chunks_wf_def demo_line_def)
  moreover have "client_line demo_env demo_lua 7 demo_line (ctl (rp ?s)) =
      ((ctl (rp ?s))\<lparr> next_id := 100001 \<rparr>, AwaitLock 100000 (Number (PosInt 7)) ''{id:100000}'')"
    by (simp add: client_line_def demo_read client_message_def Let_def forward_request_def demo_messages MAX_LINE_BYTES_def)
      (simp add: replay_demo_def demo_defs demo_messages forward_request_def record_ctl_def with_metrics_def)
  ultimately have "control_step demo_codec (rp ?s) (rp ?t)"
    by (simp add: replay_demo_def demo_defs move_client_def set_client_def)
  then show ?thesis using client_task [of demo_codec ?s "rp ?t"] by (simp add: replay_demo_def demo_state_def)
qed

lemma replay_demo_registers:
  "replay_step demo_codec (replay_demo 100001 [] (AwaitLock 100000 (Number (PosInt 7)) ''{id:100000}''))
     (replay_demo 100001 [demo_entry] (SendingRequest 100000 ''{id:100000}''))" (is "replay_step _ ?s ?t")
proof -
  let ?k = "\<lparr> c_pc = AwaitLock 100000 (Number (PosInt 7)) ''{id:100000}'', c_evpos = 0, c_writer = True, c_out = [] \<rparr>"
  have "control_step demo_codec (rp ?s) (lock_and_register demo_env 0 ?k 100000 (Number (PosInt 7)) ''{id:100000}'' (rp ?s))"
    by (rule client_locks) (simp_all add: replay_demo_def demo_defs)
  then have "control_step demo_codec (rp ?s) (rp ?t)"
    by (simp add: replay_demo_def demo_defs lock_and_register_def register_request_def MAX_PENDING_REQUESTS_def Let_def
        move_client_def set_client_def)
  then show ?thesis using client_task [of demo_codec ?s "rp ?t"] by (simp add: replay_demo_def demo_state_def)
qed

definition replay_demo_left :: replay_sys where
  "replay_demo_left = (let s = replay_demo 100001 [demo_entry] (SendingRequest 100000 ''{id:100000}'')
     in s\<lparr> rp := writer_stops 0 \<lparr> c_pc = SendingRequest 100000 ''{id:100000}'', c_evpos = 0, c_writer = True, c_out = [] \<rparr> (rp s) \<rparr>)"


end
