(* ===== verification/Line_Text.thy ===== *)
theory Line_Text
  imports Line_Io
begin

text \<open>
  What becomes of a line of input when it is decoded and trimmed: no newline is left in it, so that a
  line that is forwarded stays one line.
\<close>

lemma second_ok_high: "second_ok b c \<Longrightarrow> 128 \<le> c"
  by (auto simp: second_ok_def split: if_splits)

lemma is_cont_high: "is_cont c \<Longrightarrow> 128 \<le> c"
  by (simp add: is_cont_def)

text \<open>The bytes a step consumes are one ASCII byte or all above the ASCII range.\<close>

lemma less_small: "i < (2 :: nat) \<longleftrightarrow> i = 0 \<or> i = 1" "i < (3 :: nat) \<longleftrightarrow> i = 0 \<or> i = 1 \<or> i = 2"
  "i < (4 :: nat) \<longleftrightarrow> i = 0 \<or> i = 1 \<or> i = 2 \<or> i = 3"
  by auto

lemma utf8_step_get:
  assumes "utf8_step bs = (v, n)"
  shows "n = 1 \<and> v \<and> safe_get bs 0 < 128 \<or> (\<forall>i<n. 128 \<le> safe_get bs i)"
  using assms
  by (auto simp: utf8_step_def Let_def less_small dest: second_ok_high is_cont_high split: if_splits)

lemma safe_get_high: "128 \<le> safe_get bs i \<Longrightarrow> i < length bs \<and> 128 \<le> bs ! i"
  by (simp add: safe_get_def split: if_splits)

lemma utf8_step_bytes:
  assumes "utf8_step bs = (v, n)" and "bs \<noteq> []"
  shows "n \<le> length bs \<and> (\<forall>b \<in> set (take n bs). 128 \<le> b) \<or> n = 1 \<and> v \<and> hd bs < 128"
proof (cases "n = 1 \<and> v \<and> safe_get bs 0 < 128")
  case True
  with assms(2) show ?thesis by (auto simp: safe_get_def hd_conv_nth)
next
  case False
  with utf8_step_get [OF assms(1)] have g: "\<forall>i<n. i < length bs \<and> 128 \<le> bs ! i" using safe_get_high by blast
  have "n \<le> length bs"
  proof (rule ccontr)
    assume "\<not> n \<le> length bs"
    with g [rule_format, of "length bs"] show False by simp
  qed
  with g show ?thesis by (auto simp: in_set_conv_nth)
qed

lemma lossy_no_lf: "10 \<notin> set bs \<Longrightarrow> 10 \<notin> set (lossy_codes bs)"
proof (induction bs rule: lossy_codes.induct)
  case (1 bs)
  show ?case
  proof (cases "bs = []")
    case False
    obtain v n where s: "utf8_step bs = (v, n)" by (cases "utf8_step bs")
    have "10 \<notin> set (lossy_codes (drop n bs))" "10 \<notin> set (take n bs)"
      using 1(1) [OF False s [symmetric]] 1(2) by (auto dest: in_set_dropD in_set_takeD)
    with s False show ?thesis by (simp add: lossy_codes.simps [of bs])
  qed (simp add: lossy_codes.simps)
qed

lemma lossy_lf_end: "10 \<notin> set bs \<Longrightarrow> \<exists>cs. lossy_codes (bs @ [10]) = cs @ [10] \<and> 10 \<notin> set cs"
proof (induction bs rule: length_induct)
  case (1 bs)
  show ?case
  proof (cases bs)
    case Nil
    have "lossy_codes [10] = [10]" by (simp add: lossy_codes.simps utf8_step_def safe_get_def)
    with Nil show ?thesis by simp
  next
    case (Cons b bs')
    obtain v n where s: "utf8_step (bs @ [10]) = (v, n)" by (cases "utf8_step (bs @ [10])")
    have pos: "0 < n" using utf8_step_pos [OF s] .
    have n: "n \<le> length bs"
    proof (rule ccontr)
      assume "\<not> n \<le> length bs"
      then have "10 \<in> set (take n (bs @ [10]))" by (cases "n - length bs") auto
      with utf8_step_bytes [OF s] Cons \<open>\<not> n \<le> length bs\<close> show False by auto
    qed
    have "10 \<notin> set (drop n bs)" using 1 by (auto dest: in_set_dropD)
    then obtain cs where "lossy_codes (drop n bs @ [10]) = cs @ [10]" "10 \<notin> set cs"
      using 1(1) [rule_format, of "drop n bs"] pos Cons by auto
    moreover have "10 \<notin> set (take n bs)" using 1 by (auto dest: in_set_takeD)
    ultimately show ?thesis
      using s n by (intro exI [of _ "(if v then take n bs else [239, 191, 189]) @ cs"])
        (simp add: lossy_codes.simps [of "bs @ [10]"])
  qed
qed

lemma trim_codes_drop: "\<exists>k. trim_codes f bs = drop k bs"
proof (induction f bs rule: trim_codes.induct)
  case (1 f bs)
  show ?case
  proof (cases "bs = [] \<or> f bs = 0")
    case True
    then show ?thesis by (intro exI [of _ 0]) (simp add: trim_codes.simps [of f bs])
  next
    case False
    with 1 obtain k where "trim_codes f (drop (f bs) bs) = drop k (drop (f bs) bs)" by blast
    with False show ?thesis by (intro exI [of _ "k + f bs"]) (simp add: trim_codes.simps [of f bs])
  qed
qed

lemma trim_codes_set: "set (trim_codes f bs) \<subseteq> set bs"
  using trim_codes_drop [of f bs] by (auto dest: in_set_dropD)

text \<open>A trimmed text with no line feed but one at its end has none.\<close>

lemma trim_no_lf:
  fixes cs :: "nat list"
  assumes "10 \<notin> set cs" and "\<forall>c \<in> set cs. c < 256"
  shows "CHR 0x0A \<notin> set (trim (map char_of cs))" "CHR 0x0A \<notin> set (trim (map char_of (cs @ [10])))"
proof -
  have of: "map of_char (map char_of bs) = (bs :: nat list)" if "\<forall>c \<in> set bs. c < 256" for bs
    using that by (induction bs) auto
  have lt: "\<forall>c \<in> set (trim_codes f bs). c < 256" if "\<forall>c \<in> set bs. c < 256" for f bs
    using that trim_codes_set by blast
  have ch: "CHR 0x0A \<notin> set (map char_of bs)" if "10 \<notin> set bs" "\<forall>c \<in> set bs. c < 256" for bs :: "nat list"
  proof
    assume "CHR 0x0A \<in> set (map char_of bs)"
    then obtain c where "c \<in> set bs" "CHR 0x0A = (char_of c :: char)" by auto
    then have "of_char CHR 0x0A = c" using that(2) by simp
    with \<open>c \<in> set bs\<close> that(1) show False by simp
  qed
  have t: "trim (map char_of bs) = map char_of (rev (trim_codes ws_len_rev (rev (trim_codes ws_len bs))))"
    if "\<forall>c \<in> set bs. c < 256" for bs
    using that lt [of bs ws_len] by (simp add: trim_def trim_end_def trim_start_def of del: map_map)
  have "set (rev (trim_codes ws_len_rev (rev (trim_codes ws_len cs)))) \<subseteq> set cs"
    using trim_codes_set [of ws_len_rev "rev (trim_codes ws_len cs)"] trim_codes_set [of ws_len cs] by auto
  then show "CHR 0x0A \<notin> set (trim (map char_of cs))"
    unfolding t [OF assms(2)] using assms by (intro ch) auto
  obtain k where k: "trim_codes ws_len (cs @ [10]) = drop k (cs @ [10])" using trim_codes_drop by blast
  have sub: "set (trim_codes ws_len_rev (rev (drop k (cs @ [10])))) \<subseteq> set cs"
  proof (cases "k \<le> length cs")
    case True
    then have "rev (drop k (cs @ [10])) = 10 # rev (drop k cs)" by simp
    moreover have "ws_len_rev (10 # rev (drop k cs)) = 1" by (simp add: ws_len_rev_def)
    ultimately have "trim_codes ws_len_rev (rev (drop k (cs @ [10]))) = trim_codes ws_len_rev (rev (drop k cs))"
      by (simp add: trim_codes.simps [of ws_len_rev "10 # rev (drop k cs)"])
    then show ?thesis using trim_codes_set [of ws_len_rev "rev (drop k cs)"] by (auto dest: in_set_dropD)
  next
    case False
    then show ?thesis by (simp add: trim_codes.simps)
  qed
  have "CHR 0x0A \<notin> set (map char_of (rev (trim_codes ws_len_rev (rev (drop k (cs @ [10]))))))"
    using sub assms by (intro ch) (auto simp del: drop_append)
  then show "CHR 0x0A \<notin> set (trim (map char_of (cs @ [10])))"
    using assms by (subst t) (auto simp: k simp del: drop_append)
qed


text \<open>The text of a line of input (at most one newline, at its end) has no newline once trimmed.\<close>

lemma lossy_lt: "\<forall>b \<in> set bs. b < 256 \<Longrightarrow> \<forall>b \<in> set (lossy_codes bs). b < 256"
proof (induction bs rule: lossy_codes.induct)
  case (1 bs)
  show ?case
  proof (cases "bs = []")
    case False
    obtain v n where s: "utf8_step bs = (v, n)" by (cases "utf8_step bs")
    have "\<forall>b \<in> set (lossy_codes (drop n bs)). b < 256" "\<forall>b \<in> set (take n bs). b < 256"
      using 1(1) [OF False s [symmetric]] 1(2) by (auto dest: in_set_dropD in_set_takeD)
    with s False show ?thesis by (auto simp: lossy_codes.simps [of bs])
  qed (simp add: lossy_codes.simps)
qed

lemma unat_10_nl: "10 = unat b \<Longrightarrow> b = nl" for b :: u8
  by (simp add: nl_def word_unat_eq_iff)

lemma u8_lt: "unat b < 256" for b :: u8
  using unsigned_less [of b, where 'a = nat] by simp

lemma line_text_no_lf:
  assumes "nl \<notin> set (butlast line)"
  shows "CHR 0x0A \<notin> set (trim (from_utf8_lossy line))"
proof (cases "line \<noteq> [] \<and> last line = nl")
  case True
  then have l: "line = butlast line @ [nl]" by (metis append_butlast_last_id)
  have u: "10 \<notin> set (map unat (butlast line))"
    using assms by (auto dest: sym dest!: unat_10_nl)
  then obtain cs where cs: "lossy_codes (map unat (butlast line) @ [10]) = cs @ [10]" "10 \<notin> set cs"
    using lossy_lf_end by blast
  have "\<forall>b \<in> set (cs @ [10]). b < 256"
    using lossy_lt [of "map unat (butlast line) @ [10]"] u8_lt by (simp add: cs(1))
  moreover have "map unat line = map unat (butlast line) @ [10]" by (subst l) (simp add: nl_def)
  ultimately show ?thesis using trim_no_lf(2) [OF cs(2)] cs(1) by (simp add: from_utf8_lossy_def)
next
  case False
  then have "nl \<notin> set line" using assms by (cases line rule: rev_cases) auto
  then have "10 \<notin> set (map unat line)" by (auto dest: sym dest!: unat_10_nl)
  then show ?thesis
    using trim_no_lf(1) [OF lossy_no_lf] lossy_lt [of "map unat line"] u8_lt
    by (simp add: from_utf8_lossy_def)
qed

end
