(* ===== verification/Imaging.thy ===== *)
theory Imaging
  imports Replay Line_Text Machines "HOL-Library.Sublist"
begin

text \<open>
  \<open>src/imaging.rs\<close>: the imaging proxy.  One task reads frames from the telescope and broadcasts
  them, every client has a task that writes the frames to it and one that reads command lines from
  it, and one task writes the queued command lines to the telescope.  As in \<open>Control_System\<close> a step
  is what one task does between two awaits.
\<close>

section \<open>Reading frames\<close>

text \<open>What the reader has of the stream so far: not yet a whole frame, a header whose size is refused,
  or a header, its payload and the bytes after them.\<close>

datatype frame_read = NeedMore | TooBig | Frame bytes bytes bytes

definition read_frame :: "bytes \<Rightarrow> frame_read" where
  "read_frame buf =
     (if length buf < HEADER_SIZE then NeedMore
      else let header_buf = take HEADER_SIZE buf; n = unat (fh_size (parse_header header_buf)) in
        if 50000000 < n then TooBig
        else if length buf < HEADER_SIZE + n then NeedMore
        else Frame header_buf (take n (drop HEADER_SIZE buf)) (drop (HEADER_SIZE + n) buf))"

text \<open>\<open>{:.1}\<close> of \<open>n as f64 / 1024.0\<close>: the quotient is exact, ties go to the even tenth.\<close>

definition kilobytes :: "nat \<Rightarrow> string" where
  "kilobytes n =
     (let q = 10 * n div 1024; r = 10 * n mod 1024;
          t = (if 512 < r \<or> r = 512 \<and> odd q then q + 1 else q)
      in show_nat (t div 10) @ ''.'' @ show_nat (t mod 10))"

definition frame_summary :: "frame_header \<Rightarrow> string" where
  "frame_summary h =
     (let kind = frame_kind_name (fh_id h) in
      if is_image h
      then kind @ '' '' @ show_nat (unat (fh_width h)) @ ''x'' @ show_nat (unat (fh_height h)) @ '' ('' @
           kilobytes (unat (fh_size h)) @ '' KB)''
      else kind @ '' ('' @ show_nat (unat (fh_size h)) @ '' bytes)'')"

text \<open>The metrics of a frame; \<open>count\<close> is the reader's \<open>frame_count\<close> before it, and every thirtieth
  frame is logged.\<close>

definition frame_metrics :: "clock \<Rightarrow> u64 \<Rightarrow> bytes \<Rightarrow> bytes \<Rightarrow> metrics \<Rightarrow> metrics" where
  "frame_metrics nw count header_buf pld m =
     (let m1 = m\<lparr> imaging_frames := imaging_frames m + 1,
                  imaging_bytes := imaging_bytes m + of_nat (HEADER_SIZE + length pld) \<rparr>
      in if (count + 1) mod 30 = 1 then push_log nw ''img'' (frame_summary (parse_header header_buf)) m1 else m1)"

record imaging =
  img_frames :: "bytes bcast"
  img_upstream :: "string mpsc"
  img_metrics :: "metrics option"
  img_recorder :: "recorder option"

definition imaging_init :: "metrics option \<Rightarrow> recorder option \<Rightarrow> imaging" where
  "imaging_init m r =
     \<lparr> img_frames = broadcast_channel 32, img_upstream = mpsc_channel 256, img_metrics = m,
       img_recorder = r \<rparr>"

text \<open>One frame: record, count, broadcast.  Without metrics the frame counter does not move.\<close>

definition process_frame ::
    "(string \<Rightarrow> bool) \<Rightarrow> clock \<Rightarrow> bytes \<Rightarrow> bytes \<Rightarrow> imaging \<times> u64 \<Rightarrow> imaging \<times> u64" where
  "process_frame w nw header_buf pld st = (case st of (s, count) \<Rightarrow>
     (s\<lparr> img_recorder := map_option (record_frame w header_buf pld) (img_recorder s),
         img_metrics := map_option (frame_metrics nw count header_buf pld) (img_metrics s),
         img_frames := bsend (header_buf @ pld) (img_frames s) \<rparr>,
      if img_metrics s = None then count else count + 1))"

definition set_imaging_up :: "bool \<Rightarrow> imaging \<Rightarrow> imaging" where
  "set_imaging_up b s = s\<lparr> img_metrics := map_option (\<lambda>m. m\<lparr> upstream_imaging_up := b \<rparr>) (img_metrics s) \<rparr>"

lemma read_frame_shorter: "read_frame buf = Frame h p rest \<Longrightarrow> length rest < length buf"
  by (auto simp: read_frame_def Let_def HEADER_SIZE_def split: if_splits)

text \<open>\<open>upstream_reader_task\<close> on everything the telescope sends until the connection ends.\<close>

function reader_loop ::
    "(string \<Rightarrow> bool) \<Rightarrow> (nat \<Rightarrow> clock) \<Rightarrow> bytes \<Rightarrow> imaging \<times> u64 \<Rightarrow> imaging \<times> u64" where
  "reader_loop w clk buf st = (case read_frame buf of
      Frame h p rest \<Rightarrow> reader_loop w clk rest (process_frame w (clk (length buf)) h p st)
    | _ \<Rightarrow> st)"
  by pat_completeness auto
termination by (relation "measure (\<lambda>(w, clk, buf, st). length buf)") (auto intro: read_frame_shorter)

declare reader_loop.simps [simp del]

definition upstream_reader_task ::
    "(string \<Rightarrow> bool) \<Rightarrow> (nat \<Rightarrow> clock) \<Rightarrow> bytes \<Rightarrow> imaging \<Rightarrow> imaging" where
  "upstream_reader_task w clk stream s =
     set_imaging_up False (fst (reader_loop w clk stream (set_imaging_up True s, 0)))"

section \<open>What the reader does with a stream\<close>

definition whole_frame :: "bytes \<times> bytes \<Rightarrow> bool" where
  "whole_frame f \<longleftrightarrow> (case f of (h, p) \<Rightarrow>
     length h = HEADER_SIZE \<and> length p = unat (fh_size (parse_header h)) \<and> length p \<le> 50000000)"

definition frame_bytes :: "(bytes \<times> bytes) list \<Rightarrow> bytes" where
  "frame_bytes fs = concat (map (\<lambda>(h, p). h @ p) fs)"

lemma read_frame_Frame:
  assumes "read_frame buf = Frame h p rest"
  shows "buf = h @ p @ rest \<and> whole_frame (h, p)"
proof -
  let ?n = "unat (fh_size (parse_header (take HEADER_SIZE buf)))"
  from assms have l: "HEADER_SIZE + ?n \<le> length buf" "?n \<le> 50000000" "HEADER_SIZE \<le> length buf"
    and e: "h = take HEADER_SIZE buf" "p = take ?n (drop HEADER_SIZE buf)" "rest = drop (HEADER_SIZE + ?n) buf"
    by (auto simp: read_frame_def Let_def split: if_splits)
  have "buf = take HEADER_SIZE buf @ take ?n (drop HEADER_SIZE buf) @ drop ?n (drop HEADER_SIZE buf)"
    by (simp only: append_take_drop_id)
  with l e show ?thesis by (auto simp: whole_frame_def add.commute)
qed

lemma read_frame_append: "whole_frame (h, p) \<Longrightarrow> read_frame (h @ p @ rest) = Frame h p rest"
  by (simp add: whole_frame_def read_frame_def Let_def)

lemma process_frame_frames:
  "bhist (img_frames (fst (process_frame w nw h p st))) = bhist (img_frames (fst st)) @ [h @ p]"
  by (simp add: process_frame_def bsend_def split: prod.splits)

lemma process_frame_recorder:
  "img_recorder (fst (process_frame w nw h p st)) = map_option (record_frame w h p) (img_recorder (fst st))"
  by (simp add: process_frame_def split: prod.splits)

lemma reader_loop_frames:
  "\<exists>fs rest. buf = frame_bytes fs @ rest \<and> (\<forall>f \<in> set fs. whole_frame f) \<and>
     (read_frame rest = NeedMore \<or> read_frame rest = TooBig) \<and>
     bhist (img_frames (fst (reader_loop w clk buf st))) = bhist (img_frames (fst st)) @ map (\<lambda>(h, p). h @ p) fs \<and>
     img_recorder (fst (reader_loop w clk buf st)) = map_option (record_frames w fs) (img_recorder (fst st))"
proof (induction w clk buf st rule: reader_loop.induct)
  case (1 w clk buf st)
  show ?case
  proof (cases "read_frame buf")
    case (Frame h p rest)
    obtain fs rest' where "rest = frame_bytes fs @ rest'" "\<forall>f \<in> set fs. whole_frame f"
      "read_frame rest' = NeedMore \<or> read_frame rest' = TooBig"
      "bhist (img_frames (fst (reader_loop w clk buf st))) =
         bhist (img_frames (fst st)) @ [h @ p] @ map (\<lambda>(h, p). h @ p) fs"
      "img_recorder (fst (reader_loop w clk buf st)) =
         map_option (record_frames w fs) (map_option (record_frame w h p) (img_recorder (fst st)))"
      using 1 [OF Frame] Frame
      by (auto simp: reader_loop.simps [of w clk buf st] process_frame_frames process_frame_recorder)
    with read_frame_Frame [OF Frame] show ?thesis
      by (intro exI [of _ "(h, p) # fs"] exI [of _ rest'])
        (simp add: frame_bytes_def record_frames_def option.map_comp comp_def)
  qed (auto simp: reader_loop.simps [of w clk buf st] frame_bytes_def record_frames_def option.map_id
      intro!: exI [of _ "[]"])
qed

lemma frames_unique:
  assumes "frame_bytes fs @ rest = frame_bytes gs @ rest'" "\<forall>f \<in> set fs. whole_frame f"
    "\<forall>f \<in> set gs. whole_frame f" "read_frame rest = NeedMore \<or> read_frame rest = TooBig"
    "read_frame rest' = NeedMore \<or> read_frame rest' = TooBig"
  shows "fs = gs"
  using assms
proof (induction fs arbitrary: gs)
  case Nil
  then show ?case
  proof (cases gs)
    case (Cons g gs')
    obtain h p where "g = (h, p)" by (cases g)
    with Cons Nil read_frame_append [of h p "frame_bytes gs' @ rest'"] show ?thesis
      by (auto simp: frame_bytes_def)
  qed simp
next
  case (Cons f fs)
  obtain h p where f: "f = (h, p)" by (cases f)
  have r: "read_frame (frame_bytes (f # fs) @ rest) = Frame h p (frame_bytes fs @ rest)"
    using read_frame_append [of h p "frame_bytes fs @ rest"] Cons.prems f by (simp add: frame_bytes_def)
  show ?case
  proof (cases gs)
    case Nil
    with Cons.prems r show ?thesis by (auto simp: frame_bytes_def)
  next
    case (Cons g gs')
    obtain h' p' where g: "g = (h', p')" by (cases g)
    have "read_frame (frame_bytes gs @ rest') = Frame h' p' (frame_bytes gs' @ rest')"
      using read_frame_append [of h' p' "frame_bytes gs' @ rest'"] Cons.prems Cons g
      by (simp add: frame_bytes_def)
    with r Cons.prems(1) f g Cons Cons.IH [of gs'] Cons.prems show ?thesis by simp
  qed
qed

lemma reader_frames:
  assumes "\<forall>f \<in> set fs. whole_frame f" and "read_frame rest = NeedMore \<or> read_frame rest = TooBig"
  shows "bhist (img_frames (upstream_reader_task w clk (frame_bytes fs @ rest) s)) =
           bhist (img_frames s) @ map (\<lambda>(h, p). h @ p) fs \<and>
         img_recorder (upstream_reader_task w clk (frame_bytes fs @ rest) s) =
           map_option (record_frames w fs) (img_recorder s)"
proof -
  obtain gs rest' where g: "frame_bytes fs @ rest = frame_bytes gs @ rest'" "\<forall>f \<in> set gs. whole_frame f"
    "read_frame rest' = NeedMore \<or> read_frame rest' = TooBig"
    "bhist (img_frames (fst (reader_loop w clk (frame_bytes fs @ rest) (set_imaging_up True s, 0)))) =
       bhist (img_frames (set_imaging_up True s)) @ map (\<lambda>(h, p). h @ p) gs"
    "img_recorder (fst (reader_loop w clk (frame_bytes fs @ rest) (set_imaging_up True s, 0))) =
       map_option (record_frames w gs) (img_recorder (set_imaging_up True s))"
    using reader_loop_frames [of "frame_bytes fs @ rest" w clk "(set_imaging_up True s, 0)"] by auto
  have "fs = gs" using frames_unique [OF g(1) assms(1) g(2) assms(2) g(3)] .
  with g show ?thesis by (simp add: upstream_reader_task_def set_imaging_up_def)
qed

text \<open>C8. Framing: whatever the telescope sends, the proxy cuts it into the same frames the telescope
  composed it of.  If the stream is a sequence of whole frames followed by something that is not one
  (an incomplete frame, or a header announcing more than 50 MB), exactly those frames are broadcast, in
  order and byte for byte, and exactly those are handed to the recorder.\<close>

theorem imaging_frames_exact:
  assumes "\<forall>f \<in> set fs. whole_frame f" and "read_frame rest = NeedMore \<or> read_frame rest = TooBig"
  shows "bhist (img_frames (upstream_reader_task w clk (frame_bytes fs @ rest) s)) =
           bhist (img_frames s) @ map (\<lambda>(h, p). h @ p) fs \<and>
         img_recorder (upstream_reader_task w clk (frame_bytes fs @ rest) s) =
           map_option (record_frames w fs) (img_recorder s)"
  using reader_frames [OF assms] .

theorem imaging_frames_exact_witness:
  "let h = encode_header 0 0 0 0 0 \<lparr> fh_size = 2, fh_code = 0, fh_id = 21, fh_width = 4, fh_height = 2 \<rparr>
   in bhist (img_frames (upstream_reader_task (\<lambda>_. True) demo_clock (frame_bytes [(h, [7, 8]), (h, [9, 0])] @ [1, 2, 3])
        (imaging_init None None))) = [h @ [7, 8], h @ [9, 0]]"
proof -
  let ?h = "encode_header 0 0 0 0 0 \<lparr> fh_size = 2, fh_code = 0, fh_id = 21, fh_width = 4, fh_height = 2 \<rparr>"
  have "\<forall>f \<in> set [(?h, [7, 8]), (?h, [9, 0])]. whole_frame f" by (simp add: whole_frame_def)
  moreover have "read_frame [1, 2, 3] = NeedMore" by (simp add: read_frame_def HEADER_SIZE_def)
  ultimately show ?thesis
    using imaging_frames_exact [of "[(?h, [7, 8]), (?h, [9, 0])]" "[1, 2, 3]" "\<lambda>_. True" demo_clock
        "imaging_init None None"]
    by (simp add: imaging_init_def broadcast_channel_def Let_def)
qed

section \<open>Clients and the upstream task\<close>

datatype img_pc =
    IReading
  | ISending string \<comment> \<open>awaiting \<open>upstream_tx.send\<close>\<close>
  | ILeft \<comment> \<open>left the loop: the fan-out task has been aborted\<close>
  | IError \<comment> \<open>returned an error: the fan-out task has not been aborted\<close>
  | IDone

record img_client =
  ic_pc :: img_pc
  ic_pos :: nat \<comment> \<open>position of \<open>frame_rx\<close>\<close>
  ic_writer :: bool \<comment> \<open>the fan-out task is running\<close>
  ic_out :: "bytes list" \<comment> \<open>frames written to the client\<close>

record img_reader =
  ir_buf :: bytes
  ir_count :: u64
  ir_live :: bool

datatype img_link = IConnecting | IConnected nat | IDead

record img_sys =
  img :: imaging
  i_clients :: "nat \<Rightarrow> img_client option"
  i_next :: nat
  i_readers :: "nat \<Rightarrow> img_reader option"
  i_conns :: nat
  i_link :: img_link
  i_wire :: "string list"
  i_hb_id :: u64
  i_hb :: "string option" \<comment> \<open>the heartbeat awaiting its \<open>send\<close>\<close>

definition img_start :: "img_sys \<Rightarrow> bool" where
  "img_start s \<longleftrightarrow> (\<exists>m r. s =
     \<lparr> img = imaging_init m r, i_clients = (\<lambda>_. None), i_next = 0, i_readers = (\<lambda>_. None), i_conns = 0,
       i_link = IConnecting, i_wire = [], i_hb_id = 1, i_hb = None \<rparr>)"

definition img_heartbeat :: "u64 \<Rightarrow> string" where
  "img_heartbeat n =
     ''{'' @ [CHR 0x22] @ ''id'' @ [CHR 0x22] @ '':'' @ show_nat (unat n) @ '','' @ [CHR 0x22] @ ''method'' @
     [CHR 0x22] @ '':'' @ [CHR 0x22] @ ''test_connection'' @ [CHR 0x22] @ '','' @ [CHR 0x22] @ ''params'' @
     [CHR 0x22] @ '':'' @ [CHR 0x22] @ ''verify'' @ [CHR 0x22] @ ''}''"

definition set_iclient :: "nat \<Rightarrow> img_client \<Rightarrow> img_sys \<Rightarrow> img_sys" where
  "set_iclient c k s = s\<lparr> i_clients := (i_clients s)(c := Some k) \<rparr>"

definition img_metrics_map :: "(metrics \<Rightarrow> metrics) \<Rightarrow> imaging \<Rightarrow> imaging" where
  "img_metrics_map f s = s\<lparr> img_metrics := map_option f (img_metrics s) \<rparr>"

definition img_accept :: "img_sys \<Rightarrow> img_sys" where
  "img_accept s =
     (set_iclient (i_next s)
        \<lparr> ic_pc = IReading, ic_pos = subscribe (img_frames (img s)), ic_writer = True, ic_out = [] \<rparr> s)\<lparr>
        img := img_metrics_map (\<lambda>m. m\<lparr> imaging_clients := imaging_clients m + 1 \<rparr>) (img s),
        i_next := i_next s + 1 \<rparr>"

text \<open>One line of a client, up to the next await.\<close>

definition img_line :: "json_codec \<Rightarrow> clock \<Rightarrow> nat \<Rightarrow> bytes \<Rightarrow> imaging \<Rightarrow> imaging \<times> img_pc" where
  "img_line J nw n line_buf s =
     (if n = 0 then (s, ILeft)
      else if MAX_LINE_BYTES < length line_buf then (s, ILeft)
      else let trimmed = trim (from_utf8_lossy line_buf) in
        if trimmed = [] then (s, IReading)
        else
          let meth = (case Option.bind (from_str J trimmed) method_name of Some x \<Rightarrow> x | None \<Rightarrow> ''?'')
          in (img_metrics_map (push_log_with_payload nw ''img-tx'' meth (Some trimmed)) s, ISending trimmed))"

definition img_move :: "nat \<Rightarrow> img_client \<Rightarrow> imaging \<times> img_pc \<Rightarrow> img_sys \<Rightarrow> img_sys" where
  "img_move c k q s = (case q of (t, pc) \<Rightarrow>
     (set_iclient c (k\<lparr> ic_pc := pc, ic_writer := (ic_writer k \<and> pc \<noteq> ILeft) \<rparr>) s)\<lparr> img := t \<rparr>)"

definition img_send :: "string \<Rightarrow> imaging \<Rightarrow> (imaging \<times> img_pc) option" where
  "img_send x s = (case poll_send x (img_upstream s) of
      Waiting \<Rightarrow> None | Failed \<Rightarrow> Some (s, ILeft) | Sent up \<Rightarrow> Some (s\<lparr> img_upstream := up \<rparr>, IReading))"

definition img_finish :: "nat \<Rightarrow> img_client \<Rightarrow> img_sys \<Rightarrow> img_sys" where
  "img_finish c k s =
     (set_iclient c (k\<lparr> ic_pc := IDone \<rparr>) s)\<lparr>
        img := img_metrics_map (\<lambda>m. m\<lparr> imaging_clients := imaging_clients m - 1 \<rparr>) (img s) \<rparr>"

definition img_connect :: "img_sys \<Rightarrow> img_sys" where
  "img_connect s =
     s\<lparr> img := set_imaging_up True (img s),
        i_readers := (i_readers s)(i_conns s := Some \<lparr> ir_buf = [], ir_count = 0, ir_live = True \<rparr>),
        i_conns := i_conns s + 1, i_link := IConnected (i_conns s) \<rparr>"

text \<open>One turn of the writer loop; a panic in its log line ends the task and drops the receiver.\<close>

definition img_write :: "bool \<Rightarrow> bool \<Rightarrow> string \<Rightarrow> string mpsc \<Rightarrow> img_sys \<Rightarrow> img_sys" where
  "img_write debug ok msg up s =
     (let s1 = s\<lparr> img := (img s)\<lparr> img_upstream := up \<rparr> \<rparr> in
      if debug \<and> log_prefix msg 200 = Panic
      then s1\<lparr> img := (img s1)\<lparr> img_upstream := close_rx up \<rparr>, i_link := IDead \<rparr>
      else if ok then s1\<lparr> i_wire := i_wire s1 @ [msg @ crlf] \<rparr>
      else s1\<lparr> i_link := IConnecting \<rparr>)"

definition img_reader_frame ::
    "(string \<Rightarrow> bool) \<Rightarrow> clock \<Rightarrow> nat \<Rightarrow> img_reader \<Rightarrow> bytes \<Rightarrow> bytes \<Rightarrow> bytes \<Rightarrow> img_sys \<Rightarrow> img_sys" where
  "img_reader_frame w nw j r h p rest s =
     (let (t, n) = process_frame w nw h p (img s, ir_count r) in
      s\<lparr> img := t, i_readers := (i_readers s)(j := Some (r\<lparr> ir_buf := rest, ir_count := n \<rparr>)) \<rparr>)"

definition img_reader_ends :: "nat \<Rightarrow> img_reader \<Rightarrow> img_sys \<Rightarrow> img_sys" where
  "img_reader_ends j r s =
     s\<lparr> img := set_imaging_up False (img s), i_readers := (i_readers s)(j := Some (r\<lparr> ir_live := False \<rparr>)) \<rparr>"

inductive imaging_step :: "json_codec \<Rightarrow> img_sys \<Rightarrow> img_sys \<Rightarrow> bool" for J where
  i_accepts: "imaging_step J s (img_accept s)"
| i_reads: "i_clients s c = Some k \<Longrightarrow> ic_pc k = IReading \<Longrightarrow> chunks_wf cs \<Longrightarrow>
    read_line_limited cs [] MAX_LINE_BYTES = (n, line, rest) \<Longrightarrow>
    imaging_step J s (img_move c k (img_line J nw n line (img s)) s)"
| i_read_error: "i_clients s c = Some k \<Longrightarrow> ic_pc k = IReading \<Longrightarrow>
    imaging_step J s (img_move c k (img s, IError) s)"
| i_sends: "i_clients s c = Some k \<Longrightarrow> ic_pc k = ISending x \<Longrightarrow> img_send x (img s) = Some q \<Longrightarrow>
    imaging_step J s (img_move c k q s)"
| i_finishes: "i_clients s c = Some k \<Longrightarrow> ic_pc k = ILeft \<or> ic_pc k = IError \<Longrightarrow>
    imaging_step J s (img_finish c k s)"
| i_frame: "i_clients s c = Some k \<Longrightarrow> ic_writer k \<Longrightarrow> brecv (img_frames (img s)) (ic_pos k) = BMsg f p \<Longrightarrow>
    imaging_step J s (set_iclient c (k\<lparr> ic_out := ic_out k @ [f], ic_pos := p \<rparr>) s)"
| i_lagged: "i_clients s c = Some k \<Longrightarrow> ic_writer k \<Longrightarrow> brecv (img_frames (img s)) (ic_pos k) = BLagged d p \<Longrightarrow>
    imaging_step J s (set_iclient c (k\<lparr> ic_pos := p \<rparr>) s)"
| i_write_fails: "i_clients s c = Some k \<Longrightarrow> ic_writer k \<Longrightarrow>
    imaging_step J s (set_iclient c (k\<lparr> ic_writer := False \<rparr>) s)"
| i_connects: "i_link s = IConnecting \<Longrightarrow> imaging_step J s (img_connect s)"
| i_writes: "i_link s = IConnected j \<Longrightarrow> recv (img_upstream (img s)) = Some (x, up) \<Longrightarrow>
    imaging_step J s (img_write debug ok x up s)"
| i_reader_gone: "i_link s = IConnected j \<Longrightarrow> i_readers s j = Some r \<Longrightarrow> \<not> ir_live r \<Longrightarrow>
    imaging_step J s (s\<lparr> i_link := IConnecting \<rparr>)"
| i_receives: "i_readers s j = Some r \<Longrightarrow> ir_live r \<Longrightarrow> read_frame (ir_buf r) = NeedMore \<Longrightarrow> chunk \<noteq> [] \<Longrightarrow>
    imaging_step J s (s\<lparr> i_readers := (i_readers s)(j := Some (r\<lparr> ir_buf := ir_buf r @ chunk \<rparr>)) \<rparr>)"
| i_processes: "i_readers s j = Some r \<Longrightarrow> ir_live r \<Longrightarrow> read_frame (ir_buf r) = Frame h p rest \<Longrightarrow>
    imaging_step J s (img_reader_frame w nw j r h p rest s)"
| i_ends: "i_readers s j = Some r \<Longrightarrow> ir_live r \<Longrightarrow> read_frame (ir_buf r) = NeedMore \<or> read_frame (ir_buf r) = TooBig \<Longrightarrow>
    imaging_step J s (img_reader_ends j r s)"
| i_beats: "i_hb s = None \<Longrightarrow>
    imaging_step J s (s\<lparr> i_hb := Some (img_heartbeat (i_hb_id s)), i_hb_id := i_hb_id s + 1 \<rparr>)"
| i_beat_sent: "i_hb s = Some x \<Longrightarrow> poll_send x (img_upstream (img s)) = Sent up \<Longrightarrow>
    imaging_step J s (s\<lparr> img := (img s)\<lparr> img_upstream := up \<rparr>, i_hb := None \<rparr>)"

section \<open>Invariants\<close>

definition one_line :: "string \<Rightarrow> bool" where
  "one_line x \<longleftrightarrow> CHR 0x0A \<notin> set x"

definition img_client_ok :: "img_client \<Rightarrow> bool" where
  "img_client_ok k \<longleftrightarrow> (\<forall>x. ic_pc k = ISending x \<longrightarrow> one_line x)"

text \<open>Everything on its way to the telescope is a single line, and the queue is within its bound.\<close>

definition lines_inv :: "img_sys \<Rightarrow> bool" where
  "lines_inv s \<longleftrightarrow> (\<forall>x \<in> set (mbuf (img_upstream (img s))). one_line x) \<and> mpsc_wf (img_upstream (img s)) \<and>
     mcap (img_upstream (img s)) = 256 \<and> (\<forall>x. i_hb s = Some x \<longrightarrow> one_line x) \<and>
     (\<forall>c k. i_clients s c = Some k \<longrightarrow> img_client_ok k) \<and>
     (\<forall>x \<in> set (i_wire s). \<exists>y. x = y @ crlf \<and> one_line y)"

text \<open>Every client has been written a subsequence of the frames before its position.\<close>

definition fan_inv :: "img_sys \<Rightarrow> bool" where
  "fan_inv s \<longleftrightarrow> bcap (img_frames (img s)) = 32 \<and> (\<forall>c k. i_clients s c = Some k \<longrightarrow>
     ic_pos k \<le> length (bhist (img_frames (img s))) \<and>
     subseq (ic_out k) (take (ic_pos k) (bhist (img_frames (img s)))))"

lemma digit_not_lf: "d < 10 \<Longrightarrow> digit d \<noteq> CHR 0x0A"
proof
  assume "d < 10" "digit d = CHR 0x0A"
  then have "of_char (digit d) = (10 :: nat)" by simp
  with \<open>d < 10\<close> show False by (simp add: digit_def)
qed

lemma one_line_show_nat: "CHR 0x0A \<notin> set (show_nat n)"
proof (induction n rule: show_nat.induct)
  case (1 n)
  then show ?case using digit_not_lf [of n] digit_not_lf [of "n mod 10"]
    by (auto simp: show_nat.simps [of n] simp del: of_char_of)
qed

lemma one_line_heartbeat: "one_line (img_heartbeat n)"
  using one_line_show_nat [of "unat n"] by (simp add: one_line_def img_heartbeat_def)

lemma img_line_ok:
  assumes "chunks_wf cs" "read_line_limited cs [] MAX_LINE_BYTES = (n, line, rest)"
  shows "snd (img_line J nw n line s) = ISending x \<Longrightarrow> one_line x"
    and "img_upstream (fst (img_line J nw n line s)) = img_upstream s"
    and "img_frames (fst (img_line J nw n line s)) = img_frames s"
proof -
  have "nl \<notin> set (butlast line)"
    using read_line_loop_line [of cs "[]" 0 MAX_LINE_BYTES n line rest] assms
    by (auto simp: read_line_limited_def)
  then show "snd (img_line J nw n line s) = ISending x \<Longrightarrow> one_line x"
    using line_text_no_lf [of line] by (auto simp: img_line_def Let_def one_line_def split: if_splits)
qed (simp_all add: img_line_def Let_def img_metrics_map_def)

lemma lines_inv_move:
  assumes "lines_inv s" "i_clients s c = Some k" "img_upstream (fst q) = img_upstream (img s)"
    "\<And>x. snd q = ISending x \<Longrightarrow> one_line x"
  shows "lines_inv (img_move c k q s)"
  using assms by (auto simp: lines_inv_def img_move_def set_iclient_def img_client_ok_def split: prod.splits)

lemma lines_inv_set:
  assumes "lines_inv s" "i_clients s c = Some k" "ic_pc k' = ic_pc k"
  shows "lines_inv (set_iclient c k' s)"
  using assms by (auto simp: lines_inv_def set_iclient_def img_client_ok_def)

lemma lines_inv_sends:
  assumes inv: "lines_inv s" and k: "i_clients s c = Some k" "ic_pc k = ISending x" and "img_send x (img s) = Some q"
  shows "lines_inv (img_move c k q s)"
proof (cases "poll_send x (img_upstream (img s))")
  case (Sent up)
  then have up: "mbuf up = mbuf (img_upstream (img s)) @ [x]" "mpsc_wf up" "mcap up = 256"
    using inv by (auto simp: lines_inv_def dest: sent_queue)
  have "one_line x" using inv k by (auto simp: lines_inv_def img_client_ok_def)
  with up inv Sent assms(4) show ?thesis
    by (auto simp: img_send_def lines_inv_def img_move_def set_iclient_def img_client_ok_def split: if_splits)
qed (use assms in \<open>auto simp: img_send_def intro!: lines_inv_move\<close>)

lemma lines_inv_write:
  assumes "lines_inv s" "recv (img_upstream (img s)) = Some (x, up)"
  shows "lines_inv (img_write debug ok x up s)"
proof -
  have "mbuf (img_upstream (img s)) = x # mbuf up" "mpsc_wf up" "mcap up = 256"
    using assms by (auto simp: lines_inv_def dest: received_queue)
  with assms(1) show ?thesis
    by (auto simp: img_write_def Let_def lines_inv_def close_rx_def mpsc_wf_def)
qed

lemma lines_inv_beat:
  assumes "lines_inv s" "i_hb s = Some x" "poll_send x (img_upstream (img s)) = Sent up"
  shows "lines_inv (s\<lparr> img := (img s)\<lparr> img_upstream := up \<rparr>, i_hb := None \<rparr>)"
proof -
  have "mbuf up = mbuf (img_upstream (img s)) @ [x]" "mpsc_wf up" "mcap up = 256"
    using assms by (auto simp: lines_inv_def dest: sent_queue)
  with assms show ?thesis by (auto simp: lines_inv_def)
qed

lemma lines_inv_untouched:
  assumes "lines_inv s" "img_upstream (img t) = img_upstream (img s)" "i_clients t = i_clients s"
    "i_wire t = i_wire s" "i_hb t = i_hb s"
  shows "lines_inv t"
  using assms by (simp add: lines_inv_def)

lemma imaging_step_lines:
  assumes inv: "lines_inv s" and "imaging_step J s t"
  shows "lines_inv t"
  using assms(2)
proof cases
  case (i_reads c k cs n line rest nw)
  then show ?thesis using inv img_line_ok [of cs n line rest] by (auto intro!: lines_inv_move)
next
  case i_accepts
  then show ?thesis using inv
    by (auto simp: img_accept_def lines_inv_def set_iclient_def img_metrics_map_def img_client_ok_def)
next
  case (i_finishes c k)
  then show ?thesis using inv
    by (auto simp: img_finish_def lines_inv_def set_iclient_def img_metrics_map_def img_client_ok_def)
next
  case (i_processes j r h p rest w nw)
  then show ?thesis using inv
    by (auto intro!: lines_inv_untouched [OF inv] simp: img_reader_frame_def process_frame_def)
next
  case i_beats
  then show ?thesis using inv by (auto simp: lines_inv_def one_line_heartbeat)
next
  case i_connects
  then show ?thesis by (auto intro!: lines_inv_untouched [OF inv] simp: img_connect_def set_imaging_up_def)
next
  case (i_ends j r)
  then show ?thesis by (auto intro!: lines_inv_untouched [OF inv] simp: img_reader_ends_def set_imaging_up_def)
next
  case (i_reader_gone j r)
  then show ?thesis by (auto intro!: lines_inv_untouched [OF inv])
next
  case (i_receives j r chunk)
  then show ?thesis by (auto intro!: lines_inv_untouched [OF inv])
next
  case (i_read_error c k)
  then show ?thesis using inv by (auto intro!: lines_inv_move)
qed (use inv in \<open>auto intro: lines_inv_set lines_inv_sends lines_inv_write lines_inv_beat\<close>)

lemma lines_inv_start: "img_start s \<Longrightarrow> lines_inv s"
  by (auto simp: img_start_def lines_inv_def imaging_init_def mpsc_channel_def mpsc_wf_def)

interpretation lines: counted_invariant img_start "imaging_step J" "\<lambda>_. lines_inv" for J
  by unfold_locales (auto intro: lines_inv_start imaging_step_lines)

text \<open>C26. Whatever clients send and however the tasks interleave, every write to the telescope's
  imaging port is one complete line: a command without a line feed, followed by CR LF; and at most 256
  commands are queued.\<close>

theorem imaging_commands_are_lines:
  assumes "reach_in img_start (imaging_step J) n s"
  shows "(\<forall>x \<in> set (i_wire s). \<exists>y. x = y @ [CHR 0x0D, CHR 0x0A] \<and> CHR 0x0A \<notin> set y) \<and>
         length (mbuf (img_upstream (img s))) \<le> 256"
  using lines.reach_inv [OF assms] by (auto simp: lines_inv_def one_line_def crlf_def mpsc_wf_def)

definition demo_img :: img_sys where
  "demo_img =
     \<lparr> img = imaging_init None None, i_clients = (\<lambda>_. None), i_next = 0, i_readers = (\<lambda>_. None), i_conns = 0,
       i_link = IConnecting, i_wire = [], i_hb_id = 1, i_hb = None \<rparr>"

text \<open>A run in which the first heartbeat reaches the telescope.\<close>

definition demo_img_beat :: img_sys where
  "demo_img_beat =
     (img_connect demo_img)\<lparr> i_wire := [img_heartbeat 1 @ crlf], i_hb_id := 2 \<rparr>"

lemma demo_img_reach: "reach_in img_start (imaging_step demo_json) 4 demo_img_beat"
proof -
  let ?s1 = "demo_img\<lparr> i_hb := Some (img_heartbeat 1), i_hb_id := 2 \<rparr>"
  let ?up = "\<lparr> mcap = 256, mbuf = [img_heartbeat 1], mopen = True \<rparr>"
  let ?s2 = "?s1\<lparr> img := (img ?s1)\<lparr> img_upstream := ?up \<rparr>, i_hb := None \<rparr>"
  have s0: "reach_in img_start (imaging_step demo_json) 0 demo_img"
    by (rule reach_start) (auto simp: img_start_def demo_img_def)
  have s1: "imaging_step demo_json demo_img ?s1"
    using i_beats [of demo_img demo_json] by (simp add: demo_img_def)
  have s2: "imaging_step demo_json ?s1 ?s2"
    by (rule i_beat_sent) (simp_all add: demo_img_def imaging_init_def mpsc_channel_def poll_send_def try_send_def)
  have s3: "imaging_step demo_json ?s2 (img_connect ?s2)"
    by (rule i_connects) (simp add: demo_img_def)
  have "imaging_step demo_json (img_connect ?s2)
      (img_write False True (img_heartbeat 1) (mpsc_channel 256) (img_connect ?s2))"
    by (rule i_writes [where j = 0]) (simp_all add: img_connect_def set_imaging_up_def demo_img_def recv_def mpsc_channel_def)
  moreover have "img_write False True (img_heartbeat 1) (mpsc_channel 256) (img_connect ?s2) = demo_img_beat"
    by (simp add: img_write_def img_connect_def demo_img_def demo_img_beat_def set_imaging_up_def
        imaging_init_def)
  ultimately have s4: "imaging_step demo_json (img_connect ?s2) demo_img_beat" by simp
  from reach_step [OF reach_step [OF reach_step [OF reach_step [OF s0 s1] s2] s3] s4]
  show ?thesis by (simp add: numeral_eq_Suc)
qed

theorem imaging_commands_are_lines_witness:
  "i_wire demo_img_beat = [img_heartbeat 1 @ [CHR 0x0D, CHR 0x0A]] \<and>
   (\<exists>y. hd (i_wire demo_img_beat) = y @ [CHR 0x0D, CHR 0x0A] \<and> CHR 0x0A \<notin> set y)"
  using imaging_commands_are_lines [OF demo_img_reach] by (simp add: demo_img_beat_def crlf_def)

section \<open>Fan-out\<close>

lemma fan_inv_frames:
  assumes "fan_inv s" "i_clients t = i_clients s"
    "\<exists>ms. bhist (img_frames (img t)) = bhist (img_frames (img s)) @ ms"
    "bcap (img_frames (img t)) = bcap (img_frames (img s))"
  shows "fan_inv t"
proof -
  obtain ms where "bhist (img_frames (img t)) = bhist (img_frames (img s)) @ ms" using assms(3) by blast
  with assms show ?thesis by (auto simp: fan_inv_def trans_le_add1)
qed

lemma fan_inv_client:
  assumes "fan_inv s" "i_clients s c = Some k" "ic_pos k' = ic_pos k" "ic_out k' = ic_out k"
    "img_frames t = img_frames (img s)"
  shows "fan_inv ((set_iclient c k' s)\<lparr> img := t \<rparr>)" "fan_inv (set_iclient c k' s)"
  using assms by (auto simp: fan_inv_def set_iclient_def)

lemma fan_inv_move:
  assumes "fan_inv s" "i_clients s c = Some k" "img_frames (fst q) = img_frames (img s)"
  shows "fan_inv (img_move c k q s)"
  using assms by (auto simp: img_move_def intro!: fan_inv_client split: prod.splits)

lemma fan_inv_frame:
  assumes inv: "fan_inv s" and k: "i_clients s c = Some k"
    and r: "brecv (img_frames (img s)) (ic_pos k) = BMsg f p"
  shows "fan_inv (set_iclient c (k\<lparr> ic_out := ic_out k @ [f], ic_pos := p \<rparr>) s)"
proof -
  let ?h = "bhist (img_frames (img s))"
  have p: "p = Suc (ic_pos k)" "ic_pos k < length ?h" "f = ?h ! ic_pos k"
    using r by (auto simp: brecv_def Let_def split: if_splits)
  have "subseq (ic_out k @ [f]) (take (ic_pos k) ?h @ [f])"
    using inv k by (intro list_emb_append_mono) (auto simp: fan_inv_def)
  then have "subseq (ic_out k @ [f]) (take p ?h)" using p by (simp add: take_Suc_conv_app_nth)
  with inv p show ?thesis by (auto simp: fan_inv_def set_iclient_def)
qed

lemma fan_inv_lagged:
  assumes inv: "fan_inv s" and k: "i_clients s c = Some k"
    and r: "brecv (img_frames (img s)) (ic_pos k) = BLagged d p"
  shows "fan_inv (set_iclient c (k\<lparr> ic_pos := p \<rparr>) s)"
proof -
  let ?h = "bhist (img_frames (img s))"
  have p: "ic_pos k \<le> p" "p \<le> length ?h"
    using r by (auto simp: brecv_def Let_def split: if_splits)
  have "subseq (take (ic_pos k) ?h) (take p ?h)"
    using p take_add [of "ic_pos k" "p - ic_pos k" ?h] by (simp add: subseq_rev_drop_many)
  moreover have "subseq (ic_out k) (take (ic_pos k) ?h)" using inv k by (auto simp: fan_inv_def)
  ultimately have "subseq (ic_out k) (take p ?h)" by (rule subseq_order.order_trans [rotated])
  with inv p show ?thesis by (auto simp: fan_inv_def set_iclient_def)
qed

lemma imaging_step_fan:
  assumes inv: "fan_inv s" and "imaging_step J s t"
  shows "fan_inv t"
  using assms(2)
proof cases
  case i_accepts
  with inv show ?thesis
    by (auto simp: fan_inv_def img_accept_def set_iclient_def img_metrics_map_def subscribe_def)
next
  case (i_reads c k cs n line rest nw)
  with img_line_ok(3) [of cs n line rest J nw "img s"] inv show ?thesis by (auto intro!: fan_inv_move)
next
  case (i_sends c k x q)
  with inv show ?thesis by (auto intro!: fan_inv_move simp: img_send_def split: send_poll.splits)
next
  case (i_finishes c k)
  with inv show ?thesis by (auto simp: img_finish_def img_metrics_map_def intro!: fan_inv_client)
next
  case (i_write_fails c k)
  with inv show ?thesis by (auto intro!: fan_inv_client(2) [where t = "img s"])
next
  case (i_processes j r h p rest w nw)
  then show ?thesis
    by (intro fan_inv_frames [OF inv]) (auto simp: img_reader_frame_def process_frame_def bsend_def)
next
  case i_connects
  then show ?thesis by (auto intro!: fan_inv_frames [OF inv] simp: img_connect_def set_imaging_up_def)
next
  case (i_writes j x up debug ok)
  then show ?thesis by (auto intro!: fan_inv_frames [OF inv] simp: img_write_def Let_def)
next
  case (i_ends j r)
  then show ?thesis by (auto intro!: fan_inv_frames [OF inv] simp: img_reader_ends_def set_imaging_up_def)
next
  case (i_read_error c k)
  with inv show ?thesis by (auto intro!: fan_inv_move)
next
  case (i_frame c k f p)
  with inv show ?thesis by (auto intro: fan_inv_frame)
next
  case (i_lagged c k d p)
  with inv show ?thesis by (auto intro: fan_inv_lagged)
qed (auto intro!: fan_inv_frames [OF inv])

lemma fan_inv_start: "img_start s \<Longrightarrow> fan_inv s"
  by (auto simp: img_start_def fan_inv_def imaging_init_def broadcast_channel_def)

interpretation fan: counted_invariant img_start "imaging_step J" "\<lambda>_. fan_inv" for J
  by unfold_locales (auto intro: fan_inv_start imaging_step_fan)

text \<open>C9. Every client is written whole frames of the telescope only, each at most once and in the
  order of their arrival, whatever it misses by falling behind; and a client that catches up while the
  telescope is silent is written exactly what it has not seen of the last 32 frames.\<close>

theorem imaging_fan_out:
  assumes "reach_in img_start (imaging_step J) n s" and "i_clients s c = Some k"
  shows "subseq (ic_out k) (bhist (img_frames (img s))) \<and>
         bdrain (img_frames (img s)) (ic_pos k) =
           drop (max (ic_pos k) (length (bhist (img_frames (img s))) - 32))
             (bhist (img_frames (img s)))"
proof -
  let ?h = "bhist (img_frames (img s))"
  have inv: "fan_inv s" using fan.reach_inv [OF assms(1)] .
  then have "subseq (ic_out k) (take (ic_pos k) ?h)" using assms(2) by (simp add: fan_inv_def)
  then have "subseq (ic_out k) (take (ic_pos k) ?h @ drop (ic_pos k) ?h)" by (rule subseq_rev_drop_many)
  with inv show ?thesis by (simp add: bdrain_eq fan_inv_def)
qed

text \<open>A run in which one frame reaches a client.\<close>

definition demo_pic :: bytes where
  "demo_pic = encode_header 0 0 0 0 0 \<lparr> fh_size = 2, fh_code = 0, fh_id = 21, fh_width = 4, fh_height = 2 \<rparr>"

definition demo_viewer :: "nat \<Rightarrow> bytes list \<Rightarrow> img_client" where
  "demo_viewer p out = \<lparr> ic_pc = IReading, ic_pos = p, ic_writer = True, ic_out = out \<rparr>"

definition demo_img_state :: "bytes list \<Rightarrow> img_client \<Rightarrow> bytes \<Rightarrow> img_sys" where
  "demo_img_state hist k buf =
     \<lparr> img = (imaging_init None None)\<lparr> img_frames := \<lparr> bcap = 32, bhist = hist \<rparr> \<rparr>,
       i_clients = (\<lambda>_. None)(0 := Some k), i_next = 1,
       i_readers = (\<lambda>_. None)(0 := Some \<lparr> ir_buf = buf, ir_count = 0, ir_live = True \<rparr>), i_conns = 1,
       i_link = IConnected 0, i_wire = [], i_hb_id = 1, i_hb = None \<rparr>"

lemma demo_fan_reach:
  "reach_in img_start (imaging_step demo_json) 5
     (demo_img_state [demo_pic @ [7, 8]] (demo_viewer 1 [demo_pic @ [7, 8]]) [])"
proof -
  let ?s2 = "demo_img_state [] (demo_viewer 0 []) []"
  let ?s3 = "demo_img_state [] (demo_viewer 0 []) (demo_pic @ [7, 8])"
  let ?s4 = "demo_img_state [demo_pic @ [7, 8]] (demo_viewer 0 []) []"
  let ?s5 = "demo_img_state [demo_pic @ [7, 8]] (demo_viewer 1 [demo_pic @ [7, 8]]) []"
  note defs = demo_img_state_def demo_viewer_def imaging_init_def
  have w: "whole_frame (demo_pic, [7, 8])" by (simp add: whole_frame_def demo_pic_def)
  have s0: "reach_in img_start (imaging_step demo_json) 0 demo_img"
    by (rule reach_start) (auto simp: img_start_def demo_img_def)
  have s1: "imaging_step demo_json demo_img (img_accept demo_img)" by (rule i_accepts)
  have "imaging_step demo_json (img_accept demo_img) (img_connect (img_accept demo_img))"
    by (rule i_connects) (simp add: img_accept_def demo_img_def set_iclient_def)
  moreover have "img_connect (img_accept demo_img) = ?s2"
    by (simp add: img_connect_def img_accept_def demo_img_def set_iclient_def img_metrics_map_def
        set_imaging_up_def defs subscribe_def broadcast_channel_def)
  ultimately have s2: "imaging_step demo_json (img_accept demo_img) ?s2" by simp
  have "imaging_step demo_json ?s2
      (?s2\<lparr> i_readers := (i_readers ?s2)(0 := Some (\<lparr> ir_buf = [], ir_count = 0, ir_live = True \<rparr>
         \<lparr> ir_buf := [] @ (demo_pic @ [7, 8]) \<rparr>)) \<rparr>)"
    using i_receives [of ?s2 0 "\<lparr> ir_buf = [], ir_count = 0, ir_live = True \<rparr>" "demo_pic @ [7, 8]" demo_json]
    by (simp add: demo_img_state_def read_frame_def HEADER_SIZE_def)
  then have s3: "imaging_step demo_json ?s2 ?s3" by (simp add: demo_img_state_def)
  have "imaging_step demo_json ?s3 (img_reader_frame (\<lambda>_. True) (demo_clock 0) 0
      \<lparr> ir_buf = demo_pic @ [7, 8], ir_count = 0, ir_live = True \<rparr> demo_pic [7, 8] [] ?s3)"
    using read_frame_append [OF w, of "[]"] by (intro i_processes) (simp_all add: demo_img_state_def)
  then have s4: "imaging_step demo_json ?s3 ?s4"
    by (simp add: img_reader_frame_def process_frame_def defs bsend_def)
  have "imaging_step demo_json ?s4
      (set_iclient 0 ((demo_viewer 0 [])\<lparr> ic_out := ic_out (demo_viewer 0 []) @ [demo_pic @ [7, 8]], ic_pos := 1 \<rparr>) ?s4)"
    by (rule i_frame) (simp_all add: defs brecv_def)
  then have s5: "imaging_step demo_json ?s4 ?s5" by (simp add: defs set_iclient_def)
  from reach_step [OF reach_step [OF reach_step [OF reach_step [OF reach_step [OF s0 s1] s2] s3] s4] s5]
  show ?thesis by (simp add: numeral_eq_Suc)
qed

theorem imaging_fan_out_witness:
  "subseq [demo_pic @ [7, 8]] [demo_pic @ [7, 8]] \<and>
   bdrain (img_frames (img (demo_img_state [demo_pic @ [7, 8]] (demo_viewer 1 [demo_pic @ [7, 8]]) []))) 1 = []"
  using imaging_fan_out [OF demo_fan_reach, of 0 "demo_viewer 1 [demo_pic @ [7, 8]]"]
  by (simp add: demo_img_state_def demo_viewer_def)

end
