(* ===== verification/Replay_Imaging.thy ===== *)
theory Replay_Imaging
  imports Imaging Long_Word
begin

text \<open>
  \<open>imaging::run\<close> in replay mode.  There is no upstream task and no heartbeat: one task drains the commands
  of the clients, another one plays the recorded frames into the frame channel, while the clients are
  served as ever.  Their tasks are those of \<open>imaging_step\<close>: as the link is down and no reader exists,
  none of the rules of the upstream tasks applies.
\<close>

record img_replay =
  ip :: img_sys
  ip_todo :: "string list"
  ip_draining :: bool

definition img_replay_start :: "string list \<Rightarrow> img_replay \<Rightarrow> bool" where
  "img_replay_start paths s \<longleftrightarrow> (\<exists>m r. s =
     \<lparr> ip = \<lparr> img = imaging_init m r, i_clients = (\<lambda>_. None), i_next = 0, i_readers = (\<lambda>_. None), i_conns = 0,
              i_link = IDead, i_wire = [], i_hb_id = 1, i_hb = None \<rparr>,
       ip_todo = paths, ip_draining = True \<rparr>)"

text \<open>One file of the recording: a file that cannot be read or is too short is skipped.\<close>

definition play_frame :: "(string \<Rightarrow> bytes option) \<Rightarrow> clock \<Rightarrow> string \<Rightarrow> imaging \<Rightarrow> imaging" where
  "play_frame rd nw path s = (case rd path of
      None \<Rightarrow> s
    | Some data \<Rightarrow>
        if length data < HEADER_SIZE then s
        else (img_metrics_map (replay_frame_metrics nw data) s)\<lparr> img_frames := bsend data (img_frames s) \<rparr>)"

text \<open>One turn of the drain task: the log line slices the message.\<close>

definition drain_commands :: "bool \<Rightarrow> string \<Rightarrow> string mpsc \<Rightarrow> img_replay \<Rightarrow> img_replay" where
  "drain_commands debug msg up s =
     (if debug \<and> log_prefix msg 120 = Panic
      then s\<lparr> ip := (ip s)\<lparr> img := (img (ip s))\<lparr> img_upstream := close_rx up \<rparr> \<rparr>, ip_draining := False \<rparr>
      else s\<lparr> ip := (ip s)\<lparr> img := (img (ip s))\<lparr> img_upstream := up \<rparr> \<rparr> \<rparr>)"

inductive img_replay_step :: "json_codec \<Rightarrow> (string \<Rightarrow> bytes option) \<Rightarrow> img_replay \<Rightarrow> img_replay \<Rightarrow> bool" for J rd where
  ip_client_task: "imaging_step J (ip s) t \<Longrightarrow> i_hb t = i_hb (ip s) \<Longrightarrow> img_replay_step J rd s (s\<lparr> ip := t \<rparr>)"
| ip_plays: "ip_todo s = path # rest \<Longrightarrow>
    img_replay_step J rd s (s\<lparr> ip := (ip s)\<lparr> img := play_frame rd nw path (img (ip s)) \<rparr>, ip_todo := rest \<rparr>)"
| ip_drains: "ip_draining s \<Longrightarrow> recv (img_upstream (img (ip s))) = Some (x, up) \<Longrightarrow>
    img_replay_step J rd s (drain_commands debug x up s)"

section \<open>Clients without a telescope\<close>

definition img_offline :: "img_sys \<Rightarrow> bool" where
  "img_offline s \<longleftrightarrow> i_link s = IDead \<and> i_readers s = (\<lambda>_. None) \<and> i_hb s = None \<and> i_wire s = []"

text \<open>A step of a client brings no frames, sends nothing to a telescope and leaves the command queue
  open or closed as it is.\<close>

lemma img_offline_step:
  assumes "img_offline s" and "imaging_step J s t" and "i_hb t = i_hb s"
  shows "img_offline t \<and> img_frames (img t) = img_frames (img s) \<and>
     mopen (img_upstream (img t)) = mopen (img_upstream (img s))"
  using assms(2)
proof cases
  case (i_reads c k cs n line rest nw)
  have "img_upstream (fst (img_line J nw n line (img s))) = img_upstream (img s)"
    "img_frames (fst (img_line J nw n line (img s))) = img_frames (img s)"
    by (simp_all add: img_line_def Let_def img_metrics_map_def)
  then show ?thesis using i_reads assms(1)
    by (auto simp: img_offline_def img_move_def set_iclient_def split: prod.splits)
next
  case (i_sends c k x q)
  have "img_frames (fst q) = img_frames (img s)" "mopen (img_upstream (fst q)) = mopen (img_upstream (img s))"
    using i_sends by (auto simp: img_send_def poll_send_def try_send_def split: send_poll.splits if_splits)
  then show ?thesis using i_sends assms(1)
    by (auto simp: img_offline_def img_move_def set_iclient_def split: prod.splits)
qed (use assms(1,3) in \<open>auto simp: img_offline_def img_accept_def img_move_def img_finish_def set_iclient_def img_metrics_map_def\<close>)

section \<open>What the clients get\<close>

definition played :: "(string \<Rightarrow> bytes option) \<Rightarrow> string list \<Rightarrow> bytes list" where
  "played rd ps = filter (\<lambda>d. HEADER_SIZE \<le> length d) (List.map_filter rd ps)"

lemma played_append: "played rd (ps @ qs) = played rd ps @ played rd qs"
  by (simp add: played_def map_filter_def)

lemma play_frame_result:
  "bhist (img_frames (play_frame rd nw path s)) = bhist (img_frames s) @ played rd [path]"
  "bcap (img_frames (play_frame rd nw path s)) = bcap (img_frames s)"
  "img_upstream (play_frame rd nw path s) = img_upstream s"
  by (cases "rd path"; simp add: play_frame_def played_def map_filter_simps img_metrics_map_def bsend_def HEADER_SIZE_def)+

definition img_replay_inv :: "(string \<Rightarrow> bytes option) \<Rightarrow> string list \<Rightarrow> img_replay \<Rightarrow> bool" where
  "img_replay_inv rd paths s \<longleftrightarrow> fan_inv (ip s) \<and> img_offline (ip s) \<and> (ip_draining s \<longleftrightarrow> mopen (img_upstream (img (ip s)))) \<and>
     (\<exists>ps. paths = ps @ ip_todo s \<and> bhist (img_frames (img (ip s))) = played rd ps)"

lemma img_replay_inv_client:
  assumes inv: "img_replay_inv rd paths s" and "imaging_step J (ip s) u" and "i_hb u = i_hb (ip s)"
  shows "img_replay_inv rd paths (s\<lparr> ip := u \<rparr>)"
proof -
  have "img_offline u \<and> img_frames (img u) = img_frames (img (ip s)) \<and> mopen (img_upstream (img u)) = mopen (img_upstream (img (ip s)))"
    using inv by (intro img_offline_step [OF _ assms(2,3)]) (simp add: img_replay_inv_def)
  moreover have "fan_inv u" using inv by (intro imaging_step_fan [OF _ assms(2)]) (simp add: img_replay_inv_def)
  ultimately show ?thesis using inv by (simp add: img_replay_inv_def)
qed

lemma img_replay_inv_play:
  assumes inv: "img_replay_inv rd paths s" and todo: "ip_todo s = path # rest"
  shows "img_replay_inv rd paths (s\<lparr> ip := (ip s)\<lparr> img := play_frame rd nw path (img (ip s)) \<rparr>, ip_todo := rest \<rparr>)"
proof -
  let ?u = "(ip s)\<lparr> img := play_frame rd nw path (img (ip s)) \<rparr>"
  obtain ps where ps: "paths = ps @ path # rest" "bhist (img_frames (img (ip s))) = played rd ps"
    using inv todo by (auto simp: img_replay_inv_def)
  have "fan_inv ?u" by (rule fan_inv_frames [of "ip s"]) (use inv in \<open>simp_all add: img_replay_inv_def play_frame_result\<close>)
  moreover have "img_offline ?u" "ip_draining s \<longleftrightarrow> mopen (img_upstream (img ?u))"
    using inv by (simp_all add: img_replay_inv_def img_offline_def play_frame_result)
  moreover have "paths = (ps @ [path]) @ rest" "bhist (img_frames (img ?u)) = played rd (ps @ [path])"
    by (simp_all add: play_frame_result ps played_append)
  ultimately show ?thesis unfolding img_replay_inv_def by auto
qed

lemma img_replay_inv_drain:
  assumes inv: "img_replay_inv rd paths s" and "ip_draining s" and "recv (img_upstream (img (ip s))) = Some (x, up)"
  shows "img_replay_inv rd paths (drain_commands debug x up s)"
proof -
  have "mopen up" using inv assms(2,3) by (auto simp: img_replay_inv_def recv_def split: list.splits)
  moreover have "fan_inv ((ip s)\<lparr> img := (img (ip s))\<lparr> img_upstream := q \<rparr> \<rparr>)" for q
    by (rule fan_inv_frames [of "ip s"]) (use inv in \<open>simp_all add: img_replay_inv_def\<close>)
  ultimately show ?thesis using inv assms(2) by (simp add: img_replay_inv_def drain_commands_def img_offline_def close_rx_def)
qed

lemma img_replay_inv_step: "img_replay_inv rd paths s \<Longrightarrow> img_replay_step J rd s t \<Longrightarrow> img_replay_inv rd paths t"
  by (erule img_replay_step.cases)
    (simp_all add: img_replay_inv_client img_replay_inv_play img_replay_inv_drain)

interpretation irep: counted_invariant "img_replay_start paths" "img_replay_step J rd" "\<lambda>_. img_replay_inv rd paths" for paths J rd
proof unfold_locales
  fix s assume "img_replay_start paths s"
  then show "img_replay_inv rd paths s"
    by (auto simp: img_replay_start_def img_replay_inv_def fan_inv_def img_offline_def imaging_init_def broadcast_channel_def
        mpsc_channel_def played_def map_filter_simps)
qed (rule img_replay_inv_step)

text \<open>C36. In replay mode every imaging client is written frames of the recording only, each at most once and in
  the order of the recording, starting when it connects; nothing its commands say goes anywhere; and
  the clients can send commands until the drain task dies in its log line, from when on the
  first command of a client disconnects it.\<close>

theorem imaging_replay_clients:
  assumes "reach_in (img_replay_start paths) (img_replay_step J rd) n s"
  shows "(\<exists>ps. paths = ps @ ip_todo s \<and> bhist (img_frames (img (ip s))) = played rd ps) \<and> i_wire (ip s) = [] \<and>
     (i_clients (ip s) c = Some k \<longrightarrow> subseq (ic_out k) (bhist (img_frames (img (ip s))))) \<and>
     (ip_draining s \<longrightarrow> img_send x (img (ip s)) \<noteq> Some (img (ip s), ILeft)) \<and>
     (\<not> ip_draining s \<longrightarrow> img_send x (img (ip s)) = Some (img (ip s), ILeft))"
proof -
  have inv: "img_replay_inv rd paths s" by (rule irep.reach_inv [OF assms])
  have "subseq (ic_out k) (bhist (img_frames (img (ip s))))" if "i_clients (ip s) c = Some k"
  proof -
    have "subseq (ic_out k) (take (ic_pos k) (bhist (img_frames (img (ip s)))))"
      using inv that by (auto simp: img_replay_inv_def fan_inv_def)
    then show ?thesis by (metis append_take_drop_id subseq_rev_drop_many)
  qed
  moreover have "img_send x (img (ip s)) = Some (img (ip s), ILeft) \<longleftrightarrow> \<not> mopen (img_upstream (img (ip s)))"
    by (auto simp: img_send_def poll_send_def try_send_def split: send_poll.splits if_splits)
  ultimately show ?thesis using inv by (auto simp: img_replay_inv_def img_offline_def)
qed

text \<open>The drain task does die: with debug output on, a command of 121 bytes that ends in a character of two
  is enough, although the task is there to keep the queue open.\<close>

lemma drain_task_dies: "\<not> ip_draining (drain_commands True (long_word 119) up s)"
  using long_word_boundary [of 119] by (simp add: drain_commands_def log_prefix_Panic long_word_def)

text \<open>A run in which the one recorded frame reaches a client.\<close>

definition demo_film :: bytes where
  "demo_film = replicate 80 0"

definition demo_showing :: "bytes list \<Rightarrow> string list \<Rightarrow> img_client \<Rightarrow> img_replay" where
  "demo_showing hist todo k =
     \<lparr> ip = (demo_img_state hist k [])\<lparr> i_readers := (\<lambda>_. None), i_conns := 0, i_link := IDead \<rparr>, ip_todo = todo, ip_draining = True \<rparr>"

lemma demo_showing_reach:
  "reach_in (img_replay_start [''a'']) (img_replay_step demo_json (\<lambda>_. Some demo_film)) 3
     (demo_showing [demo_film] [] (demo_viewer 1 [demo_film]))"
proof -
  let ?R = "img_replay_step demo_json (\<lambda>_. Some demo_film)"
  let ?s0 = "\<lparr> ip = demo_img\<lparr> i_link := IDead \<rparr>, ip_todo = [''a''], ip_draining = True \<rparr>"
  let ?s1 = "demo_showing [] [''a''] (demo_viewer 0 [])" and ?s2 = "demo_showing [demo_film] [] (demo_viewer 0 [])"
  note defs = demo_showing_def demo_img_state_def demo_viewer_def imaging_init_def set_iclient_def img_metrics_map_def
  have s0: "reach_in (img_replay_start [''a'']) ?R 0 ?s0"
    by (rule reach_start) (auto simp: img_replay_start_def demo_img_def)
  have "?R ?s0 (?s0\<lparr> ip := img_accept (ip ?s0) \<rparr>)"
    by (rule ip_client_task, rule i_accepts) (simp add: img_accept_def set_iclient_def)
  then have s1: "?R ?s0 ?s1" by (simp add: img_accept_def demo_img_def defs subscribe_def broadcast_channel_def)
  have "?R ?s1 (?s1\<lparr> ip := (ip ?s1)\<lparr> img := play_frame (\<lambda>_. Some demo_film) (demo_clock 0) ''a'' (img (ip ?s1)) \<rparr>, ip_todo := [] \<rparr>)"
    by (rule ip_plays) (simp add: demo_showing_def)
  then have s2: "?R ?s1 ?s2" by (simp add: play_frame_def demo_film_def HEADER_SIZE_def defs bsend_def)
  have "?R ?s2 (?s2\<lparr> ip := set_iclient 0 ((demo_viewer 0 [])\<lparr> ic_out := ic_out (demo_viewer 0 []) @ [demo_film], ic_pos := 1 \<rparr>) (ip ?s2) \<rparr>)"
    by (rule ip_client_task, rule i_frame) (simp_all add: defs brecv_def)
  then have s3: "?R ?s2 (demo_showing [demo_film] [] (demo_viewer 1 [demo_film]))" by (simp add: defs)
  from reach_step [where step = ?R, OF reach_step [where step = ?R, OF reach_step [where step = ?R, OF s0 s1] s2] s3]
  show ?thesis by (simp add: numeral_eq_Suc)
qed

theorem imaging_replay_clients_witness:
  "\<exists>ps. [''a''] = ps @ [] \<and> [demo_film] = played (\<lambda>_. Some demo_film) ps \<and> subseq [demo_film] [demo_film]"
  using imaging_replay_clients [OF demo_showing_reach, of 0 "demo_viewer 1 [demo_film]" "[]"]
  by (simp add: demo_showing_def demo_img_state_def demo_viewer_def)

end
