(* ===== verification/Wg_Netstack.thy ===== *)
theory Wg_Netstack
  imports Channels Machines "HOL-Library.Sublist"
begin

text \<open>
  \<open>src/wireguard/netstack.rs\<close> and \<open>src/wireguard/bridge.rs\<close>: the userspace TCP stack's poll loop and
  the bridges from tunnel connections to the proxy's own ports.  The TCP implementation (smoltcp) is
  third-party: what it answers in one turn of the loop is a \<open>poll_view\<close>.  A connection keeps, beside
  its two channels, the history of the chunks that passed: read from the socket, written to the local
  connection, read from the local connection, handed to the socket and what of each the socket took.
\<close>

section \<open>The virtual device\<close>

record vdev =
  rx_queue :: "bytes list"
  tx_queue :: "bytes list"
  mtu :: nat

definition vdev_new :: "nat \<Rightarrow> vdev" where
  "vdev_new m = \<lparr> rx_queue = [], tx_queue = [], mtu = m \<rparr>"

definition vdev_inject :: "bytes \<Rightarrow> vdev \<Rightarrow> vdev" where
  "vdev_inject packet d = d\<lparr> rx_queue := rx_queue d @ [packet] \<rparr>"

definition vdev_drain :: "vdev \<Rightarrow> (bytes \<times> vdev) option" where
  "vdev_drain d = (case tx_queue d of [] \<Rightarrow> None | p # ps \<Rightarrow> Some (p, d\<lparr> tx_queue := ps \<rparr>))"

text \<open>\<open>receive\<close> hands out the oldest packet with a token to transmit; consuming a transmit token queues the
  packet that was written.\<close>

definition vdev_receive :: "vdev \<Rightarrow> (bytes \<times> vdev) option" where
  "vdev_receive d = (case rx_queue d of [] \<Rightarrow> None | p # ps \<Rightarrow> Some (p, d\<lparr> rx_queue := ps \<rparr>))"

definition vdev_transmit :: "bytes \<Rightarrow> vdev \<Rightarrow> vdev" where
  "vdev_transmit packet d = d\<lparr> tx_queue := tx_queue d @ [packet] \<rparr>"

section \<open>State\<close>

record tunnel_conn =
  tc_port :: u16
  tc_from :: "bytes mpsc"
  tc_to :: "bytes mpsc"
  tc_read :: "bytes list"
  tc_local :: "bytes list"
  tc_in :: "bytes list"
  tc_out :: "bytes list"
  tc_sent :: "bytes list"

definition new_conn :: "u16 \<Rightarrow> tunnel_conn" where
  "new_conn port = \<lparr> tc_port = port, tc_from = mpsc_channel 64, tc_to = mpsc_channel 64,
     tc_read = [], tc_local = [], tc_in = [], tc_out = [], tc_sent = [] \<rparr>"

text \<open>The two pipes of a bridge: still running or not.\<close>

record bridge =
  br_to_local :: bool
  br_to_tunnel :: bool

record netstack =
  ns_dev :: vdev
  ns_active :: "nat \<Rightarrow> nat option" \<comment> \<open>\<open>active_connections\<close>: from a socket to its connection\<close>
  ns_conns :: "nat \<Rightarrow> tunnel_conn option"
  ns_next :: nat
  ns_conn_tx :: "nat mpsc"
  ns_egress :: "bytes mpsc"
  ns_bridges :: "nat \<Rightarrow> bridge option"

definition netstack_init :: netstack where
  "netstack_init = \<lparr> ns_dev = vdev_new 1420, ns_active = (\<lambda>_. None), ns_conns = (\<lambda>_. None), ns_next = 0,
     ns_conn_tx = mpsc_channel 16, ns_egress = mpsc_channel 256, ns_bridges = (\<lambda>_. None) \<rparr>"

text \<open>One turn as smoltcp sees it: the packet that arrived, how many queued packets it took and which it
  transmitted, whether a socket changed, and for each socket whether it is active, what \<open>recv_slice\<close>
  returns, whether it can send and how many bytes it takes; last the order in which the hash map
  of connections is visited.\<close>

record poll_view =
  pv_packet :: "bytes option"
  pv_taken :: nat
  pv_tx :: "bytes list"
  pv_changed :: bool
  pv_active :: "nat \<Rightarrow> bool"
  pv_recv :: "nat \<Rightarrow> bytes"
  pv_can_send :: "nat \<Rightarrow> bool"
  pv_room :: "nat \<Rightarrow> nat"
  pv_order :: "nat list"

section \<open>The poll loop\<close>

fun take_packets :: "nat \<Rightarrow> vdev \<Rightarrow> vdev" where
  "take_packets 0 d = d"
| "take_packets (Suc n) d = (case vdev_receive d of None \<Rightarrow> d | Some (_, d') \<Rightarrow> take_packets n d')"

definition poll_device :: "poll_view \<Rightarrow> vdev \<Rightarrow> vdev" where
  "poll_device v d = fold vdev_transmit (pv_tx v) (take_packets (pv_taken v) d)"

definition upd_conn :: "nat \<Rightarrow> (tunnel_conn \<Rightarrow> tunnel_conn) \<Rightarrow> netstack \<Rightarrow> netstack" where
  "upd_conn c f s = (case ns_conns s c of None \<Rightarrow> s | Some k \<Rightarrow> s\<lparr> ns_conns := (ns_conns s)(c \<mapsto> f k) \<rparr>)"

definition accept_conn :: "poll_view \<Rightarrow> nat \<times> u16 \<Rightarrow> netstack \<Rightarrow> netstack" where
  "accept_conn v hp s =
     (if pv_active v (fst hp) \<and> ns_active s (fst hp) = None then
        let c = ns_next s;
            s1 = s\<lparr> ns_active := (ns_active s)(fst hp \<mapsto> c), ns_conns := (ns_conns s)(c \<mapsto> new_conn (snd hp)), ns_next := Suc c \<rparr>
        in case try_send c (ns_conn_tx s1) of
             Inr q \<Rightarrow> s1\<lparr> ns_conn_tx := q \<rparr>
           | Inl _ \<Rightarrow> upd_conn c (\<lambda>k. k\<lparr> tc_from := close_rx (tc_from k) \<rparr>) s1
      else s)"

definition socket_to_proxy :: "poll_view \<Rightarrow> nat \<Rightarrow> tunnel_conn \<Rightarrow> tunnel_conn" where
  "socket_to_proxy v h k =
     (let buf = take 4096 (pv_recv v h) in
      if buf = [] then k
      else let k1 = k\<lparr> tc_read := tc_read k @ [buf] \<rparr>
           in case try_send buf (tc_from k1) of Inr q \<Rightarrow> k1\<lparr> tc_from := q \<rparr> | Inl _ \<Rightarrow> k1)"

definition proxy_to_socket :: "poll_view \<Rightarrow> nat \<Rightarrow> tunnel_conn \<Rightarrow> tunnel_conn" where
  "proxy_to_socket v h k =
     (if \<not> pv_can_send v h then k
      else case recv (tc_to k) of
          None \<Rightarrow> k
        | Some (data, q) \<Rightarrow> k\<lparr> tc_to := q, tc_out := tc_out k @ [data], tc_sent := tc_sent k @ [take (pv_room v h) data] \<rparr>)"

definition transfer :: "poll_view \<Rightarrow> nat \<Rightarrow> netstack \<Rightarrow> netstack" where
  "transfer v h s = (case ns_active s h of
      None \<Rightarrow> s
    | Some c \<Rightarrow> if \<not> pv_active v h then s else upd_conn c (\<lambda>k. proxy_to_socket v h (socket_to_proxy v h k)) s)"

text \<open>Removing a connection drops the sender of one channel and the receiver of the other.\<close>

definition remove_conn :: "poll_view \<Rightarrow> nat \<Rightarrow> netstack \<Rightarrow> netstack" where
  "remove_conn v h s = (case ns_active s h of
      None \<Rightarrow> s
    | Some c \<Rightarrow> if pv_active v h then s
        else (upd_conn c (\<lambda>k. k\<lparr> tc_to := close_rx (tc_to k) \<rparr>) s)\<lparr> ns_active := (ns_active s)(h := None) \<rparr>)"

definition offer :: "bytes \<Rightarrow> bytes mpsc \<Rightarrow> bytes mpsc" where
  "offer packet egress_tx = (case try_send packet egress_tx of Inr q \<Rightarrow> q | Inl _ \<Rightarrow> egress_tx)"

function drain_device :: "vdev \<Rightarrow> bytes mpsc \<Rightarrow> vdev \<times> bytes mpsc" where
  "drain_device d q = (case vdev_drain d of
      None \<Rightarrow> (d, q)
    | Some (p, d') \<Rightarrow> drain_device d' (offer p q))"
  by pat_completeness auto
termination
  by (relation "measure (\<lambda>(d, q). length (tx_queue d))") (auto simp: vdev_drain_def split: list.splits)

declare drain_device.simps [simp del]

definition poll_turn :: "u16 \<Rightarrow> u16 \<Rightarrow> poll_view \<Rightarrow> netstack \<Rightarrow> netstack" where
  "poll_turn control_port imaging_port v s =
     (let s1 = (case pv_packet v of Some p \<Rightarrow> s\<lparr> ns_dev := vdev_inject p (ns_dev s) \<rparr> | None \<Rightarrow> s);
          s2 = s1\<lparr> ns_dev := poll_device v (ns_dev s1) \<rparr>;
          s3 = (if pv_changed v then
                  fold (remove_conn v) (pv_order v)
                    (fold (transfer v) (pv_order v)
                      (fold (accept_conn v) [(0, control_port), (1, imaging_port)] s2))
                else s2)
      in case drain_device (ns_dev s3) (ns_egress s3) of (d, q) \<Rightarrow> s3\<lparr> ns_dev := d, ns_egress := q \<rparr>)"

section \<open>Bridges\<close>

text \<open>The task that takes accepted connections: connecting to the local port succeeds or not.\<close>

definition bridge_accept :: "bool \<Rightarrow> netstack \<Rightarrow> netstack" where
  "bridge_accept connected s = (case recv (ns_conn_tx s) of
      None \<Rightarrow> s
    | Some (c, q) \<Rightarrow>
        if connected then s\<lparr> ns_conn_tx := q, ns_bridges := (ns_bridges s)(c \<mapsto> \<lparr> br_to_local = True, br_to_tunnel = True \<rparr>) \<rparr>
        else upd_conn c (\<lambda>k. k\<lparr> tc_from := close_rx (tc_from k) \<rparr>) (s\<lparr> ns_conn_tx := q \<rparr>))"

definition set_bridge :: "nat \<Rightarrow> (bridge \<Rightarrow> bridge) \<Rightarrow> netstack \<Rightarrow> netstack" where
  "set_bridge c f s = s\<lparr> ns_bridges := (ns_bridges s)(c := map_option f (ns_bridges s c)) \<rparr>"

text \<open>The sender of a connection's channel lives as long as the connection is active.\<close>

definition sender_alive :: "nat \<Rightarrow> netstack \<Rightarrow> bool" where
  "sender_alive c s \<longleftrightarrow> ns_active s 0 = Some c \<or> ns_active s 1 = Some c"

definition tunnel_to_local :: "nat \<Rightarrow> bool \<Rightarrow> netstack \<Rightarrow> netstack" where
  "tunnel_to_local c written s = (case (ns_bridges s c, ns_conns s c) of
      (Some b, Some k) \<Rightarrow>
        if \<not> br_to_local b then s
        else (case recv (tc_from k) of
            Some (data, q) \<Rightarrow>
              if written then upd_conn c (\<lambda>k. k\<lparr> tc_from := q, tc_local := tc_local k @ [data] \<rparr>) s
              else set_bridge c (\<lambda>b. b\<lparr> br_to_local := False \<rparr>) (upd_conn c (\<lambda>k. k\<lparr> tc_from := close_rx q \<rparr>) s)
          | None \<Rightarrow> if sender_alive c s then s
              else set_bridge c (\<lambda>b. b\<lparr> br_to_local := False \<rparr>) (upd_conn c (\<lambda>k. k\<lparr> tc_from := close_rx (tc_from k) \<rparr>) s))
    | _ \<Rightarrow> s)"

text \<open>A read of the local connection: nothing at its end or on an error, else at most 32768 bytes, whose
  \<open>send\<close> waits for room.\<close>

definition local_to_tunnel :: "nat \<Rightarrow> bytes option \<Rightarrow> netstack \<Rightarrow> netstack" where
  "local_to_tunnel c data s = (case (ns_bridges s c, ns_conns s c) of
      (Some b, Some k) \<Rightarrow>
        if \<not> br_to_tunnel b then s
        else (case data of
            None \<Rightarrow> set_bridge c (\<lambda>b. b\<lparr> br_to_tunnel := False \<rparr>) s
          | Some d \<Rightarrow> (case poll_send (take 32768 d) (tc_to k) of
              Waiting \<Rightarrow> s
            | Failed \<Rightarrow> set_bridge c (\<lambda>b. b\<lparr> br_to_tunnel := False \<rparr>) s
            | Sent q \<Rightarrow> upd_conn c (\<lambda>k. k\<lparr> tc_to := q, tc_in := tc_in k @ [take 32768 d] \<rparr>) s))
    | _ \<Rightarrow> s)"

text \<open>The packet loop takes a packet for encryption.\<close>

definition egress_take :: "netstack \<Rightarrow> netstack" where
  "egress_take s = (case recv (ns_egress s) of None \<Rightarrow> s | Some (_, q) \<Rightarrow> s\<lparr> ns_egress := q \<rparr>)"

inductive tunnel_step :: "u16 \<Rightarrow> u16 \<Rightarrow> netstack \<Rightarrow> netstack \<Rightarrow> bool" for cp ip where
  t_poll: "tunnel_step cp ip s (poll_turn cp ip v s)"
| t_accept: "tunnel_step cp ip s (bridge_accept connected s)"
| t_to_local: "tunnel_step cp ip s (tunnel_to_local c written s)"
| t_to_tunnel: "tunnel_step cp ip s (local_to_tunnel c data s)"
| t_egress: "tunnel_step cp ip s (egress_take s)"

section \<open>Streams stay in order\<close>

definition conn_ok :: "u16 \<Rightarrow> u16 \<Rightarrow> tunnel_conn \<Rightarrow> bool" where
  "conn_ok cp ip k \<longleftrightarrow> tc_port k \<in> {cp, ip} \<and>
     mpsc_wf (tc_from k) \<and> mcap (tc_from k) = 64 \<and> mpsc_wf (tc_to k) \<and> mcap (tc_to k) = 64 \<and>
     subseq (tc_local k @ mbuf (tc_from k)) (tc_read k) \<and>
     prefix (tc_out k @ mbuf (tc_to k)) (tc_in k) \<and> (mopen (tc_to k) \<longrightarrow> tc_in k = tc_out k @ mbuf (tc_to k)) \<and>
     list_all2 prefix (tc_sent k) (tc_out k)"

definition netstack_ok :: "u16 \<Rightarrow> u16 \<Rightarrow> netstack \<Rightarrow> bool" where
  "netstack_ok cp ip s \<longleftrightarrow> (\<forall>c k. ns_conns s c = Some k \<longrightarrow> conn_ok cp ip k) \<and>
     mpsc_wf (ns_conn_tx s) \<and> mcap (ns_conn_tx s) = 16 \<and> mpsc_wf (ns_egress s) \<and> mcap (ns_egress s) = 256"

lemma try_send_wf: "mpsc_wf q \<Longrightarrow> try_send x q = Inr q' \<Longrightarrow> mpsc_wf q' \<and> mcap q' = mcap q \<and> mbuf q' = mbuf q @ [x] \<and> mopen q' \<and> mopen q"
  by (auto simp: try_send_def mpsc_wf_def split: if_splits)

lemma recv_wf: "mpsc_wf q \<Longrightarrow> recv q = Some (x, q') \<Longrightarrow> mpsc_wf q' \<and> mcap q' = mcap q \<and> mbuf q = x # mbuf q' \<and> mopen q' = mopen q"
  by (auto simp: recv_def mpsc_wf_def split: list.splits)

lemma close_wf: "mpsc_wf (close_rx q)" "mcap (close_rx q) = mcap q" "mbuf (close_rx q) = []" "\<not> mopen (close_rx q)"
  by (simp_all add: close_rx_def mpsc_wf_def)

lemma new_conn_ok: "p \<in> {cp, ip} \<Longrightarrow> conn_ok cp ip (new_conn p)"
  by (simp add: conn_ok_def new_conn_def mpsc_channel_def mpsc_wf_def)

lemma subseq_drop_end: "subseq (xs @ ys) zs \<Longrightarrow> subseq xs zs"
  by (rule subseq_order.order_trans [of _ "xs @ ys"]) (simp_all add: prefix_imp_subseq)

lemma subseq_more: "subseq xs zs \<Longrightarrow> subseq xs (zs @ ws)"
  by (rule subseq_order.order_trans [of _ zs]) (simp_all add: prefix_imp_subseq)

lemma close_from_ok: "conn_ok cp ip k \<Longrightarrow> conn_ok cp ip (k\<lparr> tc_from := close_rx (tc_from k) \<rparr>)"
  by (auto simp: conn_ok_def close_wf intro: subseq_drop_end)

lemma close_to_ok: "conn_ok cp ip k \<Longrightarrow> conn_ok cp ip (k\<lparr> tc_to := close_rx (tc_to k) \<rparr>)"
  by (auto simp: conn_ok_def close_wf intro: append_prefixD)

lemma socket_to_proxy_ok:
  assumes "conn_ok cp ip k"
  shows "conn_ok cp ip (socket_to_proxy v h k)"
proof (cases "try_send (take 4096 (pv_recv v h)) (tc_from k)")
  case (Inl e)
  with assms show ?thesis by (auto simp: conn_ok_def socket_to_proxy_def Let_def subseq_more)
next
  case (Inr q)
  from assms have "mpsc_wf (tc_from k)" by (simp add: conn_ok_def)
  from try_send_wf [OF this Inr] assms show ?thesis
    by (auto simp: conn_ok_def socket_to_proxy_def Let_def Inr simp flip: append_assoc)
qed

lemma proxy_to_socket_ok:
  assumes "conn_ok cp ip k"
  shows "conn_ok cp ip (proxy_to_socket v h k)"
proof (cases "recv (tc_to k)")
  case (Some p)
  obtain data q where p: "p = (data, q)" by fastforce
  with assms Some recv_wf [of "tc_to k" data q] show ?thesis
    by (auto simp: conn_ok_def proxy_to_socket_def list_all2_appendI take_is_prefix)
qed (use assms in \<open>simp add: proxy_to_socket_def\<close>)

lemma upd_conn_ok:
  "netstack_ok cp ip s \<Longrightarrow> (\<And>k. ns_conns s c = Some k \<Longrightarrow> conn_ok cp ip k \<Longrightarrow> conn_ok cp ip (f k)) \<Longrightarrow> netstack_ok cp ip (upd_conn c f s)"
  by (auto simp: netstack_ok_def upd_conn_def split: option.splits)

lemma conns_frame:
  "netstack_ok cp ip s \<Longrightarrow> ns_conns t = ns_conns s \<Longrightarrow> ns_conn_tx t = ns_conn_tx s \<Longrightarrow> ns_egress t = ns_egress s \<Longrightarrow>
     netstack_ok cp ip t"
  by (simp add: netstack_ok_def)

lemma netstack_ok_frame [simp]:
  "netstack_ok cp ip (s\<lparr> ns_active := a \<rparr>) = netstack_ok cp ip s"
  "netstack_ok cp ip (s\<lparr> ns_bridges := b \<rparr>) = netstack_ok cp ip s"
  "netstack_ok cp ip (s\<lparr> ns_dev := d \<rparr>) = netstack_ok cp ip s"
  by (simp_all add: netstack_ok_def)

lemma set_bridge_ok: "netstack_ok cp ip s \<Longrightarrow> netstack_ok cp ip (set_bridge c f s)"
  by (erule conns_frame) (simp_all add: set_bridge_def)

lemma accept_conn_ok:
  assumes "netstack_ok cp ip s" and "snd hp \<in> {cp, ip}"
  shows "netstack_ok cp ip (accept_conn v hp s)"
proof -
  let ?s1 = "s\<lparr> ns_active := (ns_active s)(fst hp \<mapsto> ns_next s), ns_conns := (ns_conns s)(ns_next s \<mapsto> new_conn (snd hp)), ns_next := Suc (ns_next s) \<rparr>"
  have s1: "netstack_ok cp ip ?s1" using assms new_conn_ok [OF assms(2)] by (auto simp: netstack_ok_def)
  show ?thesis
  proof (cases "try_send (ns_next s) (ns_conn_tx ?s1)")
    case (Inl err)
    with assms(1) s1 show ?thesis
      by (auto simp: accept_conn_def Let_def intro!: upd_conn_ok close_from_ok)
  next
    case (Inr q)
    have "mpsc_wf (ns_conn_tx ?s1)" using s1 by (simp add: netstack_ok_def)
    from try_send_wf [OF this Inr] Inr assms(1) s1 show ?thesis
      by (auto simp: accept_conn_def Let_def netstack_ok_def)
  qed
qed

lemma transfer_ok: "netstack_ok cp ip s \<Longrightarrow> netstack_ok cp ip (transfer v h s)"
  by (auto simp: transfer_def split: option.splits intro!: upd_conn_ok proxy_to_socket_ok socket_to_proxy_ok)

lemma remove_conn_ok:
  assumes "netstack_ok cp ip s"
  shows "netstack_ok cp ip (remove_conn v h s)"
proof -
  have "netstack_ok cp ip (upd_conn c (\<lambda>k. k\<lparr> tc_to := close_rx (tc_to k) \<rparr>) s)" for c
    by (rule upd_conn_ok [OF assms]) (rule close_to_ok)
  with assms show ?thesis by (auto simp: remove_conn_def split: option.splits)
qed

lemma fold_ok: "(\<And>x s. x \<in> set xs \<Longrightarrow> P s \<Longrightarrow> P (f x s)) \<Longrightarrow> P s \<Longrightarrow> P (fold f xs s)"
  by (induction xs arbitrary: s) auto

lemma drain_device_fold: "drain_device d q = (d\<lparr> tx_queue := [] \<rparr>, fold offer (tx_queue d) q)"
proof (induction "tx_queue d" arbitrary: d q)
  case Nil
  then have "vdev_drain d = None" by (simp add: vdev_drain_def flip: Nil)
  moreover have "d = d\<lparr> tx_queue := [] \<rparr>" using Nil by (cases d) simp
  ultimately show ?case by (subst drain_device.simps) (simp flip: Nil)
next
  case (Cons p ps)
  then have "vdev_drain d = Some (p, d\<lparr> tx_queue := ps \<rparr>)" by (simp add: vdev_drain_def flip: Cons(2))
  then have "drain_device d q = drain_device (d\<lparr> tx_queue := ps \<rparr>) (offer p q)" by (subst drain_device.simps) simp
  with Cons(1) [of "d\<lparr> tx_queue := ps \<rparr>"] show ?case by (simp flip: Cons(2))
qed

lemma offer_wf: "mpsc_wf q \<Longrightarrow> mpsc_wf (offer p q) \<and> mcap (offer p q) = mcap q"
  by (cases "try_send p q") (simp_all add: offer_def try_send_wf)

lemma offers_wf: "mpsc_wf q \<Longrightarrow> mpsc_wf (fold offer ps q) \<and> mcap (fold offer ps q) = mcap q"
proof (induction ps arbitrary: q)
  case (Cons p ps)
  from Cons.IH [of "offer p q"] offer_wf [OF Cons.prems, of p] show ?case by simp
qed simp

lemma drain_device_ok: "drain_device d q = (d', q') \<Longrightarrow> mpsc_wf q \<Longrightarrow> mpsc_wf q' \<and> mcap q' = mcap q"
  using offers_wf by (auto simp: drain_device_fold)

lemma poll_turn_ok:
  assumes "netstack_ok cp ip s"
  shows "netstack_ok cp ip (poll_turn cp ip v s)"
proof -
  define s2 where "s2 = (let s1 = (case pv_packet v of Some p \<Rightarrow> s\<lparr> ns_dev := vdev_inject p (ns_dev s) \<rparr> | None \<Rightarrow> s)
    in s1\<lparr> ns_dev := poll_device v (ns_dev s1) \<rparr>)"
  have s2: "netstack_ok cp ip s2" using assms by (rule conns_frame) (simp_all add: s2_def Let_def split: option.splits)
  define s3 where "s3 = (if pv_changed v then fold (remove_conn v) (pv_order v) (fold (transfer v) (pv_order v)
    (fold (accept_conn v) [(0, cp), (1, ip)] s2)) else s2)"
  have s3: "netstack_ok cp ip s3"
    unfolding s3_def using s2
    by (auto intro!: fold_ok [of _ "netstack_ok cp ip"] accept_conn_ok remove_conn_ok transfer_ok)
  obtain d q where dq: "drain_device (ns_dev s3) (ns_egress s3) = (d, q)" by fastforce
  have "poll_turn cp ip v s =
      (case drain_device (ns_dev s3) (ns_egress s3) of (d, q) \<Rightarrow> s3\<lparr> ns_dev := d, ns_egress := q \<rparr>)"
    unfolding poll_turn_def s3_def s2_def Let_def ..
  with dq drain_device_ok [OF dq] s3 show ?thesis by (simp add: netstack_ok_def)
qed

lemma bridge_accept_ok:
  assumes "netstack_ok cp ip s"
  shows "netstack_ok cp ip (bridge_accept b s)"
proof (cases "recv (ns_conn_tx s)")
  case (Some p)
  obtain c q where p: "p = (c, q)" by fastforce
  have "netstack_ok cp ip (s\<lparr> ns_conn_tx := q \<rparr>)"
    using assms recv_wf [of "ns_conn_tx s" c q] Some p by (simp add: netstack_ok_def)
  with Some p show ?thesis
    by (auto simp: bridge_accept_def intro!: upd_conn_ok close_from_ok intro: conns_frame)
qed (use assms in \<open>simp add: bridge_accept_def\<close>)

lemma tunnel_to_local_ok:
  assumes ok: "netstack_ok cp ip s"
  shows "netstack_ok cp ip (tunnel_to_local c w s)"
proof (cases "ns_conns s c")
  case (Some k)
  have k: "conn_ok cp ip k" using ok Some by (simp add: netstack_ok_def)
  show ?thesis
  proof (cases "recv (tc_from k)")
    case None
    show ?thesis
      using ok None Some by (auto simp: tunnel_to_local_def split: option.splits intro!: set_bridge_ok upd_conn_ok close_from_ok)
  next
    case r: (Some p)
    obtain data q where p: "p = (data, q)" by fastforce
    have q: "mpsc_wf q" "mcap q = 64" "mbuf (tc_from k) = data # mbuf q"
      using recv_wf [of "tc_from k" data q] k r p by (simp_all add: conn_ok_def)
    have "conn_ok cp ip (k\<lparr> tc_from := q, tc_local := tc_local k @ [data] \<rparr>)"
      using k q by (auto simp: conn_ok_def)
    moreover have "conn_ok cp ip (k\<lparr> tc_from := close_rx q \<rparr>)"
      using k q by (auto simp: conn_ok_def close_wf intro: subseq_drop_end)
    ultimately show ?thesis
      using ok r p Some by (auto simp: tunnel_to_local_def split: option.splits intro!: set_bridge_ok upd_conn_ok)
  qed
qed (use ok in \<open>simp add: tunnel_to_local_def split: option.splits\<close>)

lemma local_to_tunnel_ok:
  assumes ok: "netstack_ok cp ip s"
  shows "netstack_ok cp ip (local_to_tunnel c data s)"
proof -
  have "conn_ok cp ip (k\<lparr> tc_to := q, tc_in := tc_in k @ [x] \<rparr>)" if "conn_ok cp ip k" "poll_send x (tc_to k) = Sent q" for k q x
    using that try_send_wf [of "tc_to k" x q] by (auto simp: conn_ok_def poll_send_def split: sum.splits send_error.splits)
  then show ?thesis
    using ok by (auto simp: local_to_tunnel_def split: option.splits send_poll.splits intro!: set_bridge_ok upd_conn_ok)
qed

lemma egress_take_ok: "netstack_ok cp ip s \<Longrightarrow> netstack_ok cp ip (egress_take s)"
  using recv_wf [of "ns_egress s"] by (auto simp: egress_take_def netstack_ok_def split: option.splits)

interpretation nets: counted_invariant "(=) netstack_init" "tunnel_step cp ip" "\<lambda>_. netstack_ok cp ip" for cp ip
proof
  show "netstack_ok cp ip s" if "netstack_init = s" for s
    using that by (auto simp: netstack_ok_def netstack_init_def mpsc_channel_def mpsc_wf_def)
  show "netstack_ok cp ip t" if "netstack_ok cp ip s" "tunnel_step cp ip s t" for s t
    using that(2,1)
    by cases (auto intro: poll_turn_ok bridge_accept_ok tunnel_to_local_ok local_to_tunnel_ok egress_take_ok)
qed

text \<open>C13. However polls, bridges and packets interleave and whatever the TCP stack reports, a tunnel
  connection never reorders, duplicates or invents data: what reaches the local proxy is a
  subsequence of the chunks read from the tunnel, what is handed to the tunnel's socket is a prefix of
  what the proxy wrote (the socket taking a prefix of each chunk), and no queue exceeds its
  capacity.\<close>

theorem tunnel_streams_in_order:
  assumes "reach_in ((=) netstack_init) (tunnel_step cp ip) n s" and "ns_conns s c = Some k"
  shows "tc_port k \<in> {cp, ip} \<and> subseq (tc_local k) (tc_read k) \<and> prefix (tc_out k) (tc_in k) \<and>
     list_all2 prefix (tc_sent k) (tc_out k) \<and>
     length (mbuf (tc_from k)) \<le> 64 \<and> length (mbuf (tc_to k)) \<le> 64 \<and>
     length (mbuf (ns_conn_tx s)) \<le> 16 \<and> length (mbuf (ns_egress s)) \<le> 256"
proof -
  have ok: "netstack_ok cp ip s" by (rule nets.reach_inv [OF assms(1)])
  then have k: "conn_ok cp ip k" using assms(2) by (simp add: netstack_ok_def)
  then have "mpsc_wf (tc_from k)" "mcap (tc_from k) = 64" "mpsc_wf (tc_to k)" "mcap (tc_to k) = 64" by (simp_all add: conn_ok_def)
  moreover have "mpsc_wf (ns_conn_tx s)" "mcap (ns_conn_tx s) = 16" "mpsc_wf (ns_egress s)" "mcap (ns_egress s) = 256"
    using ok by (simp_all add: netstack_ok_def)
  moreover have "subseq (tc_local k) (tc_read k)" "prefix (tc_out k) (tc_in k)"
    using k by (auto simp: conn_ok_def intro: subseq_drop_end append_prefixD)
  ultimately show ?thesis using k by (auto simp: conn_ok_def mpsc_wf_def)
qed

text \<open>A chunk that is read while the channel is full is gone: TCP has acknowledged it, and the stream the
  proxy sees has a hole.\<close>

lemma full_queue_loses_chunk:
  "mcap (tc_from k) \<le> length (mbuf (tc_from k)) \<Longrightarrow> pv_recv v h \<noteq> [] \<Longrightarrow>
     tc_from (socket_to_proxy v h k) = tc_from k \<and> tc_read (socket_to_proxy v h k) = tc_read k @ [take 4096 (pv_recv v h)]"
  by (simp add: socket_to_proxy_def try_send_def Let_def)

definition demo_view :: poll_view where
  "demo_view = \<lparr> pv_packet = Some [9], pv_taken = 1, pv_tx = [[8]], pv_changed = True, pv_active = (\<lambda>h. h = 0), pv_recv = (\<lambda>_. [1, 2]),
     pv_can_send = (\<lambda>_. True), pv_room = (\<lambda>_. 100), pv_order = [0] \<rparr>"

lemma demo_poll:
  "\<exists>s k. tunnel_step cp ip netstack_init s \<and> ns_conns s 0 = Some k \<and> recv (ns_conn_tx s) = Some (0, mpsc_channel 16) \<and>
     recv (tc_from k) = Some ([1, 2], mpsc_channel 64) \<and> tc_local k = []"
proof -
  let ?s = "poll_turn cp ip demo_view netstack_init"
  have "ns_conns ?s 0 \<noteq> None \<and> recv (ns_conn_tx ?s) = Some (0, mpsc_channel 16) \<and>
      recv (tc_from (the (ns_conns ?s 0))) = Some ([1, 2], mpsc_channel 64) \<and> tc_local (the (ns_conns ?s 0)) = []"
    by (simp add: poll_turn_def netstack_init_def demo_view_def Let_def accept_conn_def transfer_def remove_conn_def upd_conn_def
        mpsc_channel_def try_send_def new_conn_def socket_to_proxy_def proxy_to_socket_def recv_def drain_device_fold)
  then show ?thesis using t_poll [of cp ip netstack_init demo_view] by auto
qed

theorem tunnel_streams_in_order_witness:
  "\<exists>s k. reach_in ((=) netstack_init) (tunnel_step 4700 4800) 3 s \<and> ns_conns s 0 = Some k \<and> tc_local k = [[1, 2]] \<and>
     subseq [[1, 2]] (tc_read k) \<and> length (mbuf (ns_egress s)) \<le> 256"
proof -
  let ?step = "tunnel_step 4700 4800"
  obtain s1 k1 where s1: "?step netstack_init s1" "ns_conns s1 0 = Some k1"
    "recv (ns_conn_tx s1) = Some (0, mpsc_channel 16)" "recv (tc_from k1) = Some ([1, 2], mpsc_channel 64)" "tc_local k1 = []"
    using demo_poll by blast
  let ?s2 = "bridge_accept True s1"
  let ?s3 = "tunnel_to_local 0 True ?s2"
  have "ns_bridges ?s2 0 = Some \<lparr> br_to_local = True, br_to_tunnel = True \<rparr> \<and> ns_conns ?s2 0 = Some k1"
    using s1 by (simp add: bridge_accept_def)
  then have s3: "\<exists>k. ns_conns ?s3 0 = Some k \<and> tc_local k = tc_local k1 @ [[1, 2]] \<and> tc_read k = tc_read k1"
    using s1(4) by (simp add: tunnel_to_local_def upd_conn_def)
  have "reach_in ((=) netstack_init) ?step 0 netstack_init" by (simp add: reach_start)
  then have "reach_in ((=) netstack_init) ?step 1 s1" using s1(1) by (auto dest: reach_step)
  then have "reach_in ((=) netstack_init) ?step 2 ?s2" using t_accept [of 4700 4800 s1 True] by (auto dest: reach_step simp: numeral_eq_Suc)
  then have r: "reach_in ((=) netstack_init) ?step 3 ?s3"
    using t_to_local [of 4700 4800 ?s2 0 True] by (auto dest: reach_step simp: numeral_eq_Suc)
  from s3 s1(5) obtain k where k: "ns_conns ?s3 0 = Some k" "tc_local k = [[1, 2]]" by auto
  with tunnel_streams_in_order [OF r k(1)] r show ?thesis by auto
qed

end
