(* ===== verification/Wg_Ports.thy ===== *)
theory Wg_Ports
  imports Wg_Netstack
begin

text \<open>
  How many connections the tunnel accepts (\<open>run_stack\<close> of \<open>src/wireguard/netstack.rs\<close>).  A run is a list of
  the actions of \<open>tunnel_step\<close>, so that what the TCP stack reports in successive turns can be related.
\<close>

datatype tunnel_act =
    Poll poll_view
  | BridgeAccept bool
  | ToLocal nat bool
  | ToTunnel nat "bytes option"
  | EgressTake

fun tunnel_do :: "u16 \<Rightarrow> u16 \<Rightarrow> tunnel_act \<Rightarrow> netstack \<Rightarrow> netstack" where
  "tunnel_do cp ip (Poll v) s = poll_turn cp ip v s"
| "tunnel_do cp ip (BridgeAccept connected) s = bridge_accept connected s"
| "tunnel_do cp ip (ToLocal c written) s = tunnel_to_local c written s"
| "tunnel_do cp ip (ToTunnel c data) s = local_to_tunnel c data s"
| "tunnel_do cp ip EgressTake s = egress_take s"

definition tunnel_run :: "u16 \<Rightarrow> u16 \<Rightarrow> tunnel_act list \<Rightarrow> netstack" where
  "tunnel_run cp ip as = fold (tunnel_do cp ip) as netstack_init"

lemma tunnel_run_snoc: "tunnel_run cp ip (as @ [a]) = tunnel_do cp ip a (tunnel_run cp ip as)"
  by (simp add: tunnel_run_def)

lemma tunnel_step_do: "tunnel_step cp ip s t \<longleftrightarrow> (\<exists>a. t = tunnel_do cp ip a s)"
proof
  assume "tunnel_step cp ip s t"
  then show "\<exists>a. t = tunnel_do cp ip a s" by cases (metis tunnel_do.simps)+
next
  assume "\<exists>a. t = tunnel_do cp ip a s"
  then obtain a where "t = tunnel_do cp ip a s" by blast
  then show "tunnel_step cp ip s t" by (cases a) (auto intro: tunnel_step.intros)
qed

text \<open>Runs are the reachable states of the step relation.\<close>

lemma tunnel_run_reaches: "reach_in ((=) netstack_init) (tunnel_step cp ip) (length as) (tunnel_run cp ip as)"
proof (induction as rule: rev_induct)
  case (snoc a as)
  have "tunnel_step cp ip (tunnel_run cp ip as) (tunnel_run cp ip (as @ [a]))"
    unfolding tunnel_step_do by (rule exI [of _ a]) (rule tunnel_run_snoc)
  from reach_step [where step = "tunnel_step cp ip", OF snoc this] show ?case by simp
qed (simp add: tunnel_run_def reach_start)

definition polls :: "tunnel_act list \<Rightarrow> poll_view list" where
  "polls as = concat (map (\<lambda>a. case a of Poll v \<Rightarrow> [v] | _ \<Rightarrow> []) as)"

lemma polls_snoc: "polls (as @ [a]) = polls as @ (case a of Poll v \<Rightarrow> [v] | _ \<Rightarrow> [])"
  by (simp add: polls_def)

text \<open>A socket that was active and no longer is.\<close>

definition was_active :: "poll_view list \<Rightarrow> nat \<Rightarrow> bool" where
  "was_active vs h \<longleftrightarrow> (\<exists>v \<in> set vs. pv_active v h)"

fun was_closed :: "poll_view list \<Rightarrow> nat \<Rightarrow> bool" where
  "was_closed [] h \<longleftrightarrow> False"
| "was_closed (v # vs) h \<longleftrightarrow> was_closed vs h \<or> pv_active v h \<and> (\<exists>w \<in> set vs. \<not> pv_active w h)"

lemma was_closed_snoc: "was_closed (vs @ [v]) h \<longleftrightarrow> was_closed vs h \<or> was_active vs h \<and> \<not> pv_active v h"
  by (induction vs) (auto simp: was_active_def)

text \<open>A socket of the TCP stack listens for one connection: when that is over, it stays closed until it is
  told to listen again, which \<open>run_stack\<close> never does.  The one case this leaves out is a connection that is
  reset before its handshake is complete, after which the stack itself lets the socket listen again.\<close>

fun closed_stays :: "poll_view list \<Rightarrow> poll_view list \<Rightarrow> bool" where
  "closed_stays vs [] \<longleftrightarrow> True"
| "closed_stays vs (v # ws) \<longleftrightarrow> (\<forall>h \<in> {0, 1}. was_closed vs h \<longrightarrow> \<not> pv_active v h) \<and> closed_stays (vs @ [v]) ws"

lemma closed_stays_snoc:
  "closed_stays us (vs @ [v]) \<longleftrightarrow> closed_stays us vs \<and> (\<forall>h \<in> {0, 1}. was_closed (us @ vs) h \<longrightarrow> \<not> pv_active v h)"
  by (induction vs arbitrary: us) auto

section \<open>What a turn does to the connections\<close>

text \<open>Sockets and the number of connections so far.\<close>

definition ports :: "netstack \<Rightarrow> (nat \<Rightarrow> nat option) \<times> nat" where
  "ports s = (ns_active s, ns_next s)"

lemma upd_conn_ports [simp]: "ports (upd_conn c f s) = ports s"
  by (simp add: upd_conn_def ports_def split: option.split)

lemma set_bridge_ports [simp]: "ports (set_bridge c f s) = ports s"
  by (simp add: set_bridge_def ports_def)

lemma others_ports:
  "ports (bridge_accept b s) = ports s" "ports (tunnel_to_local c w s) = ports s"
  "ports (local_to_tunnel c d s) = ports s" "ports (egress_take s) = ports s" "ports (transfer v h s) = ports s"
proof -
  have q: "ports (s\<lparr> ns_conn_tx := q \<rparr>) = ports s" "ports (s\<lparr> ns_conn_tx := q, ns_bridges := r \<rparr>) = ports s" for q r
    by (simp_all add: ports_def)
  show "ports (bridge_accept b s) = ports s" "ports (tunnel_to_local c w s) = ports s"
    "ports (local_to_tunnel c d s) = ports s" "ports (transfer v h s) = ports s"
    by (simp_all add: bridge_accept_def tunnel_to_local_def local_to_tunnel_def transfer_def q split: option.split send_poll.split)
  show "ports (egress_take s) = ports s" by (simp add: egress_take_def ports_def split: option.split)
qed

definition newly :: "poll_view \<Rightarrow> netstack \<Rightarrow> nat \<Rightarrow> bool" where
  "newly v s h \<longleftrightarrow> pv_active v h \<and> ns_active s h = None"

lemma accept_conn_ports:
  "ports (accept_conn v (h, p) s) =
     (if newly v s h then ((ns_active s)(h \<mapsto> ns_next s), Suc (ns_next s)) else ports s)"
  using upd_conn_ports unfolding accept_conn_def newly_def
  by (auto simp: Let_def ports_def split: sum.split option.split)

lemma accepts_ports:
  "ports (fold (accept_conn v) [(0, cp), (1, ip)] s) =
     (\<lambda>h. if h \<in> {0, 1} \<and> newly v s h then Some (ns_next s + (if h = 1 \<and> newly v s 0 then 1 else 0)) else ns_active s h,
      ns_next s + card {h \<in> {0, 1}. newly v s h})"
proof -
  let ?s = "accept_conn v (0, cp) s"
  have a: "ns_active ?s = (if newly v s 0 then (ns_active s)(0 \<mapsto> ns_next s) else ns_active s)"
    "ns_next ?s = ns_next s + (if newly v s 0 then 1 else 0)"
    using accept_conn_ports [of v 0 cp s] by (auto simp: ports_def split: if_splits)
  then have n: "newly v ?s 1 = newly v s 1" by (simp add: newly_def)
  have c: "{h \<in> {0, 1}. newly v s h} = (if newly v s 0 then {0} else {}) \<union> (if newly v s 1 then {1} else {})" by (auto intro!: gr0I)
  show ?thesis using accept_conn_ports [of v 1 ip ?s] a n unfolding c by (auto simp: fun_eq_iff ports_def)
qed

lemma removes_ports:
  "ports (fold (remove_conn v) hs s) = (\<lambda>h. if h \<in> set hs \<and> \<not> pv_active v h then None else ns_active s h, ns_next s)"
proof (induction hs arbitrary: s)
  case (Cons h hs)
  have "ports (remove_conn v h s) = (\<lambda>x. if x = h \<and> \<not> pv_active v h then None else ns_active s x, ns_next s)"
    by (auto simp: remove_conn_def ports_def upd_conn_def fun_eq_iff split: option.split)
  then show ?case using Cons.IH [of "remove_conn v h s"] by (auto simp: ports_def fun_eq_iff)
qed (simp add: ports_def)

lemma transfers_ports: "ports (fold (transfer v) hs s) = ports s"
  by (induction hs arbitrary: s) (simp_all add: others_ports)

lemma poll_ports:
  "ports (poll_turn cp ip v s) =
     (if pv_changed v then
        (\<lambda>h. if h \<in> set (pv_order v) \<and> \<not> pv_active v h then None
             else if h \<in> {0, 1} \<and> newly v s h then Some (ns_next s + (if h = 1 \<and> newly v s 0 then 1 else 0)) else ns_active s h,
         ns_next s + card {h \<in> {0, 1}. newly v s h})
      else ports s)"
proof -
  define s2 where "s2 = (case pv_packet v of Some p \<Rightarrow> s\<lparr> ns_dev := vdev_inject p (ns_dev s) \<rparr> | None \<Rightarrow> s)
    \<lparr> ns_dev := poll_device v (ns_dev (case pv_packet v of Some p \<Rightarrow> s\<lparr> ns_dev := vdev_inject p (ns_dev s) \<rparr> | None \<Rightarrow> s)) \<rparr>"
  have s2: "ns_active s2 = ns_active s" "ns_next s2 = ns_next s" by (simp_all add: s2_def split: option.split)
  then have n: "newly v s2 h = newly v s h" for h by (simp add: newly_def)
  let ?s3 = "if pv_changed v then fold (remove_conn v) (pv_order v) (fold (transfer v) (pv_order v)
      (fold (accept_conn v) [(0, cp), (1, ip)] s2)) else s2"
  have "poll_turn cp ip v s = (case drain_device (ns_dev ?s3) (ns_egress ?s3) of (d, q) \<Rightarrow> ?s3\<lparr> ns_dev := d, ns_egress := q \<rparr>)"
    unfolding poll_turn_def s2_def Let_def ..
  then have "ports (poll_turn cp ip v s) = ports ?s3" by (simp add: ports_def split: prod.split)
  moreover have "ports (fold (transfer v) (pv_order v) (fold (accept_conn v) [(0, cp), (1, ip)] s2)) =
      ports (fold (accept_conn v) [(0, cp), (1, ip)] s2)" by (rule transfers_ports)
  ultimately show ?thesis
    using removes_ports [of v "pv_order v" "fold (transfer v) (pv_order v) (fold (accept_conn v) [(0, cp), (1, ip)] s2)"]
      accepts_ports [of v cp ip s2] s2 n by (auto simp: ports_def fun_eq_iff simp del: fold_simps)
qed

section \<open>One connection per port\<close>

text \<open>The sockets that have had a connection.\<close>

definition ports_inv :: "poll_view list \<Rightarrow> netstack \<Rightarrow> bool" where
  "ports_inv vs s \<longleftrightarrow> (\<exists>A \<subseteq> {0, 1}. ns_next s = card A \<and> (\<forall>h. ns_active s h \<noteq> None \<longrightarrow> h \<in> A) \<and>
     (\<forall>h \<in> A. was_active vs h \<and> (ns_active s h = None \<longrightarrow> was_closed vs h)))"

lemma ports_inv_poll:
  assumes "ports_inv vs s" and "\<forall>h \<in> {0, 1}. was_closed vs h \<longrightarrow> \<not> pv_active v h"
  shows "ports_inv (vs @ [v]) (poll_turn cp ip v s)"
proof -
  obtain A where A: "A \<subseteq> {0, 1}" "ns_next s = card A" "\<forall>h. ns_active s h \<noteq> None \<longrightarrow> h \<in> A"
    "\<forall>h \<in> A. was_active vs h \<and> (ns_active s h = None \<longrightarrow> was_closed vs h)" using assms(1) by (auto simp: ports_inv_def)
  have w: "was_active (vs @ [v]) h \<longleftrightarrow> was_active vs h \<or> pv_active v h" for h by (auto simp: was_active_def)
  show ?thesis
  proof (cases "pv_changed v")
    case False
    then have "ns_active (poll_turn cp ip v s) = ns_active s" "ns_next (poll_turn cp ip v s) = ns_next s"
      using poll_ports [of cp ip v s] by (simp_all add: ports_def)
    then show ?thesis using A unfolding ports_inv_def w was_closed_snoc by (intro exI [of _ A]) auto
  next
    case True
    define N where "N = {h \<in> {0, 1}. newly v s h}"
    have N: "N \<subseteq> {0, 1}" "A \<inter> N = {}" using A(1,4) assms(2) by (auto simp: N_def newly_def)
    have t: "ns_next (poll_turn cp ip v s) = card A + card N"
      "ns_active (poll_turn cp ip v s) h = (if h \<in> set (pv_order v) \<and> \<not> pv_active v h then None
         else if h \<in> N then Some (ns_next s + (if h = 1 \<and> newly v s 0 then 1 else 0)) else ns_active s h)" for h
      using poll_ports [of cp ip v s] True A(2) by (auto simp: ports_def N_def fun_eq_iff)
    have "finite A" "finite N" using A(1) N(1) by (auto intro: finite_subset)
    then have c: "card (A \<union> N) = card A + card N" using N(2) by (rule card_Un_disjoint)
    show ?thesis unfolding ports_inv_def w was_closed_snoc
    proof (intro exI [of _ "A \<union> N"] conjI ballI allI impI)
      show "A \<union> N \<subseteq> {0, 1}" using A(1) N(1) by simp
      show "ns_next (poll_turn cp ip v s) = card (A \<union> N)" using t(1) c by simp
      show "h \<in> A \<union> N" if "ns_active (poll_turn cp ip v s) h \<noteq> None" for h using that t(2) A(3) by (auto split: if_splits)
      show "was_active vs h \<or> pv_active v h" if "h \<in> A \<union> N" for h using that A(4) by (auto simp: N_def newly_def)
      show "was_closed vs h \<or> was_active vs h \<and> \<not> pv_active v h" if "h \<in> A \<union> N" "ns_active (poll_turn cp ip v s) h = None" for h
        using that t(2) A(4) by (auto simp: N_def newly_def split: if_splits)
    qed
  qed
qed

lemma ports_inv_other: "ports_inv vs s \<Longrightarrow> ports t = ports s \<Longrightarrow> ports_inv vs t"
  by (simp add: ports_inv_def ports_def)

lemma tunnel_run_ports: "closed_stays [] (polls as) \<Longrightarrow> ports_inv (polls as) (tunnel_run cp ip as)"
proof (induction as rule: rev_induct)
  case Nil
  show ?case unfolding ports_inv_def by (rule exI [of _ "{}"]) (simp add: tunnel_run_def netstack_init_def)
next
  case (snoc a as)
  show ?case
  proof (cases a)
    case (Poll v)
    then have "closed_stays [] (polls as)" "\<forall>h \<in> {0, 1}. was_closed (polls as) h \<longrightarrow> \<not> pv_active v h"
      using snoc.prems by (simp_all add: polls_snoc closed_stays_snoc)
    then have "ports_inv (polls as @ [v]) (poll_turn cp ip v (tunnel_run cp ip as))" using snoc.IH ports_inv_poll by blast
    then show ?thesis by (simp add: Poll polls_snoc tunnel_run_snoc)
  qed (use snoc in \<open>auto simp: tunnel_run_snoc polls_snoc others_ports intro: ports_inv_other\<close>)
qed


text \<open>A first client comes and goes; the packets of later ones change nothing.\<close>

definition closed_view :: poll_view where
  "closed_view = demo_view\<lparr> pv_active := (\<lambda>_. False) \<rparr>"


text \<open>Data moves only in a turn in which the stack reports a change of a socket: what the proxy wrote waits
  until then, whatever its age.\<close>

lemma no_change_no_data:
  assumes "\<not> pv_changed v" shows "ns_conns (poll_turn cp ip v s) = ns_conns s"
  using assms by (simp add: poll_turn_def Let_def split: prod.split option.split)

end
