(* ===== verification/Net_Addr.thy ===== *)
theory Net_Addr
  imports Proxy_Base
begin

text \<open>
  The addresses and paths of Rust's standard library as the proxy uses them: \<open>IpAddr\<close> with its
  predicates and its \<open>Display\<close>, socket addresses, and the comparison and joining of paths.
\<close>

section \<open>Addresses\<close>

type_synonym ip4 = "u8 \<times> u8 \<times> u8 \<times> u8"

datatype ip_addr = V4 ip4 | V6 "128 word"

type_synonym sock_addr = "ip_addr \<times> u16"

definition is_unspecified :: "ip_addr \<Rightarrow> bool" where
  "is_unspecified a = (case a of V4 v \<Rightarrow> v = (0, 0, 0, 0) | V6 w \<Rightarrow> w = 0)"

definition is_loopback :: "ip_addr \<Rightarrow> bool" where
  "is_loopback a = (case a of V4 v \<Rightarrow> fst v = 127 | V6 w \<Rightarrow> w = 1)"

definition is_ipv4 :: "ip_addr \<Rightarrow> bool" where
  "is_ipv4 a = (case a of V4 _ \<Rightarrow> True | V6 _ \<Rightarrow> False)"

definition ip_broadcast :: ip_addr where "ip_broadcast = V4 (255, 255, 255, 255)"

definition ip_localhost :: ip_addr where "ip_localhost = V4 (127, 0, 0, 1)"

section \<open>Display\<close>

definition show_ip4 :: "ip4 \<Rightarrow> string" where
  "show_ip4 = (\<lambda>(a, b, c, d). show_nat (unat a) @ ''.'' @ show_nat (unat b) @ ''.'' @ show_nat (unat c) @ ''.'' @ show_nat (unat d))"

definition segments :: "128 word \<Rightarrow> u16 list" where
  "segments w = map (\<lambda>i. ucast (drop_bit (112 - 16 * i) w)) [0..<8]"

definition hex_digit :: "nat \<Rightarrow> char" where
  "hex_digit d = char_of (if d < 10 then 48 + d else 87 + d)"

fun show_hex :: "nat \<Rightarrow> string" where
  "show_hex n = (if n < 16 then [hex_digit n] else show_hex (n div 16) @ [hex_digit (n mod 16)])"

declare show_hex.simps [simp del]

text \<open>The first of the longest runs of zero segments, as its start and its length.\<close>

fun zero_run :: "u16 list \<Rightarrow> nat \<Rightarrow> nat \<times> nat \<Rightarrow> nat \<times> nat \<Rightarrow> nat \<times> nat" where
  "zero_run [] i cur longest = longest"
| "zero_run (s # ss) i (start, len) longest =
     (if s = 0 then
        let cur = (if len = 0 then i else start, Suc len)
        in zero_run ss (Suc i) cur (if snd longest < Suc len then cur else longest)
      else zero_run ss (Suc i) (0, 0) longest)"

fun join_with :: "string \<Rightarrow> string list \<Rightarrow> string" where
  "join_with sep [] = []"
| "join_with sep [x] = x"
| "join_with sep (x # y # ys) = x @ sep @ join_with sep (y # ys)"

definition show_segments :: "u16 list \<Rightarrow> string" where
  "show_segments ss = join_with '':'' (map (\<lambda>s. show_hex (unat s)) ss)"

definition show_ip6 :: "128 word \<Rightarrow> string" where
  "show_ip6 w =
     (let ss = segments w in
      if take 6 ss = [0, 0, 0, 0, 0, 0xffff] then
        ''::ffff:'' @ show_ip4 (ucast (drop_bit 24 w), ucast (drop_bit 16 w), ucast (drop_bit 8 w), ucast w)
      else case zero_run ss 0 (0, 0) (0, 0) of (start, len) \<Rightarrow>
        if 1 < len then show_segments (take start ss) @ ''::'' @ show_segments (drop (start + len) ss)
        else show_segments ss)"

definition show_ip :: "ip_addr \<Rightarrow> string" where
  "show_ip a = (case a of V4 v \<Rightarrow> show_ip4 v | V6 w \<Rightarrow> show_ip6 w)"

lemma show_ip_examples:
  "show_ip (V4 (192, 168, 1, 50)) = ''192.168.1.50''"
  "show_ip (V6 0) = ''::''" "show_ip (V6 1) = ''::1''"
  by code_simp+

section \<open>Paths\<close>

text \<open>
  A path compares by its components: a leading slash is the root, repeated slashes and inner
  \<open>.\<close> components vanish, and a leading \<open>.\<close> of a relative path counts.
\<close>

fun split_slash :: "string \<Rightarrow> string list" where
  "split_slash [] = [[]]"
| "split_slash (c # cs) =
     (if c = CHR ''/'' then [] # split_slash cs
      else case split_slash cs of [] \<Rightarrow> [[c]] | p # ps \<Rightarrow> (c # p) # ps)"

definition path_components :: "string \<Rightarrow> bool \<times> string list" where
  "path_components p =
     (let ps = split_slash p; root = starts_with p ''/'';
          cur = (\<not> root \<and> ps \<noteq> [] \<and> hd ps = ''.'')
      in (root, (if cur then [''.''] else []) @ filter (\<lambda>c. c \<noteq> [] \<and> c \<noteq> ''.'') ps))"

definition path_eq :: "string \<Rightarrow> string \<Rightarrow> bool" where
  "path_eq p q \<longleftrightarrow> path_components p = path_components q"

definition path_join :: "string \<Rightarrow> string \<Rightarrow> string" where
  "path_join p q =
     (if starts_with q ''/'' then q
      else if p = [] \<or> ends_with p ''/'' then p @ q else p @ ''/'' @ q)"

lemma path_eq_refl [simp]: "path_eq p p"
  by (simp add: path_eq_def)

lemma path_eq_sym: "path_eq p q \<Longrightarrow> path_eq q p"
  by (simp add: path_eq_def)

lemma path_eq_examples:
  "path_eq ''a//b/./c'' ''a/b/c''" "\<not> path_eq ''./a'' ''a''" "\<not> path_eq ''/a'' ''a''" "path_eq ''a/'' ''a''"
  by code_simp+

end
