(* ===== verification/Wg_Keys.thy ===== *)
theory Wg_Keys
  imports Net_Addr Line_Text
begin

text \<open>
  \<open>src/wireguard/keys.rs\<close>: generating, saving and loading keys.  Base64 and x25519 are third-party and
  fields of \<open>key_codec\<close>; the random source is an argument.  Files are kept per path, compared by
  components; a write or a change of permissions may fail, and a failed write may leave anything behind.
\<close>

record key_codec =
  b64_encode :: "bytes \<Rightarrow> string"
  b64_decode :: "string \<Rightarrow> bytes option"
  public_from :: "bytes \<Rightarrow> bytes"

type_synonym path_key = "bool \<times> string list"

datatype write_result = WriteOk | WriteErr "string option"

record key_fs =
  kf_files :: "path_key \<Rightarrow> string option"
  kf_modes :: "path_key \<Rightarrow> nat option"
  kf_readable :: "path_key \<Rightarrow> bool"
  kf_mkdir :: "path_key \<Rightarrow> bool"
  kf_write :: "path_key \<Rightarrow> write_result"
  kf_chmod :: "path_key \<Rightarrow> bool"

record wg_keypair =
  kp_private :: bytes
  kp_public :: bytes

datatype key_error = KeyIo | KeyBase64 | KeyLength nat

section \<open>Paths\<close>

definition path_parent :: "path_key \<Rightarrow> path_key option" where
  "path_parent k = (if snd k = [] then None else Some (fst k, butlast (snd k)))"

definition with_file_name :: "path_key \<Rightarrow> string \<Rightarrow> path_key" where
  "with_file_name k name =
     (if snd k \<noteq> [] \<and> last (snd k) \<noteq> ''..'' \<and> last (snd k) \<noteq> ''.'' then (fst k, butlast (snd k) @ [name])
      else (fst k, snd k @ [name]))"

section \<open>Operations\<close>

definition generate :: "key_codec \<Rightarrow> bytes \<Rightarrow> wg_keypair" where
  "generate K rnd = \<lparr> kp_private = rnd, kp_public = public_from K rnd \<rparr>"

text \<open>\<open>std::fs::write\<close>.\<close>

definition write_file :: "path_key \<Rightarrow> string \<Rightarrow> key_fs \<Rightarrow> bool \<times> key_fs" where
  "write_file p content fs = (case kf_write fs p of
      WriteOk \<Rightarrow> (True, fs\<lparr> kf_files := (kf_files fs)(p \<mapsto> content) \<rparr>)
    | WriteErr None \<Rightarrow> (False, fs)
    | WriteErr (Some left) \<Rightarrow> (False, fs\<lparr> kf_files := (kf_files fs)(p \<mapsto> left) \<rparr>))"

text \<open>\<open>0o600\<close> is 384.\<close>

definition try_persist :: "key_codec \<Rightarrow> wg_keypair \<Rightarrow> path_key \<Rightarrow> key_fs \<Rightarrow> bool \<times> key_fs" where
  "try_persist K kp p fs =
     (if \<not> (case path_parent p of Some parent \<Rightarrow> kf_mkdir fs parent | None \<Rightarrow> True) then (False, fs)
      else case write_file p (b64_encode K (kp_private kp) @ [CHR 0x0A]) fs of
          (False, fs') \<Rightarrow> (False, fs')
        | (True, fs') \<Rightarrow>
            if kf_chmod fs' p then (True, fs'\<lparr> kf_modes := (kf_modes fs')(p \<mapsto> 384) \<rparr>) else (False, fs'))"

definition load_or_generate ::
    "key_codec \<Rightarrow> bytes \<Rightarrow> path_key \<Rightarrow> key_fs \<Rightarrow> (key_error + wg_keypair) \<times> key_fs" where
  "load_or_generate K rnd p fs = (case kf_files fs p of
      Some contents \<Rightarrow>
        (if \<not> kf_readable fs p then Inl KeyIo
         else case b64_decode K (trim contents) of
             None \<Rightarrow> Inl KeyBase64
           | Some decoded \<Rightarrow>
               if length decoded \<noteq> 32 then Inl (KeyLength (length decoded))
               else Inr \<lparr> kp_private = decoded, kp_public = public_from K decoded \<rparr>, fs)
    | None \<Rightarrow> (let kp = generate K rnd in (Inr kp, snd (try_persist K kp p fs))))"

definition public_key_b64 :: "key_codec \<Rightarrow> wg_keypair \<Rightarrow> string" where
  "public_key_b64 K kp = b64_encode K (kp_public kp)"

definition private_key_b64 :: "key_codec \<Rightarrow> wg_keypair \<Rightarrow> string" where
  "private_key_b64 K kp = b64_encode K (kp_private kp)"

section \<open>What is relied on\<close>

text \<open>Base64 decodes what it encoded, and its output is printable.\<close>

definition printable :: "char \<Rightarrow> bool" where
  "printable c \<longleftrightarrow> 33 \<le> (of_char c :: nat) \<and> (of_char c :: nat) \<le> 126"

definition key_codec_ok :: "key_codec \<Rightarrow> bool" where
  "key_codec_ok K \<longleftrightarrow> (\<forall>bs. b64_decode K (b64_encode K bs) = Some bs \<and> (\<forall>c \<in> set (b64_encode K bs). printable c))"

text \<open>The file system lets the key be written and read back.\<close>

definition key_dir_ok :: "path_key \<Rightarrow> key_fs \<Rightarrow> bool" where
  "key_dir_ok p fs \<longleftrightarrow> (case path_parent p of Some parent \<Rightarrow> kf_mkdir fs parent | None \<Rightarrow> True) \<and>
     kf_write fs p = WriteOk \<and> kf_chmod fs p \<and> kf_readable fs p"

section \<open>Trimming a printable line\<close>

lemma ws_len_printable: "33 \<le> a \<Longrightarrow> a \<le> 126 \<Longrightarrow> ws_len (a # bs) = 0"
  by (cases bs) (auto split: list.splits)

lemma trim_codes_stop: "f bs = 0 \<Longrightarrow> trim_codes f bs = bs"
  by (simp add: trim_codes.simps)

lemma ws_len_rev_printable:
  assumes "33 \<le> a" and "a \<le> 126"
  shows "ws_len_rev (a # bs) = 0"
proof -
  have "ws_len (rev (take 2 (a # bs))) \<noteq> 2" using assms by (cases bs) auto
  moreover have "ws_len (rev (take 3 (a # bs))) \<noteq> 3"
  proof (cases bs)
    case (Cons b bs')
    then show ?thesis using assms by (cases bs') auto
  qed (use assms in simp)
  ultimately show ?thesis using assms by (simp add: ws_len_rev_def)
qed

lemma trim_printable:
  assumes "\<forall>c \<in> set s. printable c"
  shows "trim (s @ [CHR 0x0A]) = s"
proof (cases s rule: rev_cases)
  case Nil
  have "trim [CHR 0x0A] = []" by code_simp
  with Nil show ?thesis by simp
next
  case (snoc xs x)
  let ?cs = "map of_char s :: nat list"
  obtain c s' where c: "s = c # s'" using snoc by (metis append_is_Nil_conv list.exhaust not_Cons_self2)
  then have "33 \<le> (of_char c :: nat)" "(of_char c :: nat) \<le> 126" using assms by (simp_all add: printable_def)
  then have "ws_len (of_char c # bs) = 0" for bs by (rule ws_len_printable)
  then have "ws_len (?cs @ [10]) = 0" unfolding c list.map append_Cons .
  moreover have lf: "char_of (10 :: nat) = CHR 0x0A" by code_simp
  ultimately have st: "trim_start (s @ [CHR 0x0A]) = s @ [CHR 0x0A]"
    by (simp add: trim_start_def trim_codes_stop comp_def)
  have "33 \<le> (of_char x :: nat)" "(of_char x :: nat) \<le> 126" using assms snoc by (simp_all add: printable_def)
  then have x: "ws_len_rev (of_char x # bs) = 0" for bs by (rule ws_len_rev_printable)
  have "trim_codes ws_len_rev (10 # rev ?cs) = rev ?cs"
    by (simp add: trim_codes.simps [of ws_len_rev "10 # _"] ws_len_rev_def snoc)
      (simp add: trim_codes_stop x)
  then show ?thesis by (simp add: trim_def st trim_end_def comp_def rev_map)
qed

section \<open>Keys survive a restart\<close>

lemma load_persisted:
  assumes "key_codec_ok K" and "kf_files fs p = Some (b64_encode K key @ [CHR 0x0A])" and "kf_readable fs p"
    and "length key = 32"
  shows "load_or_generate K rnd p fs = (Inr (generate K key), fs)"
proof -
  have "trim (b64_encode K key @ [CHR 0x0A]) = b64_encode K key"
    using assms(1) by (intro trim_printable) (simp add: key_codec_ok_def)
  with assms show ?thesis by (simp add: load_or_generate_def key_codec_ok_def generate_def)
qed

lemma persist_written:
  assumes "key_dir_ok p fs"
  shows "try_persist K kp p fs = (True, fs\<lparr> kf_files := (kf_files fs)(p \<mapsto> b64_encode K (kp_private kp) @ [CHR 0x0A]),
    kf_modes := (kf_modes fs)(p \<mapsto> 384) \<rparr>)"
  using assms by (simp add: key_dir_ok_def try_persist_def write_file_def)

lemma load_again:
  assumes "key_codec_ok K" and "key_dir_ok p fs" and "length rnd = 32"
    and "load_or_generate K rnd p fs = (Inr kp, fs')"
  shows "kf_readable fs' = kf_readable fs" "load_or_generate K rnd' p fs' = (Inr kp, fs')"
proof -
  show "kf_readable fs' = kf_readable fs"
    using assms(4) persist_written [OF assms(2)]
    by (auto simp: load_or_generate_def Let_def split: option.splits if_splits)
  show "load_or_generate K rnd' p fs' = (Inr kp, fs')"
  proof (cases "kf_files fs p")
    case None
    with assms(4) persist_written [OF assms(2)]
    have kp: "kp = generate K rnd" and fs': "fs' = fs\<lparr> kf_files := (kf_files fs)(p \<mapsto> b64_encode K rnd @ [CHR 0x0A]),
        kf_modes := (kf_modes fs)(p \<mapsto> 384) \<rparr>"
      by (auto simp: load_or_generate_def Let_def generate_def)
    show ?thesis
      unfolding kp by (rule load_persisted [OF assms(1) _ _ assms(3)]) (use assms(2) in \<open>simp_all add: fs' key_dir_ok_def\<close>)
  next
    case (Some contents)
    with assms(4) show ?thesis
      by (auto simp: load_or_generate_def split: if_splits option.splits)
  qed
qed

end
