(* ===== verification/Checksum.thy ===== *)
theory Checksum
  imports Proxy_Base
begin

text \<open>
  The Internet checksum as \<open>wireguard/tunnel_discovery.rs\<close> computes it, the loop of
  \<open>internet_checksum\<close> and of \<open>ip_checksum\<close> over 32-bit accumulators, and what RFC 1071 requires of it:
  over the data with the checksum in place the receiver's sum folds to all ones.
\<close>

unbundle bit_operations_syntax

section \<open>The code\<close>

text \<open>\<open>while sum >> 16 != 0\<close>\<close>

function fold_carries :: "u32 \<Rightarrow> u32" where
  "fold_carries acc =
     (if drop_bit 16 acc \<noteq> 0 then fold_carries ((acc AND 0xFFFF) + drop_bit 16 acc) else acc)"
  by pat_completeness auto

definition fold_nat :: "nat \<Rightarrow> nat" where
  "fold_nat n = n mod 65536 + n div 65536"

lemma fold_word:
  "unat ((acc AND 0xFFFF) + drop_bit 16 acc) = fold_nat (unat acc)" for acc :: u32
proof -
  have m: "unat (acc AND 0xFFFF) = unat acc mod 65536"
  proof -
    have "acc AND 0xFFFF = take_bit 16 acc" by (simp add: take_bit_eq_mask mask_eq_exp_minus_1)
    then show ?thesis by (simp add: take_bit_eq_mod unat_mod)
  qed
  have d: "unat (drop_bit 16 acc) = unat acc div 65536"
    by (simp add: drop_bit_eq_div unat_div)
  have "unat acc < 2 ^ 32" using unsigned_less [of acc, where 'a = nat] by simp
  then have "unat acc mod 65536 + unat acc div 65536 < 2 ^ 32" by simp
  then show ?thesis by (simp add: unat_word_ariths m d fold_nat_def)
qed

lemma drop_bit_16: "drop_bit 16 acc = 0 \<longleftrightarrow> unat acc < 65536" for acc :: u32
proof -
  have "unat (drop_bit 16 acc) = unat acc div 65536" by (simp add: drop_bit_eq_div unat_div)
  then have "unat (drop_bit 16 acc) = 0 \<longleftrightarrow> unat acc < 65536" by (simp only: div_eq_0_iff) simp
  then show ?thesis by (simp only: word_unat_eq_iff unsigned_0)
qed

termination fold_carries
proof (relation "measure unat")
  fix acc :: u32
  assume "drop_bit 16 acc \<noteq> 0"
  then have "65536 \<le> unat acc" by (simp add: drop_bit_16 not_less)
  then have "unat acc div 65536 > 0" "unat acc = 65536 * (unat acc div 65536) + unat acc mod 65536"
    by (simp_all add: div_greater_zero_iff)
  then have "fold_nat (unat acc) < unat acc" unfolding fold_nat_def by linarith
  then show "((acc AND 0xFFFF) + drop_bit 16 acc, acc) \<in> measure unat" by (simp add: fold_word)
qed simp

declare fold_carries.simps [simp del]


text \<open>\<open>internet_checksum\<close>: the sum from position \<open>i\<close> on.\<close>

function sum_words :: "bytes \<Rightarrow> nat \<Rightarrow> u32 \<Rightarrow> u32" where
  "sum_words data i acc =
     (if i + 1 < length data
      then sum_words data (i + 2) (acc + ucast (u16_from_be_bytes (data ! i) (data ! (i + 1))))
      else if i < length data then acc + push_bit 8 (ucast (data ! i)) else acc)"
  by pat_completeness auto
termination by (relation "measure (\<lambda>(data, i, acc). length data - i)") auto

declare sum_words.simps [simp del]

definition internet_checksum :: "bytes \<Rightarrow> u16" where
  "internet_checksum data = NOT (ucast (fold_carries (sum_words data 0 0)))"

text \<open>\<open>ip_checksum\<close>: the same over a header, skipping its checksum field.\<close>

function ip_sum :: "bytes \<Rightarrow> nat \<Rightarrow> u32 \<Rightarrow> u32" where
  "ip_sum header i acc =
     (if length header \<le> i then acc
      else if i = 10 then ip_sum header (i + 2) acc
      else
        let w = (if i + 1 < length header then u16_from_be_bytes (header ! i) (header ! (i + 1))
                 else u16_from_be_bytes (header ! i) 0)
        in ip_sum header (i + 2) (acc + ucast w))"
  by pat_completeness auto
termination by (relation "measure (\<lambda>(data, i, acc). length data - i)") auto

declare ip_sum.simps [simp del]

definition ip_checksum :: "bytes \<Rightarrow> u16" where
  "ip_checksum header = NOT (ucast (fold_carries (ip_sum header 0 0)))"

section \<open>The specification\<close>

text \<open>The sum of the 16-bit words, an odd last byte padded with a zero byte, as a number.\<close>

fun word_sum :: "bytes \<Rightarrow> nat" where
  "word_sum (a # b # bs) = unat a * 256 + unat b + word_sum bs"
| "word_sum [a] = unat a * 256"
| "word_sum [] = 0"

text \<open>What a receiver checks: the sum of all words, checksum included, is a non-zero multiple of
  \<open>0xFFFF\<close>, which is when it folds to all ones.\<close>

definition checksum_valid :: "bytes \<Rightarrow> bool" where
  "checksum_valid data \<longleftrightarrow> 0 < word_sum data \<and> word_sum data mod 65535 = 0"

lemma word_sum_le: "word_sum bs \<le> (length bs + 1) div 2 * 65535"
proof (induction bs rule: word_sum.induct)
  case (1 a b bs)
  have "unat a * 256 + unat b \<le> 65535"
    using unat_u8_less [of a] unat_u8_less [of b] by linarith
  with 1 show ?case by simp
next
  case (2 a)
  have "unat a * 256 \<le> 65535" using unat_u8_less [of a] by linarith
  then show ?case by simp
qed simp

lemma fold_nat_mod: "fold_nat n mod 65535 = n mod 65535"
proof -
  have n: "65535 * (n div 65536) + fold_nat n = n"
    using div_mult_mod_eq [of n 65536] by (simp add: fold_nat_def)
  have "(65535 * (n div 65536) + fold_nat n) mod 65535 = fold_nat n mod 65535" by simp
  then show ?thesis by (simp only: n)
qed

lemma fold_nat_pos: "0 < n \<Longrightarrow> 0 < fold_nat n"
  by (metis add_gr_0 div_mult_mod_eq fold_nat_def mult_is_0 neq0_conv not_gr_zero add_0)

lemma fold_carries_spec:
  "unat (fold_carries acc) < 65536 \<and> unat (fold_carries acc) mod 65535 = unat acc mod 65535 \<and>
   (0 < unat acc \<longrightarrow> 0 < unat (fold_carries acc))"
proof (induction acc rule: fold_carries.induct)
  case (1 acc)
  show ?case
  proof (cases "drop_bit 16 acc = 0")
    case True
    then show ?thesis using drop_bit_16 [of acc] by (simp add: fold_carries.simps [of acc])
  next
    case False
    then have "fold_carries acc = fold_carries ((acc AND 0xFFFF) + drop_bit 16 acc)"
      by (simp add: fold_carries.simps [of acc])
    with 1 [OF False] show ?thesis
      unfolding fold_word by (auto simp: fold_nat_mod fold_nat_pos)
  qed
qed


text \<open>The loops compute \<open>word_sum\<close> as long as the accumulator does not overflow, which 64 KiB of data
  cannot make it do.\<close>

lemma sum_words_spec:
  assumes "unat acc + word_sum (drop i data) < 2 ^ 32"
  shows "unat (sum_words data i acc) = unat acc + word_sum (drop i data)"
  using assms
proof (induction data i acc rule: sum_words.induct)
  case (1 data i acc)
  consider "i + 1 < length data" | "i + 1 = length data" | "length data \<le> i" by linarith
  then show ?case
  proof cases
    case 1
    let ?w = "u16_from_be_bytes (data ! i) (data ! (i + 1))"
    have d: "drop i data = data ! i # data ! (i + 1) # drop (i + 2) data"
      using 1 by (simp add: Cons_nth_drop_Suc)
    have "unat ?w < 65536" using unsigned_less [of ?w, where 'a = nat] by simp
    then have "unat (ucast ?w :: u32) = unat ?w"
      by (simp add: unsigned_ucast_eq take_bit_nat_eq_self)
    then have "unat (acc + ucast ?w) = unat acc + (unat (data ! i) * 256 + unat (data ! (i + 1)))"
      using "1.prems" d by (simp add: unat_word_ariths unat_u16_from_be_bytes)
    with 1 "1.IH" "1.prems" d show ?thesis by (simp add: sum_words.simps [of data i acc])
  next
    case 2
    then have d: "drop i data = [data ! i]" by (simp add: Cons_nth_drop_Suc flip: Cons_nth_drop_Suc)
    have "unat (data ! i) < 4294967296" "unat (data ! i) * 256 < 4294967296"
      using unat_u8_less [of "data ! i"] by linarith+
    then have "unat (push_bit 8 (ucast (data ! i)) :: u32) = unat (data ! i) * 256"
      by (simp add: push_bit_eq_mult unat_word_ariths unsigned_ucast_eq take_bit_eq_mod)
    with 2 d "1.prems" show ?thesis by (simp add: sum_words.simps [of data i acc] unat_word_ariths)
  next
    case 3
    then show ?thesis by (simp add: sum_words.simps [of data i acc])
  qed
qed


text \<open>A header without its checksum field.\<close>

definition without_field :: "bytes \<Rightarrow> bytes" where
  "without_field header = copy_at header 10 [0, 0]"

lemma word_sum_append: "even (length xs) \<Longrightarrow> word_sum (xs @ ys) = word_sum xs + word_sum ys"
  by (induction xs rule: word_sum.induct) auto

lemma word_sum_copy:
  assumes "even at" "at + 2 \<le> length data"
  shows "word_sum (copy_at data at [a, b]) + word_sum [data ! at, data ! (at + 1)] = word_sum data + word_sum [a, b]"
proof -
  have d: "data = take at data @ [data ! at, data ! (at + 1)] @ drop (at + 2) data"
    using assms(2) by (simp add: Cons_nth_drop_Suc)
  have "word_sum data = word_sum (take at data) + (word_sum [data ! at, data ! (at + 1)] + word_sum (drop (at + 2) data))"
    by (subst d) (use assms in \<open>simp add: word_sum_append min_def\<close>)
  moreover have "word_sum (copy_at data at [a, b]) = word_sum (take at data) + (word_sum [a, b] + word_sum (drop (at + 2) data))"
    using assms by (simp add: copy_at_def word_sum_append min_def)
  ultimately show ?thesis by simp
qed

text \<open>Skipping the field is summing the header with the field zeroed.\<close>

lemma pad_word: "ucast (u16_from_be_bytes a 0) = (push_bit 8 (ucast a) :: u32)"
  by (rule bit_word_eqI) (auto simp: u16_from_be_bytes_def bit_simps dest: bit_imp_le_length)

lemma ip_sum_end: "length header \<le> i \<Longrightarrow> ip_sum header i acc = acc"
  by (simp add: ip_sum.simps)

lemma ip_sum_tail: "10 < i \<Longrightarrow> ip_sum header i acc = sum_words header i acc"
proof (induction header i acc rule: ip_sum.induct)
  case (1 header i acc)
  consider "length header \<le> i" | "i + 1 < length header" | "i + 1 = length header" by linarith
  then show ?case
  proof cases
    case 3
    then have "ip_sum header (i + 2) x = x" for x by (intro ip_sum_end) simp
    with 3 "1.prems" show ?thesis
      by (simp add: ip_sum.simps [of header i acc] sum_words.simps [of header i acc] pad_word)
  qed (use 1 in \<open>simp_all add: ip_sum.simps [of header i acc] sum_words.simps [of header i acc]\<close>)
qed

lemma sum_words_cong:
  "length xs = length ys \<Longrightarrow> (\<And>j. i \<le> j \<Longrightarrow> xs ! j = ys ! j) \<Longrightarrow> sum_words xs i acc = sum_words ys i acc"
proof (induction xs i acc rule: sum_words.induct)
  case (1 xs i acc)
  then show ?case by (auto simp: sum_words.simps [of xs i acc] sum_words.simps [of ys i acc])
qed

lemma ip_checksum_eq:
  assumes "12 \<le> length header"
  shows "ip_checksum header = internet_checksum (without_field header)"
proof -
  let ?z = "without_field header"
  let ?w = "\<lambda>i. ucast (u16_from_be_bytes (header ! i) (header ! (i + 1))) :: u32"
  have len: "length ?z = length header" using assms by (simp add: without_field_def)
  have z: "?z ! j = header ! j" if "j \<noteq> 10" "j \<noteq> 11" for j
  proof (cases "j < length header")
    case True
    then show ?thesis using assms that by (auto simp: without_field_def nth_copy_at)
  next
    case False
    then show ?thesis using assms that by (simp add: without_field_def copy_at_def nth_append)
  qed
  have z0: "?z ! 10 = 0" "?z ! 11 = 0" using assms by (simp_all add: without_field_def nth_copy_at)
  have step: "ip_sum header i acc = ip_sum header (i + 2) (acc + ?w i)" if "i < 10" "even i" for i acc
    using that assms by (subst ip_sum.simps) (simp add: Let_def)
  have step': "sum_words ?z i acc = sum_words ?z (i + 2) (acc + ?w i)" if "i < 10" "even i" for i acc
    using that assms len z [of i] z [of "i + 1"] by (subst sum_words.simps) (auto elim!: evenE)
  have "ip_sum header 0 0 = ip_sum header 10 (?w 0 + ?w 2 + ?w 4 + ?w 6 + ?w 8)"
    using step [of 0 0] step [of 2] step [of 4] step [of 6] step [of 8] by (simp flip: numeral_2_eq_2)
  moreover have "ip_sum header 10 acc = sum_words header 12 acc" for acc
    using assms ip_sum_tail [of 12 header acc] by (subst ip_sum.simps) simp
  moreover have "sum_words ?z 0 0 = sum_words ?z 10 (?w 0 + ?w 2 + ?w 4 + ?w 6 + ?w 8)"
    using step' [of 0 0] step' [of 2] step' [of 4] step' [of 6] step' [of 8] by (simp flip: numeral_2_eq_2)
  moreover have "sum_words ?z 10 acc = sum_words header 12 acc" for acc
  proof -
    have "sum_words ?z 10 acc = sum_words ?z 12 acc"
      using assms len z0 by (subst sum_words.simps) (simp add: u16_from_be_bytes_def)
    also have "\<dots> = sum_words header 12 acc" using len z by (intro sum_words_cong) auto
    finally show ?thesis .
  qed
  ultimately show ?thesis by (simp add: ip_checksum_def internet_checksum_def)
qed


section \<open>Correctness\<close>

lemma internet_checksum_unat:
  assumes "length data \<le> 65536"
  shows "unat (internet_checksum data) = 65535 - unat (fold_carries (sum_words data 0 0)) \<and>
         unat (fold_carries (sum_words data 0 0)) mod 65535 = word_sum data mod 65535 \<and>
         unat (fold_carries (sum_words data 0 0)) < 65536 \<and>
         (word_sum data = 0 \<longrightarrow> fold_carries (sum_words data 0 0) = 0)"
proof -
  let ?f = "fold_carries (sum_words data 0 0)"
  have "(length data + 1) div 2 * 65535 \<le> 32768 * 65535" using assms by simp
  then have "word_sum data < 2 ^ 32" using word_sum_le [of data] by simp
  then have s: "unat (sum_words data 0 0) = word_sum data" using sum_words_spec [of 0 0 data] by simp
  have f: "unat ?f < 65536" using fold_carries_spec by blast
  have "unat (ucast ?f :: u16) = unat ?f"
    using f by (simp add: unsigned_ucast_eq take_bit_nat_eq_self)
  moreover have "unat (NOT w) = 65535 - unat w" for w :: u16
  proof -
    have "NOT w = - 1 - w" by (simp add: not_eq_complement)
    moreover have "unat (- 1 :: u16) = 65535" by (simp add: unsigned_minus_1_eq_mask mask_eq_exp_minus_1)
    ultimately show ?thesis by (simp only: unat_sub [OF word_n1_ge])
  qed
  moreover have "word_sum data = 0 \<longrightarrow> ?f = 0"
  proof
    assume "word_sum data = 0"
    with s have "sum_words data 0 0 = 0" by (simp only: word_unat_eq_iff) simp
    then show "?f = 0" by (simp add: fold_carries.simps)
  qed
  ultimately show ?thesis
    using fold_carries_spec [of "sum_words data 0 0"] s f by (simp add: internet_checksum_def)
qed

text \<open>Storing the checksum of the data with a zeroed field into that field makes the data valid.\<close>

lemma checksum_stored:
  assumes "even at" "at + 2 \<le> length data" "length data \<le> 65536" "data ! at = 0" "data ! (at + 1) = 0"
  shows "checksum_valid (copy_at data at (u16_to_be_bytes (internet_checksum data)))"
proof -
  let ?c = "internet_checksum data" and ?f = "unat (fold_carries (sum_words data 0 0))"
  obtain a b where ab: "u16_to_be_bytes ?c = [a, b]" by (simp add: u16_to_be_bytes_def)
  then have c: "?c = u16_from_be_bytes a b"
    by (metis u16_from_to_be u16_to_be_bytes_def list.inject)
  have u: "unat ?c = 65535 - ?f" "?f mod 65535 = word_sum data mod 65535" "?f < 65536"
    "word_sum data = 0 \<Longrightarrow> ?f = 0"
    using internet_checksum_unat [OF assms(3)] by auto
  have "word_sum (copy_at data at [a, b]) = word_sum data + unat ?c"
    using word_sum_copy [OF assms(1,2), of a b] assms(4,5) c by (simp add: unat_u16_from_be_bytes)
  moreover have "word_sum data + unat ?c = word_sum data + 65535 - ?f" using u by simp
  moreover have "65535 dvd word_sum data + 65535 - ?f"
    using u mod_eq_dvd_iff_nat [of ?f "word_sum data + 65535" 65535] by simp
  moreover have "0 < word_sum data + unat ?c" using u by (cases "word_sum data = 0") auto
  ultimately show ?thesis by (simp add: checksum_valid_def ab)
qed

end
