(* ===== verification/Wg_Packets.thy ===== *)
theory Wg_Packets
  imports Checksum Protocol Net_Addr
begin

text \<open>
  \<open>src/wireguard/tunnel_discovery.rs\<close>: the IPv4 packets that the tunnel answers itself, discovery
  requests and pings.  Every index is in range by the guards before it, except for the payload slice
  of \<open>parse_discovery_request\<close>, which is a \<open>run\<close>.
\<close>

definition octets :: "ip4 \<Rightarrow> bytes" where
  "octets ip = (case ip of (a, b, c, d) \<Rightarrow> [a, b, c, d])"

definition ip_at :: "bytes \<Rightarrow> nat \<Rightarrow> ip4" where
  "ip_at p i = (p ! i, p ! (i + 1), p ! (i + 2), p ! (i + 3))"

definition u16_at :: "bytes \<Rightarrow> nat \<Rightarrow> u16" where
  "u16_at p i = u16_from_be_bytes (p ! i) (p ! (i + 1))"

definition ihl_of :: "bytes \<Rightarrow> nat" where
  "ihl_of p = unat (p ! 0 AND 0x0F) * 4"

definition parse_discovery_request :: "bytes \<Rightarrow> (ip4 \<times> u16 \<times> bytes) option run" where
  "parse_discovery_request ip_packet =
     (if length ip_packet < 28 then Ret None
      else if ip_packet ! 9 \<noteq> 17 then Ret None
      else let ihl = ihl_of ip_packet in
        if length ip_packet < ihl + 8 then Ret None
        else let udp = drop ihl ip_packet in
          if u16_at udp 2 \<noteq> DISCOVERY_PORT then Ret None
          else
            let src_ip = ip_at ip_packet 12; src_port = u16_at udp 0; udp_len = unat (u16_at udp 4) in
            if length udp < udp_len then Ret None
            else bind_run (slice udp 8 udp_len) (\<lambda>pld. Ret (Some (src_ip, src_port, pld))))"

definition build_discovery_response :: "ip4 \<Rightarrow> ip4 \<Rightarrow> u16 \<Rightarrow> bytes \<Rightarrow> bytes" where
  "build_discovery_response src_ip dst_ip dst_port pld =
     (let total_len = 20 + 8 + length pld;
          p0 = replicate total_len 0;
          p1 = p0[0 := 0x45, 1 := 0x00];
          p2 = copy_at p1 2 (u16_to_be_bytes (of_nat total_len));
          p3 = copy_at p2 4 [0x00, 0x00];
          p4 = copy_at p3 6 [0x40, 0x00];
          p5 = p4[8 := 64, 9 := 17];
          p6 = copy_at p5 12 (octets src_ip);
          p7 = copy_at p6 16 (octets dst_ip);
          p8 = copy_at p7 10 (u16_to_be_bytes (ip_checksum (take 20 p7)));
          p9 = copy_at p8 20 (u16_to_be_bytes DISCOVERY_PORT);
          p10 = copy_at p9 22 (u16_to_be_bytes dst_port);
          p11 = copy_at p10 24 (u16_to_be_bytes (of_nat (8 + length pld)))
      in copy_at p11 28 pld)"

definition handle_discovery :: "json_codec \<Rightarrow> bytes \<Rightarrow> ip4 \<Rightarrow> string \<Rightarrow> bytes option run" where
  "handle_discovery J ip_packet upstream_ip device_info_json =
     bind_run (parse_discovery_request ip_packet) (\<lambda>r. Ret (
       case r of None \<Rightarrow> None
       | Some (client_ip, client_port, pld) \<Rightarrow> (case Option.bind (from_utf8 pld) (from_str J) of
           None \<Rightarrow> None
         | Some json \<Rightarrow>
             if method_name json = Some ''scan_iscope''
             then Some (build_discovery_response upstream_ip client_ip client_port (as_bytes device_info_json))
             else None)))"

definition handle_icmp_echo :: "bytes \<Rightarrow> ip4 \<Rightarrow> bytes option" where
  "handle_icmp_echo ip_packet upstream_ip =
     (if length ip_packet < 28 then None
      else if ip_packet ! 9 \<noteq> 1 then None
      else let dst_ip = ip_at ip_packet 16 in
        if dst_ip \<noteq> upstream_ip then None
        else let ihl = ihl_of ip_packet in
          if length ip_packet < ihl + 8 then None
          else if ip_packet ! ihl \<noteq> 8 then None
          else
            let src_ip = ip_at ip_packet 12;
                r1 = copy_at ip_packet 12 (octets dst_ip);
                r2 = copy_at r1 16 (octets src_ip);
                r3 = r2[10 := 0, 11 := 0];
                r4 = copy_at r3 10 (u16_to_be_bytes (ip_checksum (take ihl r3)));
                r5 = r4[ihl := 0];
                r6 = r5[ihl + 2 := 0, ihl + 3 := 0]
            in Some (copy_at r6 (ihl + 2) (u16_to_be_bytes (internet_checksum (drop ihl r6)))))"

section \<open>The receiver's view\<close>

text \<open>What an IPv4 and UDP stack makes of a packet without options: addresses, ports and payload, if
  lengths, protocol and header checksum are right.\<close>

definition udp_datagram :: "bytes \<Rightarrow> (ip4 \<times> ip4 \<times> u16 \<times> u16 \<times> bytes) option" where
  "udp_datagram p =
     (if 28 \<le> length p \<and> p ! 0 = 0x45 \<and> unat (u16_at p 2) = length p \<and> p ! 9 = 17 \<and>
         checksum_valid (take 20 p) \<and> unat (u16_at p 24) = length p - 20
      then Some (ip_at p 12, ip_at p 16, u16_at p 20, u16_at p 22, drop 28 p) else None)"

lemma octets_ip_at [simp]: "length (octets ip) = 4" "ip_at (octets ip @ xs) 0 = ip"
  by (simp_all add: octets_def ip_at_def split: prod.splits)

lemma u16_at_Cons [simp]: "u16_at (u16_to_be_bytes w @ xs) 0 = w"
  by (simp add: u16_at_def u16_to_be_bytes_def be_simps)

lemma copy_at_append:
  "length xs = at \<Longrightarrow> length src = length old \<Longrightarrow> copy_at (xs @ old @ ys) at src = xs @ src @ ys"
  by (simp add: copy_at_def)

text \<open>The packet, written out.\<close>

definition ip_header :: "u16 \<Rightarrow> ip4 \<Rightarrow> ip4 \<Rightarrow> bytes \<Rightarrow> bytes" where
  "ip_header len src dst ck = [0x45, 0] @ u16_to_be_bytes len @ [0, 0, 0x40, 0, 64, 17] @ ck @ octets src @ octets dst"

lemma ip_header_length [simp]: "length ck = 2 \<Longrightarrow> length (ip_header len src dst ck) = 20"
  by (simp add: ip_header_def)

lemma ip_header_cons:
  "ip_header len (a, b, c, d) (e, f, g, h) [x, y] =
     [0x45, 0, ucast (drop_bit 8 len), ucast len, 0, 0, 0x40, 0, 64, 17, x, y, a, b, c, d, e, f, g, h]"
  by (simp add: ip_header_def u16_to_be_bytes_def octets_def)

lemma list_update_Cons_numeral [simp]: "(x # xs)[numeral v := y] = x # xs[pred_numeral v := y]"
  by (simp add: numeral_eq_Suc)

lemma replicate_28:
  "replicate (28 + n) x =
     [x, x, x, x, x, x, x, x, x, x, x, x, x, x, x, x, x, x, x, x, x, x, x, x, x, x, x, x] @ replicate n x"
  by (simp add: numeral_eq_Suc)

lemma build_layout:
  "build_discovery_response src dst port pld =
     (let len = of_nat (28 + length pld);
          ck = u16_to_be_bytes (ip_checksum (ip_header len src dst [0, 0]))
      in ip_header len src dst ck @ u16_to_be_bytes DISCOVERY_PORT @ u16_to_be_bytes port @
         u16_to_be_bytes (of_nat (8 + length pld)) @ [0, 0] @ pld)"
proof -
  obtain a b c d where s: "src = (a, b, c, d)" by (cases src)
  obtain e f g h where t: "dst = (e, f, g, h)" by (cases dst)
  define len where "len = (of_nat (28 + length pld) :: u16)"
  define ck where "ck = ip_checksum (ip_header len src dst [0, 0])"
  define ul where "ul = (of_nat (8 + length pld) :: u16)"
  have e: "20 + 8 + length pld = 28 + length pld" by simp
  show ?thesis
    unfolding build_discovery_response_def e replicate_28 Let_def len_def [symmetric] ul_def [symmetric]
    by (simp add: copy_at_def u16_to_be_bytes_def octets_def s t ip_header_cons)
qed

lemma ip_header_field:
  "length old = 2 \<Longrightarrow> length ck = 2 \<Longrightarrow> copy_at (ip_header len src dst old) 10 ck = ip_header len src dst ck"
  by (simp add: ip_header_def copy_at_def)

lemma ip_header_valid:
  "checksum_valid (ip_header len src dst (u16_to_be_bytes (ip_checksum (ip_header len src dst [0, 0]))))"
proof -
  let ?h = "ip_header len src dst [0, 0]"
  have "without_field ?h = ?h" by (simp add: without_field_def ip_header_field)
  then have c: "ip_checksum ?h = internet_checksum ?h" using ip_checksum_eq [of ?h] by simp
  have "?h ! 10 = 0" "?h ! 11 = 0"
    by (cases src; cases dst; simp add: ip_header_cons)+
  then have "checksum_valid (copy_at ?h 10 (u16_to_be_bytes (internet_checksum ?h)))"
    by (intro checksum_stored) simp_all
  then show ?thesis by (simp add: ip_header_field c)
qed

lemma unat_len: "n < 65536 \<Longrightarrow> unat (of_nat n :: u16) = n"
  by (simp add: unat_of_nat)

lemma built_packet:
  assumes "length pld \<le> 65507"
  shows "udp_datagram (build_discovery_response src dst port pld) = Some (src, dst, DISCOVERY_PORT, port, pld)"
proof -
  obtain a b c d where s: "src = (a, b, c, d)" by (cases src)
  obtain e f g h where t: "dst = (e, f, g, h)" by (cases dst)
  define len where "len = (of_nat (28 + length pld) :: u16)"
  define ul where "ul = (of_nat (8 + length pld) :: u16)"
  define ck where "ck = ip_checksum (ip_header len src dst [0, 0])"
  have p: "build_discovery_response src dst port pld =
      ip_header len src dst (u16_to_be_bytes ck) @ u16_to_be_bytes DISCOVERY_PORT @ u16_to_be_bytes port @
      u16_to_be_bytes ul @ [0, 0] @ pld"
    by (simp add: build_layout Let_def len_def ul_def ck_def)
  have l: "unat len = 28 + length pld" "unat ul = 8 + length pld"
    unfolding len_def ul_def by (rule unat_len, use assms in simp)+
  have v: "checksum_valid (ip_header len src dst (u16_to_be_bytes ck))" by (simp add: ck_def ip_header_valid)
  have "unat (u16_from_be_bytes (ucast (drop_bit 8 len)) (ucast len)) = 28 + length pld"
    "unat (u16_from_be_bytes (ucast (drop_bit 8 ul)) (ucast ul)) = 8 + length pld"
    using l by (simp_all only: be_simps)
  with v show ?thesis
    by (simp only: udp_datagram_def p)
      (simp add: s t u16_to_be_bytes_def ip_header_cons u16_at_def ip_at_def be_simps)
qed

text \<open>C23. Every packet the tunnel builds for a payload of up to 65507 bytes is a valid datagram: a
  receiver that checks the lengths, the protocol and the header checksum reads from it the addresses,
  the destination port and the payload it was built from, with source port 4720.\<close>

theorem built_packet_parses:
  assumes "length pld \<le> 65507"
  shows "udp_datagram (build_discovery_response src dst port pld) = Some (src, dst, 4720, port, pld)"
  using built_packet [OF assms] by (simp add: DISCOVERY_PORT_def)

theorem built_packet_parses_witness:
  "udp_datagram (build_discovery_response (192, 168, 1, 50) (10, 99, 0, 2) 55000 [1, 2, 3]) =
     Some ((192, 168, 1, 50), (10, 99, 0, 2), 4720, 55000, [1, 2, 3])"
  using built_packet_parses [of "[1, 2, 3]"] by simp

text \<open>Parsing a discovery request never fails on the bytes it is given except in one case: a UDP
  packet for port 4720 whose length field is below 8, the size of the UDP header, makes the payload
  slice panic, which ends the task that serves the whole tunnel.\<close>

theorem discovery_request_panics:
  "parse_discovery_request p = Panic \<longleftrightarrow>
     28 \<le> length p \<and> p ! 9 = 17 \<and> ihl_of p + 8 \<le> length p \<and>
     u16_at (drop (ihl_of p) p) 2 = DISCOVERY_PORT \<and> unat (u16_at (drop (ihl_of p) p) 4) < 8"
proof -
  let ?u = "drop (ihl_of p) p" and ?n = "unat (u16_at (drop (ihl_of p) p) 4)"
  have "slice ?u 8 ?n = Panic \<longleftrightarrow> ?n < 8 \<or> length ?u < ?n" by (rule slice_Panic)
  moreover have "bind_run r (\<lambda>x. Ret (f x)) = Panic \<longleftrightarrow> r = Panic" for r :: "bytes run" and f :: "bytes \<Rightarrow> 'b"
    by (cases r) simp_all
  ultimately show ?thesis
    unfolding parse_discovery_request_def Let_def by auto
qed

text \<open>The reply to a ping.\<close>

lemma take_copy_at: "n \<le> at \<Longrightarrow> at \<le> length xs \<Longrightarrow> take n (copy_at xs at src) = take n xs"
  by (simp add: copy_at_def)

lemma take_copy_in:
  "at + length src \<le> n \<Longrightarrow> n \<le> length xs \<Longrightarrow> take n (copy_at xs at src) = copy_at (take n xs) at src"
  by (cases "n = at") (auto simp: copy_at_def min_def drop_take)

lemma drop_copy_at: "n \<le> at \<Longrightarrow> at \<le> length xs \<Longrightarrow> drop n (copy_at xs at src) = copy_at (drop n xs) (at - n) src"
  by (simp add: copy_at_def drop_take)

lemma without_field_id:
  assumes "12 \<le> length h" "h ! 10 = 0" "h ! 11 = 0" shows "without_field h = h"
proof -
  have "h = take 10 h @ [h ! 10, h ! 11] @ drop 12 h"
    using assms(1) Cons_nth_drop_Suc [of 10 h] Cons_nth_drop_Suc [of 11 h] by (simp add: numeral_eq_Suc)
  then show ?thesis using assms by (simp add: without_field_def copy_at_def)
qed

lemma ip_checksum_stored:
  assumes "20 \<le> length h" "length h \<le> 65536" "h ! 10 = 0" "h ! 11 = 0"
  shows "checksum_valid (copy_at h 10 (u16_to_be_bytes (ip_checksum h)))"
proof -
  have "without_field h = h" using assms by (intro without_field_id) simp_all
  then have "ip_checksum h = internet_checksum h" using ip_checksum_eq [of h] assms by simp
  then show ?thesis using assms by (simp add: checksum_stored)
qed

text \<open>C31. A ping to the telescope's address, with a header of at least 20 bytes, is answered by a
  packet of the same length with source and destination swapped, type 0, code, identifier, sequence
  number and data unchanged, and both checksums valid.\<close>

theorem icmp_echo_reply_correct:
  assumes "28 \<le> length p" "length p \<le> 65536" "p ! 9 = 1" "ip_at p 16 = up" "20 \<le> ihl_of p"
    "ihl_of p + 8 \<le> length p" "p ! ihl_of p = 8"
  shows "\<exists>r. handle_icmp_echo p up = Some r \<and> length r = length p \<and>
     ip_at r 12 = up \<and> ip_at r 16 = ip_at p 12 \<and> take 10 r = take 10 p \<and>
     r ! ihl_of p = 0 \<and> r ! (ihl_of p + 1) = p ! (ihl_of p + 1) \<and> drop (ihl_of p + 4) r = drop (ihl_of p + 4) p \<and>
     checksum_valid (take (ihl_of p) r) \<and> checksum_valid (drop (ihl_of p) r)"
proof -
  let ?n = "ihl_of p"
  define r3 where "r3 = (copy_at (copy_at p 12 (octets (ip_at p 16))) 16 (octets (ip_at p 12)))[10 := 0, 11 := 0]"
  define r4 where "r4 = copy_at r3 10 (u16_to_be_bytes (ip_checksum (take ?n r3)))"
  define r6 where "r6 = r4[?n := 0, ?n + 2 := 0, ?n + 3 := 0]"
  define r where "r = copy_at r6 (?n + 2) (u16_to_be_bytes (internet_checksum (drop ?n r6)))"
  have eq: "handle_icmp_echo p up = Some r"
    using assms by (simp add: handle_icmp_echo_def Let_def r_def r6_def r4_def r3_def)
  have l3: "length r3 = length p" and l4: "length r4 = length p" and l6: "length r6 = length p"
    and l: "length r = length p" using assms by (simp_all add: r3_def r4_def r6_def r_def)
  have n3: "r3 ! 10 = 0" "r3 ! 11 = 0" using assms by (simp_all add: r3_def)
  have "take ?n r = take ?n r6" using l6 assms by (simp add: r_def take_copy_at)
  also have "\<dots> = take ?n r4" by (simp add: r6_def)
  also have "\<dots> = copy_at (take ?n r3) 10 (u16_to_be_bytes (ip_checksum (take ?n r3)))"
    using assms l3 by (simp add: r4_def take_copy_in)
  finally have hdr: "take ?n r = copy_at (take ?n r3) 10 (u16_to_be_bytes (ip_checksum (take ?n r3)))" .
  have v1: "checksum_valid (take ?n r)"
    unfolding hdr using assms n3 l3 by (intro ip_checksum_stored) simp_all
  have "drop ?n r = copy_at (drop ?n r6) 2 (u16_to_be_bytes (internet_checksum (drop ?n r6)))"
    using assms l6 by (simp add: r_def drop_copy_at)
  moreover have "drop ?n r6 ! 2 = 0" "drop ?n r6 ! 3 = 0" using assms l4 by (simp_all add: r6_def)
  ultimately have v2: "checksum_valid (drop ?n r)" using assms l6 by (simp add: checksum_stored)
  have nth4: "r4 ! i = (if i = 10 \<or> i = 11 then u16_to_be_bytes (ip_checksum (take ?n r3)) ! (i - 10)
      else if 12 \<le> i \<and> i < 16 then octets (ip_at p 16) ! (i - 12)
      else if 16 \<le> i \<and> i < 20 then octets (ip_at p 12) ! (i - 16) else p ! i)" if "i < length p" for i
    using that assms l3 by (auto simp: r4_def r3_def nth_copy_at)
  have nth: "r ! i = (if ?n + 2 \<le> i \<and> i < ?n + 4 then u16_to_be_bytes (internet_checksum (drop ?n r6)) ! (i - (?n + 2))
      else if i = ?n then 0 else r4 ! i)" if "i < length p" for i
    using that assms l6 l4 by (auto simp: r_def nth_copy_at) (auto simp: r6_def nth_list_update)
  have "ip_at r 12 = ip_at p 16" "ip_at r 16 = ip_at p 12"
    using assms by (auto simp: ip_at_def nth nth4 octets_def)
  moreover have "take 10 r = take 10 p" using assms l by (simp add: list_eq_iff_nth_eq nth nth4)
  moreover have "r ! ?n = 0" "r ! (?n + 1) = p ! (?n + 1)" using assms by (simp_all add: nth nth4)
  moreover have "drop (?n + 4) r = drop (?n + 4) p" using assms l by (simp add: list_eq_iff_nth_eq nth nth4)
  ultimately show ?thesis using eq l v1 v2 assms(4) by blast
qed

definition demo_ping :: bytes where
  "demo_ping =
     [0x45, 0, 0, 30, 0, 0, 0, 0, 64, 1, 0, 0, 10, 99, 0, 2, 192, 168, 1, 50, 8, 0, 0, 0, 0, 1, 0, 1, 7, 8]"

theorem icmp_echo_reply_correct_witness:
  "\<exists>r. handle_icmp_echo demo_ping (192, 168, 1, 50) = Some r \<and> length r = 30 \<and>
     ip_at r 12 = (192, 168, 1, 50) \<and> ip_at r 16 = (10, 99, 0, 2) \<and> checksum_valid (take 20 r) \<and>
     checksum_valid (drop 20 r) \<and> drop 24 r = [0, 1, 0, 1, 7, 8]"
proof -
  have "ihl_of demo_ping = 20" by code_simp
  moreover have "ip_at demo_ping 16 = (192, 168, 1, 50)" "ip_at demo_ping 12 = (10, 99, 0, 2)"
    "length demo_ping = 30" "demo_ping ! 9 = 1" "demo_ping ! 20 = 8" "drop 24 demo_ping = [0, 1, 0, 1, 7, 8]"
    by (simp_all add: demo_ping_def ip_at_def)
  ultimately show ?thesis
    using icmp_echo_reply_correct [of demo_ping "(192, 168, 1, 50)"] by auto
qed

end
