(* ===== verification/Wg_Dns.thy ===== *)
theory Wg_Dns
  imports Wg_Packets
begin

text \<open>
  \<open>src/wireguard/dns.rs\<close>: answering DNS queries for the telescope inside the tunnel.  On ASCII text
  \<open>to_lowercase\<close> maps the letters; what it does to other characters is the parameter \<open>ul\<close>.
\<close>

definition DNS_HEADER_LEN :: nat where "DNS_HEADER_LEN = 12"

definition ascii_lower :: "char \<Rightarrow> char" where
  "ascii_lower c = (let n = (of_char c :: nat) in if 65 \<le> n \<and> n \<le> 90 then char_of (n + 32) else c)"

definition to_lowercase :: "(string \<Rightarrow> string) \<Rightarrow> string \<Rightarrow> string" where
  "to_lowercase ul s = (if \<forall>c \<in> set s. (of_char c :: nat) < 128 then map ascii_lower s else ul s)"

text \<open>The label loop of \<open>parse_query_name\<close>: the name so far and the position.\<close>

function parse_labels :: "bytes \<Rightarrow> string \<Rightarrow> nat \<Rightarrow> (string \<times> nat) option" where
  "parse_labels data nm pos =
     (if length data \<le> pos then None
      else let label_len = unat (data ! pos) in
        if label_len = 0 then Some (nm, pos + 1)
        else if length data < pos + 1 + label_len then None
        else parse_labels data
          ((if nm = [] then [] else nm @ ''.'') @ from_utf8_lossy (take label_len (drop (pos + 1) data)))
          (pos + 1 + label_len))"
  by pat_completeness auto
termination by (relation "measure (\<lambda>(data, nm, pos). length data - pos)") auto

declare parse_labels.simps [simp del]

definition parse_query_name :: "(string \<Rightarrow> string) \<Rightarrow> bytes \<Rightarrow> (string \<times> nat) option" where
  "parse_query_name ul data =
     (if length data < DNS_HEADER_LEN + 1 then None
      else case parse_labels data [] DNS_HEADER_LEN of
        None \<Rightarrow> None
      | Some (nm, pos) \<Rightarrow> if length data < pos + 4 then None else Some (to_lowercase ul nm, pos + 4))"

definition is_seestar_name :: "(string \<Rightarrow> string) \<Rightarrow> string \<Rightarrow> bool" where
  "is_seestar_name ul nm =
     (let n = to_lowercase ul nm in
      if ends_with n ''.seestar.com'' \<or> n = ''seestar.com'' then False
      else n = ''seestar.local'' \<or> starts_with n ''s30_'' \<or> starts_with n ''s50_'' \<or>
           starts_with n ''s30-'' \<or> starts_with n ''s50-'' \<or>
           str_contains n ''seestar'' \<and> ends_with n ''.local'')"

definition build_dns_response :: "(string \<Rightarrow> string) \<Rightarrow> bytes \<Rightarrow> ip4 \<Rightarrow> bytes option" where
  "build_dns_response ul query ip = (case parse_query_name ul query of
      None \<Rightarrow> None
    | Some (nm, question_end) \<Rightarrow>
        if length query < DNS_HEADER_LEN then None
        else Some (take 2 query @ [0x81, 0x80, 0, 1, 0, 1, 0, 0, 0, 0] @
          take (question_end - DNS_HEADER_LEN) (drop DNS_HEADER_LEN query) @ [0xC0, 0x0C] @
          [0, 1, 0, 1, 0, 0, 0, 0x3C, 0, 4] @ octets ip))"

definition handle_dns_query :: "(string \<Rightarrow> string) \<Rightarrow> bytes \<Rightarrow> ip4 \<Rightarrow> bytes option" where
  "handle_dns_query ul ip_packet upstream_ip =
     (if length ip_packet < 28 then None
      else if ip_packet ! 9 \<noteq> 17 then None
      else let ihl = ihl_of ip_packet in
        if length ip_packet < ihl + 8 then None
        else let udp = drop ihl ip_packet in
          if u16_at udp 2 \<noteq> 53 then None
          else
            let src_ip = ip_at ip_packet 12; src_port = u16_at udp 0; udp_len = unat (u16_at udp 4) in
            if length udp < udp_len \<or> udp_len < 8 then None
            else let dns_payload = take (udp_len - 8) (drop 8 udp) in
              case parse_query_name ul dns_payload of
                None \<Rightarrow> None
              | Some (nm, _) \<Rightarrow>
                  if \<not> is_seestar_name ul nm then None
                  else case build_dns_response ul dns_payload upstream_ip of
                    None \<Rightarrow> None
                  | Some dns_response \<Rightarrow>
                      Some (build_discovery_response (ip_at ip_packet 16) src_ip src_port dns_response))"

text \<open>Relaying a query to another server: a socket, a datagram, and the first answer within two seconds, cut to
  the buffer.  The code does not call it.\<close>

definition forward_dns_query :: "bool \<Rightarrow> bool \<Rightarrow> bytes option \<Rightarrow> bytes option" where
  "forward_dns_query bound sent answer = (if bound \<and> sent then map_option (take 4096) answer else None)"

section \<open>Names\<close>

text \<open>The wire form of a name, and of a query for it.\<close>

definition encode_labels :: "bytes list \<Rightarrow> bytes" where
  "encode_labels ls = concat (map (\<lambda>l. of_nat (length l) # l) ls) @ [0]"

definition label_ok :: "bytes \<Rightarrow> bool" where
  "label_ok l \<longleftrightarrow> l \<noteq> [] \<and> length l < 256 \<and> (\<forall>b \<in> set l. unat b < 128)"

definition dotted :: "string \<Rightarrow> bytes list \<Rightarrow> string" where
  "dotted nm ls = fold (\<lambda>l n. (if n = [] then [] else n @ ''.'') @ from_bytes l) ls nm"

lemma lossy_ascii_codes: "\<forall>b \<in> set bs. b < 128 \<Longrightarrow> lossy_codes bs = bs"
proof (induction bs)
  case (Cons b bs)
  then have "utf8_step (b # bs) = (True, 1)" by (simp add: utf8_step_def safe_get_def)
  with Cons show ?case by (simp add: lossy_codes.simps [of "b # bs"])
qed (simp add: lossy_codes.simps)

lemma lossy_ascii_bytes: "\<forall>b \<in> set bs. unat b < 128 \<Longrightarrow> from_utf8_lossy bs = from_bytes bs"
  by (simp add: from_utf8_lossy_def lossy_ascii_codes from_bytes_def char_of_u8_def)

lemma parse_labels_encoded:
  assumes "\<forall>l \<in> set ls. label_ok l" and "length pre = pos"
  shows "parse_labels (pre @ encode_labels ls @ rest) nm pos = Some (dotted nm ls, pos + length (encode_labels ls))"
  using assms
proof (induction ls arbitrary: pre nm pos)
  case Nil
  then show ?case by (simp add: parse_labels.simps encode_labels_def dotted_def nth_append)
next
  case (Cons l ls)
  define d where "d = pre @ encode_labels (l # ls) @ rest"
  have l: "l \<noteq> []" "unat (of_nat (length l) :: u8) = length l" "from_utf8_lossy l = from_bytes l"
    using Cons.prems by (auto simp: label_ok_def unat_of_nat lossy_ascii_bytes)
  have d: "d = (pre @ of_nat (length l) # l) @ encode_labels ls @ rest" by (simp add: d_def encode_labels_def)
  have n: "d ! pos = of_nat (length l)" using Cons.prems(2) by (simp add: d nth_append)
  have t: "take (length l) (drop (pos + 1) d) = l" using Cons.prems(2) by (simp add: d)
  have len: "pos + 1 + length l \<le> length d" using Cons.prems(2) by (simp add: d)
  have "parse_labels d nm pos =
      parse_labels d ((if nm = [] then [] else nm @ ''.'') @ from_bytes l) (pos + 1 + length l)"
    using l n t len by (subst parse_labels.simps) (simp add: Let_def)
  also have "\<dots> = Some (dotted nm (l # ls), pos + length (encode_labels (l # ls)))"
    unfolding d using Cons.IH [of "pre @ of_nat (length l) # l" "pos + 1 + length l"] Cons.prems
    by (simp add: dotted_def encode_labels_def)
  also have "d = pre @ encode_labels (l # ls) @ rest" by (fact d_def)
  finally show ?case .
qed

text \<open>Parsing a query gives the name it asks for: the ASCII labels on the wire joined by dots, in
  lower case, and the position right after the question.\<close>

theorem query_name_roundtrip:
  assumes "\<forall>l \<in> set ls. label_ok l" and "length hdr = DNS_HEADER_LEN" and "length qt = 4"
  shows "parse_query_name ul (hdr @ encode_labels ls @ qt @ rest) =
     Some (to_lowercase ul (dotted [] ls), DNS_HEADER_LEN + length (encode_labels ls) + 4)"
proof -
  have "0 < length (encode_labels ls)" by (simp add: encode_labels_def)
  then show ?thesis
    using parse_labels_encoded [OF assms(1,2), of "qt @ rest" "[]"] assms(2,3)
    by (simp add: parse_query_name_def)
qed

definition demo_query :: bytes where
  "demo_query = [0x12, 0x34, 1, 0, 0, 1, 0, 0, 0, 0, 0, 0] @ encode_labels (map as_bytes [''Seestar'', ''local'']) @ [0, 1, 0, 1]"

theorem query_name_roundtrip_witness:
  "parse_query_name (\<lambda>s. s) demo_query = Some (''seestar.local'', 31)"
proof -
  have ls: "\<forall>l \<in> set (map as_bytes [''Seestar'', ''local'']). label_ok l" by code_simp
  moreover have "to_lowercase (\<lambda>s. s) (dotted [] (map as_bytes [''Seestar'', ''local''])) = ''seestar.local''"
    "length (encode_labels (map as_bytes [''Seestar'', ''local''])) = 15" by code_simp+
  ultimately show ?thesis
    using query_name_roundtrip [OF ls, of "[0x12, 0x34, 1, 0, 0, 1, 0, 0, 0, 0, 0, 0]" "[0, 1, 0, 1]" "\<lambda>s. s" "[]"]
    by (simp add: demo_query_def DNS_HEADER_LEN_def)
qed

section \<open>Replies\<close>

lemma parse_query_name_end:
  assumes "parse_query_name ul q = Some (nm, e)" shows "DNS_HEADER_LEN \<le> e" "e \<le> length q"
proof -
  have "parse_labels d n i = Some (m, k) \<Longrightarrow> i \<le> k" for d n i m k
    by (induction d n i rule: parse_labels.induct)
      (subst (asm) (2) parse_labels.simps, force simp: Let_def split: if_splits)
  then show "DNS_HEADER_LEN \<le> e" "e \<le> length q"
    using assms by (auto simp: parse_query_name_def split: if_splits option.splits) (meson trans_le_add1)
qed

lemma build_dns_response_layout:
  assumes "parse_query_name ul q = Some (nm, e)"
  shows "\<exists>resp. build_dns_response ul q ip = Some resp \<and> length resp = e + 16 \<and> take 2 resp = take 2 q \<and>
     take (e - DNS_HEADER_LEN) (drop DNS_HEADER_LEN resp) = take (e - DNS_HEADER_LEN) (drop DNS_HEADER_LEN q) \<and>
     drop (e + 12) resp = octets ip"
proof -
  have e: "12 \<le> e" "e \<le> length q" using parse_query_name_end [OF assms] by (simp_all add: DNS_HEADER_LEN_def)
  let ?qs = "take (e - 12) (drop 12 q)"
  let ?r = "take 2 q @ [0x81, 0x80, 0, 1, 0, 1, 0, 0, 0, 0] @ ?qs @ [0xC0, 0x0C] @ [0, 1, 0, 1, 0, 0, 0, 0x3C, 0, 4] @ octets ip"
  have "build_dns_response ul q ip = Some ?r"
    using assms e by (simp add: build_dns_response_def DNS_HEADER_LEN_def)
  moreover have l: "length (take 2 q) = 2" "length ?qs = e - 12" using e by simp_all
  moreover have "drop 12 ?r = ?qs @ [0xC0, 0x0C] @ [0, 1, 0, 1, 0, 0, 0, 0x3C, 0, 4] @ octets ip" using l by simp
  moreover have "drop (e + 12) ?r = drop e (drop 12 ?r)" by (simp only: drop_drop)
  ultimately show ?thesis
    using e by (intro exI [of _ ?r]) (simp add: DNS_HEADER_LEN_def)
qed


definition demo_dns_packet :: bytes where
  "demo_dns_packet =
     [0x45, 0, 0, 59, 0, 0, 0, 0, 64, 17, 0, 0, 10, 99, 0, 2, 10, 99, 0, 1] @
     [0xC0, 0x00, 0, 53, 0, 39, 0, 0] @ demo_query"


end
