(* ===== verification/Wg_Tunnel.thy ===== *)
theory Wg_Tunnel
  imports Wg_Dns Channels Machines
begin

text \<open>
  \<open>src/wireguard/mod.rs\<close>: the packet loop of the tunnel.  The WireGuard implementation is a third-party
  crate: its state has an arbitrary type and its three entry points are the fields of \<open>tunnel\<close>.
  Addresses of peers are numbers.  A panic of the loop ends the tunnel.
\<close>

datatype tunn_result = TDone | TErr | WriteToNetwork bytes | WriteToTunnelV4 bytes | WriteToTunnelV6

record 't tunnel =
  decapsulate :: "'t \<Rightarrow> bytes \<Rightarrow> tunn_result \<times> 't"
  encapsulate :: "'t \<Rightarrow> bytes \<Rightarrow> tunn_result \<times> 't"
  update_timers :: "'t \<Rightarrow> tunn_result \<times> 't"

text \<open>The locals of \<open>packet_loop\<close>, the queue into the TCP stack and the datagrams sent so far.\<close>

record 't wg =
  tunn :: 't
  peer_addr :: "nat option"
  session_active :: bool
  inject_tx :: "bytes mpsc"
  udp_sent :: "(bytes \<times> nat) list"

datatype tunn_action = ADone | AContinue | ADecrypted bytes

definition send_to :: "bytes \<Rightarrow> nat \<Rightarrow> 't wg \<Rightarrow> 't wg" where
  "send_to data addr s = s\<lparr> udp_sent := udp_sent s @ [(data, addr)] \<rparr>"

definition process_tunn_result :: "nat \<Rightarrow> tunn_result \<Rightarrow> 't wg \<Rightarrow> tunn_action \<times> 't wg" where
  "process_tunn_result peer result s = (case result of
      TDone \<Rightarrow> (ADone, s)
    | WriteToNetwork data \<Rightarrow> (AContinue, send_to data peer s)
    | WriteToTunnelV4 data \<Rightarrow>
        (ADecrypted data,
         case try_send data (inject_tx s) of Inl _ \<Rightarrow> s | Inr q \<Rightarrow> s\<lparr> inject_tx := q \<rparr>)
    | WriteToTunnelV6 \<Rightarrow> (ADone, s)
    | TErr \<Rightarrow> (ADone, s))"

text \<open>\<open>tunn.encapsulate\<close> followed by a send of what is to go to the network.\<close>

definition encrypt_send :: "'t tunnel \<Rightarrow> bytes \<Rightarrow> nat \<Rightarrow> 't wg \<Rightarrow> 't wg" where
  "encrypt_send T packet addr s = (case encapsulate T (tunn s) packet of (res, t) \<Rightarrow>
     case res of WriteToNetwork data \<Rightarrow> send_to data addr (s\<lparr> tunn := t \<rparr>) | _ \<Rightarrow> s\<lparr> tunn := t \<rparr>)"

record wg_env =
  we_upstream :: ip4
  we_device_info :: string
  we_codec :: json_codec
  we_lower :: "string \<Rightarrow> string"

definition handle_decrypted_packet :: "'t tunnel \<Rightarrow> wg_env \<Rightarrow> bytes \<Rightarrow> nat \<Rightarrow> 't wg \<Rightarrow> 't wg run" where
  "handle_decrypted_packet T e pkt peer s = (case handle_dns_query (we_lower e) pkt (we_upstream e) of
      Some response \<Rightarrow> Ret (encrypt_send T response peer s)
    | None \<Rightarrow> bind_run (handle_discovery (we_codec e) pkt (we_upstream e) (we_device_info e)) (\<lambda>d. Ret (
        case d of Some response \<Rightarrow> encrypt_send T response peer s
        | None \<Rightarrow> (case handle_icmp_echo pkt (we_upstream e) of
            Some reply \<Rightarrow> encrypt_send T reply peer s | None \<Rightarrow> s))))"

text \<open>The inner loop over chained results: \<open>None\<close> when it never ends.\<close>

partial_function (option) decrypt_loop ::
    "'t tunnel \<Rightarrow> wg_env \<Rightarrow> bytes \<Rightarrow> nat \<Rightarrow> 't wg \<Rightarrow> 't wg run option" where
  "decrypt_loop T e dgram src s =
     (let (res, t) = decapsulate T (tunn s) dgram;
          (act, s1) = process_tunn_result src res (s\<lparr> tunn := t \<rparr>)
      in case act of
           ADone \<Rightarrow> Some (Ret s1)
         | ADecrypted pkt \<Rightarrow> Some (handle_decrypted_packet T e pkt src s1)
         | AContinue \<Rightarrow>
             (let (res2, t2) = decapsulate T (tunn s1) [];
                  (act2, s2) = process_tunn_result src res2 (s1\<lparr> tunn := t2 \<rparr>)
              in case act2 of
                   ADecrypted pkt \<Rightarrow> Some (handle_decrypted_packet T e pkt src s2)
                 | ADone \<Rightarrow> Some (Ret s2)
                 | AContinue \<Rightarrow> decrypt_loop T e dgram src s2))"

definition receive_datagram :: "'t tunnel \<Rightarrow> wg_env \<Rightarrow> bytes \<Rightarrow> nat \<Rightarrow> 't wg \<Rightarrow> 't wg run option" where
  "receive_datagram T e dgram src s0 =
     (let s = s0\<lparr> peer_addr := Some src \<rparr> in
      if \<not> session_active s then
        let (res, t) = decapsulate T (tunn s) dgram;
            s1 = s\<lparr> tunn := t, session_active := (case res of WriteToTunnelV4 _ \<Rightarrow> True | _ \<Rightarrow> False) \<rparr>;
            (act, s2) = process_tunn_result src res s1
        in Some (case act of ADecrypted pkt \<Rightarrow> handle_decrypted_packet T e pkt src s2 | _ \<Rightarrow> Ret s2)
      else decrypt_loop T e dgram src s)"

definition egress_packet :: "'t tunnel \<Rightarrow> bytes \<Rightarrow> 't wg \<Rightarrow> 't wg" where
  "egress_packet T packet s = (case peer_addr s of None \<Rightarrow> s | Some addr \<Rightarrow> encrypt_send T packet addr s)"

definition timer_tick :: "'t tunnel \<Rightarrow> 't wg \<Rightarrow> 't wg" where
  "timer_tick T s = (case peer_addr s of None \<Rightarrow> s
     | Some addr \<Rightarrow> (case update_timers T (tunn s) of (res, t) \<Rightarrow>
         snd (process_tunn_result addr res (s\<lparr> tunn := t \<rparr>))))"

definition announce :: "'t tunnel \<Rightarrow> wg_env \<Rightarrow> 't wg \<Rightarrow> 't wg" where
  "announce T e s =
     (if \<not> session_active s then s
      else case peer_addr s of None \<Rightarrow> s
        | Some addr \<Rightarrow> encrypt_send T (build_discovery_response (we_upstream e) (10, 99, 0, 2) DISCOVERY_PORT
            (as_bytes (we_device_info e))) addr s)"

datatype wg_event = Datagram bytes nat | Egress bytes | Timer | Announce

definition wg_turn :: "'t tunnel \<Rightarrow> wg_env \<Rightarrow> wg_event \<Rightarrow> 't wg \<Rightarrow> 't wg run option" where
  "wg_turn T e ev s = (case ev of
      Datagram d src \<Rightarrow> receive_datagram T e d src s
    | Egress p \<Rightarrow> Some (Ret (egress_packet T p s))
    | Timer \<Rightarrow> Some (Ret (timer_tick T s))
    | Announce \<Rightarrow> Some (Ret (announce T e s)))"

definition wg_new :: "'t \<Rightarrow> 't wg" where
  "wg_new t = \<lparr> tunn = t, peer_addr = None, session_active = False, inject_tx = mpsc_channel 256, udp_sent = [] \<rparr>"

text \<open>\<open>packet_loop\<close> on a sequence of events.\<close>

fun packet_loop :: "'t tunnel \<Rightarrow> wg_env \<Rightarrow> wg_event list \<Rightarrow> 't wg \<Rightarrow> 't wg run option" where
  "packet_loop T e [] s = Some (Ret s)"
| "packet_loop T e (ev # evs) s = (case wg_turn T e ev s of
      None \<Rightarrow> None | Some Panic \<Rightarrow> Some Panic | Some (Ret s') \<Rightarrow> packet_loop T e evs s')"

section \<open>Panics\<close>

lemma bind_run_Panic: "bind_run r (\<lambda>x. Ret (f x)) = Panic \<longleftrightarrow> r = Panic"
  by (cases r) simp_all

lemma handle_decrypted_panic:
  "handle_decrypted_packet T e pkt peer s = Panic \<longleftrightarrow> parse_discovery_request pkt = Panic"
proof (cases "handle_dns_query (we_lower e) pkt (we_upstream e)")
  case None
  then show ?thesis
    by (simp add: handle_decrypted_packet_def handle_discovery_def bind_run_Panic)
next
  case (Some r)
  then have "u16_at (drop (ihl_of pkt) pkt) 2 = 53"
    by (auto simp: handle_dns_query_def Let_def split: if_splits)
  then have "u16_at (drop (ihl_of pkt) pkt) 2 \<noteq> DISCOVERY_PORT" by (simp add: DISCOVERY_PORT_def)
  then have "parse_discovery_request pkt \<noteq> Panic"
    by (simp add: parse_discovery_request_def Let_def)
  with Some show ?thesis by (simp add: handle_decrypted_packet_def)
qed

text \<open>The shortest such packet: an IPv4 and UDP header for port 4720 with UDP length 0.\<close>

definition short_udp :: bytes where
  "short_udp =
     [0x45, 0, 0, 28, 0, 0, 0, 0, 64, 17, 0, 0, 10, 99, 0, 2, 255, 255, 255, 255, 0x13, 0x88, 0x12, 0x70, 0, 0, 0, 0]"

lemma short_udp_panics: "parse_discovery_request short_udp = Panic"
  by code_simp

text \<open>C40. One packet of 28 bytes from any peer that can send into the tunnel ends the packet loop, and
  with it the tunnel for good, whatever else happens: the discovery parser trusts a UDP length of 0.\<close>

theorem short_packet_kills_tunnel:
  assumes "decapsulate T (tunn s) d = (WriteToTunnelV4 short_udp, t)"
  shows "packet_loop T e (Datagram d src # evs) s = Some Panic"
proof -
  have h: "handle_decrypted_packet T e short_udp src s' = Panic" for s'
    by (simp add: handle_decrypted_panic short_udp_panics)
  have "receive_datagram T e d src s = Some Panic"
    using assms h
    by (cases "session_active s")
      (simp_all add: receive_datagram_def decrypt_loop.simps Let_def process_tunn_result_def split: sum.splits)
  then show ?thesis by (simp add: wg_turn_def)
qed

definition plain_tunnel :: "unit tunnel" where
  "plain_tunnel =
     \<lparr> decapsulate = (\<lambda>_ d. (WriteToTunnelV4 d, ())), encapsulate = (\<lambda>_ p. (WriteToNetwork p, ())),
       update_timers = (\<lambda>_. (TDone, ())) \<rparr>"

definition demo_wg_env :: wg_env where
  "demo_wg_env =
     \<lparr> we_upstream = (192, 168, 1, 50), we_device_info = ''info'',
       we_codec = \<lparr> from_str = (\<lambda>_. None), to_string = (\<lambda>_. None) \<rparr>, we_lower = (\<lambda>x. x) \<rparr>"

theorem short_packet_kills_tunnel_witness:
  "packet_loop plain_tunnel demo_wg_env [Datagram short_udp 7, Timer] (wg_new ()) = Some Panic"
  using short_packet_kills_tunnel [of plain_tunnel "wg_new ()" short_udp "()" demo_wg_env 7 "[Timer]"]
  by (simp add: plain_tunnel_def)

section \<open>Where datagrams go\<close>

definition sent_to :: "'t wg \<Rightarrow> nat set" where
  "sent_to s = snd ` set (udp_sent s)"

lemma sent_to_simps [simp]:
  "sent_to (send_to d a s) = insert a (sent_to s)" "sent_to (s\<lparr> tunn := t \<rparr>) = sent_to s"
  "sent_to (s\<lparr> inject_tx := q \<rparr>) = sent_to s" "sent_to (s\<lparr> peer_addr := p \<rparr>) = sent_to s"
  "sent_to (s\<lparr> session_active := b \<rparr>) = sent_to s"
  by (auto simp: sent_to_def send_to_def)

lemma process_sends: "sent_to (snd (process_tunn_result a res s)) \<subseteq> insert a (sent_to s)"
  "peer_addr (snd (process_tunn_result a res s)) = peer_addr s"
  by (auto simp: process_tunn_result_def send_to_def sent_to_def split: tunn_result.splits sum.splits)

lemma encrypt_sends: "sent_to (encrypt_send T p a s) \<subseteq> insert a (sent_to s)"
  "peer_addr (encrypt_send T p a s) = peer_addr s"
  by (auto simp: encrypt_send_def send_to_def sent_to_def split: prod.splits tunn_result.splits)

lemma handle_sends:
  "handle_decrypted_packet T e pkt a s = Ret s' \<Longrightarrow>
     sent_to s' \<subseteq> insert a (sent_to s) \<and> peer_addr s' = peer_addr s"
  using encrypt_sends [of T _ a s]
  by (auto simp: handle_decrypted_packet_def bind_run_Ret split: option.splits)

lemma decrypt_loop_sends:
  assumes "decrypt_loop T e d a s = Some r"
  shows "\<forall>s'. r = Ret s' \<longrightarrow> sent_to s' \<subseteq> insert a (sent_to s) \<and> peer_addr s' = peer_addr s"
proof (rule decrypt_loop.raw_induct [OF _ assms,
      of "\<lambda>T e d a s r. \<forall>s'. r = Ret s' \<longrightarrow> sent_to s' \<subseteq> insert a (sent_to s) \<and> peer_addr s' = peer_addr s"])
  fix loop :: "'a tunnel \<Rightarrow> wg_env \<Rightarrow> bytes \<Rightarrow> nat \<Rightarrow> 'a wg \<Rightarrow> 'a wg run option"
    and T e d a r and s :: "'a wg"
  assume IH: "\<And>T e d a s r. loop T e d a s = Some r \<Longrightarrow>
      \<forall>s'. r = Ret s' \<longrightarrow> sent_to s' \<subseteq> insert a (sent_to s) \<and> peer_addr s' = peer_addr s"
  assume body: "(let (res, t) = decapsulate T (tunn s) d;
          (act, s1) = process_tunn_result a res (s\<lparr> tunn := t \<rparr>)
      in case act of
           ADone \<Rightarrow> Some (Ret s1)
         | ADecrypted pkt \<Rightarrow> Some (handle_decrypted_packet T e pkt a s1)
         | AContinue \<Rightarrow>
             (let (res2, t2) = decapsulate T (tunn s1) [];
                  (act2, s2) = process_tunn_result a res2 (s1\<lparr> tunn := t2 \<rparr>)
              in case act2 of
                   ADecrypted pkt \<Rightarrow> Some (handle_decrypted_packet T e pkt a s2)
                 | ADone \<Rightarrow> Some (Ret s2)
                 | AContinue \<Rightarrow> loop T e d a s2)) = Some r"
  obtain res t where d1: "decapsulate T (tunn s) d = (res, t)" by fastforce
  obtain act s1 where p1: "process_tunn_result a res (s\<lparr> tunn := t \<rparr>) = (act, s1)" by fastforce
  have s1: "sent_to s1 \<subseteq> insert a (sent_to s)" "peer_addr s1 = peer_addr s"
    using process_sends [of a res "s\<lparr> tunn := t \<rparr>"] p1 by simp_all
  obtain res2 t2 where d2: "decapsulate T (tunn s1) [] = (res2, t2)" by fastforce
  obtain act2 s2 where p2: "process_tunn_result a res2 (s1\<lparr> tunn := t2 \<rparr>) = (act2, s2)" by fastforce
  have s2: "sent_to s2 \<subseteq> insert a (sent_to s)" "peer_addr s2 = peer_addr s"
    using process_sends [of a res2 "s1\<lparr> tunn := t2 \<rparr>"] p2 s1 by auto
  show "\<forall>s'. r = Ret s' \<longrightarrow> sent_to s' \<subseteq> insert a (sent_to s) \<and> peer_addr s' = peer_addr s"
  proof (cases act)
    case ADone
    with body d1 p1 s1 show ?thesis by auto
  next
    case (ADecrypted pkt)
    with body d1 p1 s1 show ?thesis using handle_sends [of T e pkt a s1] by fastforce
  next
    case AContinue
    show ?thesis
    proof (cases act2)
      case ADone
      with body d1 p1 d2 p2 s2 AContinue show ?thesis by auto
    next
      case (ADecrypted pkt)
      with body d1 p1 d2 p2 s2 AContinue show ?thesis using handle_sends [of T e pkt a s2] by fastforce
    next
      case c: AContinue
      with body d1 p1 d2 p2 AContinue have "loop T e d a s2 = Some r" by simp
      then have "\<forall>s'. r = Ret s' \<longrightarrow> sent_to s' \<subseteq> insert a (sent_to s2) \<and> peer_addr s' = peer_addr s2"
        by (rule IH)
      with s2 show ?thesis by auto
    qed
  qed
qed

lemma receive_sends:
  assumes "receive_datagram T e d a s = Some (Ret s')"
  shows "sent_to s' \<subseteq> insert a (sent_to s) \<and> peer_addr s' = Some a"
proof (cases "session_active s")
  case True
  with assms decrypt_loop_sends [of T e d a "s\<lparr> peer_addr := Some a \<rparr>" "Ret s'"] show ?thesis
    by (simp add: receive_datagram_def)
next
  case False
  obtain res t where d: "decapsulate T (tunn s) d = (res, t)" by fastforce
  define s1 where "s1 = s\<lparr> peer_addr := Some a, tunn := t,
    session_active := (case res of WriteToTunnelV4 _ \<Rightarrow> True | _ \<Rightarrow> False) \<rparr>"
  obtain act s2 where p: "process_tunn_result a res s1 = (act, s2)" by fastforce
  have s2: "sent_to s2 \<subseteq> insert a (sent_to s)" "peer_addr s2 = Some a"
    using process_sends [of a res s1] p by (simp_all add: s1_def)
  have "(case act of ADecrypted pkt \<Rightarrow> handle_decrypted_packet T e pkt a s2 | _ \<Rightarrow> Ret s2) = Ret s'"
    using assms False d p by (simp add: receive_datagram_def Let_def s1_def)
  with s2 handle_sends [of T e _ a s2 s'] show ?thesis by (cases act) fastforce+
qed

definition sources :: "wg_event list \<Rightarrow> nat set" where
  "sources evs = {a. \<exists>d. Datagram d a \<in> set evs}"

lemma turn_sends:
  assumes "wg_turn T e ev s = Some (Ret s')"
    and "sent_to s \<subseteq> A" and "\<forall>a. peer_addr s = Some a \<longrightarrow> a \<in> A" and "sources [ev] \<subseteq> A"
  shows "sent_to s' \<subseteq> A \<and> (\<forall>a. peer_addr s' = Some a \<longrightarrow> a \<in> A)"
proof (cases ev)
  case (Datagram d a)
  with assms receive_sends [of T e d a s s'] show ?thesis by (auto simp: wg_turn_def sources_def)
next
  case (Egress p)
  with assms(1) have "s' = egress_packet T p s" by (simp add: wg_turn_def)
  with assms(2,3) encrypt_sends [of T p _ s] show ?thesis
    by (cases "peer_addr s") (auto simp: egress_packet_def)
next
  case Timer
  then have s': "s' = timer_tick T s" using assms(1) by (simp add: wg_turn_def)
  show ?thesis
  proof (cases "peer_addr s")
    case (Some a)
    obtain res t where "update_timers T (tunn s) = (res, t)" by fastforce
    with s' Some have "s' = snd (process_tunn_result a res (s\<lparr> tunn := t \<rparr>))" by (simp add: timer_tick_def)
    with process_sends [of a res "s\<lparr> tunn := t \<rparr>"] assms(2,3) Some show ?thesis by auto
  qed (use s' assms in \<open>auto simp: timer_tick_def\<close>)
next
  case Announce
  then have s': "s' = announce T e s" using assms(1) by (simp add: wg_turn_def)
  then show ?thesis
    using assms(2,3) by (cases "peer_addr s"; cases "session_active s")
      (auto simp: announce_def encrypt_sends(2) dest!: subsetD [OF encrypt_sends(1)])
qed

text \<open>C24. The tunnel sends datagrams only to addresses from which it has received one: neither timers
  nor announcements nor packets of the TCP stack go anywhere before a peer has spoken.\<close>

theorem tunnel_sends_only_to_peers:
  assumes "packet_loop T e evs (wg_new t) = Some (Ret s)"
  shows "snd ` set (udp_sent s) \<subseteq> {a. \<exists>d. Datagram d a \<in> set evs}"
proof -
  have "sent_to s' \<subseteq> A"
    if "packet_loop T e evs s0 = Some (Ret s')" "sent_to s0 \<subseteq> A" "\<forall>a. peer_addr s0 = Some a \<longrightarrow> a \<in> A"
      "sources evs \<subseteq> A" for s0 s' A
    using that
  proof (induction evs arbitrary: s0)
    case (Cons ev evs)
    obtain s1 where t: "wg_turn T e ev s0 = Some (Ret s1)" "packet_loop T e evs s1 = Some (Ret s')"
      using Cons.prems(1) by (auto split: option.splits run.splits)
    have "sources [ev] \<subseteq> A" "sources evs \<subseteq> A" using Cons.prems(4) by (auto simp: sources_def)
    with turn_sends [OF t(1) Cons.prems(2,3)] Cons.IH [OF t(2)] show ?case by blast
  qed simp
  from this [OF assms, of "sources evs"] show ?thesis
    by (simp add: wg_new_def sent_to_def sources_def)
qed

theorem tunnel_sends_only_to_peers_witness:
  "\<exists>s. packet_loop plain_tunnel demo_wg_env [Announce, Datagram [1] 7, Announce] (wg_new ()) = Some (Ret s) \<and>
     udp_sent s \<noteq> [] \<and> snd ` set (udp_sent s) \<subseteq> {7}"
proof -
  let ?l = "packet_loop plain_tunnel demo_wg_env [Announce, Datagram [1] 7, Announce] (wg_new ())"
  obtain s where s: "?l = Some (Ret s)" "udp_sent s \<noteq> []"
    by (simp add: wg_new_def wg_turn_def announce_def receive_datagram_def plain_tunnel_def Let_def
        process_tunn_result_def mpsc_channel_def try_send_def handle_decrypted_packet_def handle_dns_query_def
        handle_discovery_def parse_discovery_request_def handle_icmp_echo_def encrypt_send_def send_to_def)
  have "{a. \<exists>d. Datagram d a \<in> set [Announce, Datagram [1] 7, Announce]} = {7}" by auto
  with tunnel_sends_only_to_peers [OF s(1)] s show ?thesis by auto
qed

section \<open>The decryption loop ends\<close>

lemma process_tunn [simp]: "tunn (snd (process_tunn_result a res s)) = tunn s"
  by (simp add: process_tunn_result_def send_to_def split: tunn_result.splits sum.splits)

lemma process_continue: "fst (process_tunn_result a res s) = AContinue \<longleftrightarrow> (\<exists>x. res = WriteToNetwork x)"
  by (simp add: process_tunn_result_def split: tunn_result.splits)

text \<open>One round either returns, or both calls had data for the network and the loop goes round with the
  state they left.\<close>

lemma decrypt_round:
  "(\<exists>r. decrypt_loop T e d a s = Some r) \<or>
   (\<exists>x s'. fst (decapsulate T (tunn s) d) = WriteToNetwork x \<and>
      tunn s' = snd (decapsulate T (snd (decapsulate T (tunn s) d)) []) \<and>
      decrypt_loop T e d a s = decrypt_loop T e d a s')"
proof -
  obtain res t where d1: "decapsulate T (tunn s) d = (res, t)" by fastforce
  obtain act s1 where p1: "process_tunn_result a res (s\<lparr> tunn := t \<rparr>) = (act, s1)" by fastforce
  have t1: "tunn s1 = t" using process_tunn [of a res "s\<lparr> tunn := t \<rparr>"] p1 by simp
  obtain res2 t2 where d2: "decapsulate T t [] = (res2, t2)" by fastforce
  obtain act2 s2 where p2: "process_tunn_result a res2 (s1\<lparr> tunn := t2 \<rparr>) = (act2, s2)" by fastforce
  have t2: "tunn s2 = t2" using process_tunn [of a res2 "s1\<lparr> tunn := t2 \<rparr>"] p2 by simp
  show ?thesis
  proof (cases "act = AContinue \<and> act2 = AContinue")
    case True
    then obtain x where "res = WriteToNetwork x"
      using process_continue [of a res "s\<lparr> tunn := t \<rparr>"] p1 by auto
    moreover have "decrypt_loop T e d a s = decrypt_loop T e d a s2"
      using True d1 p1 d2 p2 t1 by (simp add: decrypt_loop.simps [of T e d a s])
    ultimately show ?thesis using d1 d2 t2 by auto
  next
    case False
    then have "\<exists>r. decrypt_loop T e d a s = Some r"
      using d1 p1 d2 p2 t1 by (cases act; cases act2) (simp_all add: decrypt_loop.simps [of T e d a s])
    then show ?thesis ..
  qed
qed


text \<open>A responder that answers the first datagram it sees and rejects it afterwards.\<close>

definition once_tunnel :: "bool tunnel" where
  "once_tunnel =
     \<lparr> decapsulate = (\<lambda>seen d. if d = [] then (TDone, seen) else if seen then (TErr, seen) else (WriteToNetwork d, True)),
       encapsulate = (\<lambda>seen p. (WriteToNetwork p, seen)), update_timers = (\<lambda>seen. (TDone, seen)) \<rparr>"


end
