(* ===== verification/Serving.thy ===== *)
theory Serving
  imports Main
begin

text \<open>
  Tasks that serve one event after the other: a turn emits outputs and either goes on in a new
  state, returns, or panics.  \<open>serve\<close> runs a list of events; what a turn keeps, the loop keeps.
\<close>

datatype 's status = Serving 's | Stopped | Crashed

fun serve :: "('e \<Rightarrow> 's \<Rightarrow> 'o list \<times> 's status) \<Rightarrow> 'e list \<Rightarrow> 's \<Rightarrow> 'o list \<times> 's status" where
  "serve turn [] s = ([], Serving s)"
| "serve turn (e # es) s = (case turn e s of
      (out, Serving s') \<Rightarrow> (case serve turn es s' of (out', st) \<Rightarrow> (out @ out', st))
    | (out, Stopped) \<Rightarrow> (out, Stopped)
    | (out, Crashed) \<Rightarrow> (out, Crashed))"

lemma serve_append:
  "serve turn (es @ fs) s = (case serve turn es s of
      (out, Serving s') \<Rightarrow> (case serve turn fs s' of (out', st) \<Rightarrow> (out @ out', st))
    | (out, st) \<Rightarrow> (out, st))"
  by (induction es arbitrary: s) (auto split: prod.splits status.splits)

text \<open>An invariant of the state under which every output is good.\<close>

locale serve_invariant =
  fixes turn :: "'e \<Rightarrow> 's \<Rightarrow> 'o list \<times> 's status"
    and inv :: "'s \<Rightarrow> bool" and good :: "'o \<Rightarrow> bool"
  assumes turn_inv: "inv s \<Longrightarrow> turn e s = (out, Serving s') \<Longrightarrow> inv s'"
    and turn_good: "inv s \<Longrightarrow> turn e s = (out, st) \<Longrightarrow> x \<in> set out \<Longrightarrow> good x"
begin

lemma serve_inv: "inv s \<Longrightarrow> serve turn es s = (out, Serving s') \<Longrightarrow> inv s'"
  by (induction es arbitrary: s out) (auto split: prod.splits status.splits dest: turn_inv)

lemma serve_good: "inv s \<Longrightarrow> serve turn es s = (out, st) \<Longrightarrow> x \<in> set out \<Longrightarrow> good x"
proof (induction es arbitrary: s out)
  case (Cons e es)
  obtain o1 st1 where t: "turn e s = (o1, st1)" by fastforce
  show ?case
  proof (cases st1)
    case (Serving s1)
    obtain o2 st2 where "serve turn es s1 = (o2, st2)" by fastforce
    with Cons t Serving turn_inv [of s e o1 s1] turn_good [of s e o1 st1 x] show ?thesis by auto
  qed (use Cons.prems t turn_good [of s e o1 st1 x] in auto)
qed simp

end

text \<open>A turn that never stops nor crashes under the invariant serves every sequence of events.\<close>

locale serve_total = serve_invariant turn inv good
  for turn :: "'e \<Rightarrow> 's \<Rightarrow> 'o list \<times> 's status" and inv :: "'s \<Rightarrow> bool" and good :: "'o \<Rightarrow> bool" +
  assumes turn_total: "inv s \<Longrightarrow> \<exists>out s'. turn e s = (out, Serving s')"
begin

lemma keeps_serving: "inv s \<Longrightarrow> \<exists>out s'. serve turn es s = (out, Serving s') \<and> inv s'"
proof (induction es arbitrary: s)
  case (Cons e es)
  from turn_total [OF Cons.prems, of e] obtain o1 s1 where t: "turn e s = (o1, Serving s1)" by blast
  with Cons turn_inv [OF Cons.prems t] show ?case by fastforce
qed simp

end

text \<open>Events that a turn ignores may be dropped from a run without changing the state it ends in.\<close>

locale serve_filter =
  fixes turn :: "'e \<Rightarrow> 's \<Rightarrow> 'o list \<times> 's status" and relevant :: "'e \<Rightarrow> bool"
  assumes turn_irrelevant: "\<not> relevant e \<Longrightarrow> turn e s = (out, Serving s') \<Longrightarrow> s' = s"
begin

lemma serve_relevant:
  "serve turn es s = (out, Serving s') \<Longrightarrow> \<exists>out'. serve turn (filter relevant es) s = (out', Serving s')"
proof (induction es arbitrary: s out)
  case (Cons e es)
  obtain o1 s1 o2 where t: "turn e s = (o1, Serving s1)" "serve turn es s1 = (o2, Serving s')"
    using Cons.prems by (auto split: prod.splits status.splits)
  with Cons.IH [OF t(2)] turn_irrelevant [of e s o1 s1] show ?case by (cases "relevant e") auto
qed simp

end

end
