(* ===== verification/Discovery.thy ===== *)
theory Discovery
  imports Protocol Net_Addr Serving
begin

text \<open>
  \<open>src/discovery.rs\<close>: the UDP discovery bridge.  What arrives on a socket is a list of events that
  ends where the wait times out; what the operating system decides (routes, binding, sending) is a
  field of \<open>disc_env\<close>.  The panics are those of \<open>result["ip"] = ...\<close> on a value that has no members.
\<close>

datatype udp_event = UdpError | UdpData bytes sock_addr

text \<open>A line read from the telescope's control port: an error, or the bytes up to the end of the line
  (none at the end of the stream).\<close>

datatype tcp_read = ReadError | ReadLine bytes

text \<open>What a TCP connection attempt gives: no connection, a failed write, or the lines read until the
  time is up.\<close>

datatype tcp_session = NoConnection | WriteFailed | Connected "tcp_read list"

record disc_env =
  de_codec :: json_codec
  de_route :: "ip_addr \<Rightarrow> ip_addr option"
  de_bind :: "sock_addr \<Rightarrow> bool"
  de_send :: "sock_addr \<Rightarrow> bool"

definition to_vec :: "json_codec \<Rightarrow> json \<Rightarrow> bytes option" where
  "to_vec J v = map_option as_bytes (to_string J v)"

definition from_slice :: "json_codec \<Rightarrow> bytes \<Rightarrow> json option" where
  "from_slice J bs = Option.bind (from_utf8 bs) (from_str J)"

section \<open>Device info\<close>

text \<open>The frame of every discovery response.\<close>

definition scan_response :: "json \<Rightarrow> json" where
  "scan_response result =
     obj [(''jsonrpc'', Str ''2.0''), (''Timestamp'', Str ''0''), (''method'', Str ''scan_iscope''),
          (''result'', result), (''code'', num 0), (''id'', num 201)]"

definition str_at :: "json \<Rightarrow> string list \<Rightarrow> string \<Rightarrow> json" where
  "str_at v path dflt = Str (case Option.bind (pointer v path) as_str of Some s \<Rightarrow> s | None \<Rightarrow> dflt)"

definition device_state_response :: "json \<Rightarrow> json" where
  "device_state_response result =
     scan_response (obj [(''sn'', str_at result [''device'', ''sn''] ''unknown''),
       (''product_model'', str_at result [''device'', ''product_model''] ''Seestar''),
       (''ssid'', str_at result [''ap'', ''ssid''] []),
       (''is_verified'', Bool True), (''tcp_client_num'', num 0)])"

definition minimal_response :: json where
  "minimal_response =
     scan_response (obj [(''product_model'', Str ''Seestar (via proxy)''), (''sn'', Str ''proxy''),
       (''ssid'', Str ''Seestar_proxy''), (''is_verified'', Bool True), (''tcp_client_num'', num 0)])"

definition build_configured_response :: "string \<Rightarrow> string option \<Rightarrow> string option \<Rightarrow> string \<Rightarrow> json" where
  "build_configured_response sn model bssid proxy_ip =
     (let result =
        [(''product_model'', Str (case model of Some m \<Rightarrow> m | None \<Rightarrow> ''Seestar S50'')), (''sn'', Str sn),
         (''ssid'', Str (''S50_'' @ sn)), (''ip'', Str proxy_ip), (''is_verified'', Bool True),
         (''tcp_client_num'', num 0), (''can_star_mode_sel_cam'', Bool False), (''serc'', Str ''WPA-PSK'')]
      in scan_response (obj (case bssid of None \<Rightarrow> result | Some b \<Rightarrow> result @ [(''bssid'', Str b)])))"

section \<open>Asking the telescope\<close>

fun read_state :: "json_codec \<Rightarrow> tcp_read list \<Rightarrow> json option" where
  "read_state J [] = None"
| "read_state J (ReadError # rs) = None"
| "read_state J (ReadLine bs # rs) = (case from_utf8 bs of
      None \<Rightarrow> None
    | Some line \<Rightarrow> (case from_str J (trim line) of
        None \<Rightarrow> read_state J rs
      | Some v \<Rightarrow> if Option.bind (jget v ''result'') as_object \<noteq> None then Some v else read_state J rs))"

definition fetch_device_info_tcp :: "json_codec \<Rightarrow> tcp_session \<Rightarrow> json option" where
  "fetch_device_info_tcp J t = (case t of
      NoConnection \<Rightarrow> None
    | WriteFailed \<Rightarrow> None
    | Connected rs \<Rightarrow> Option.bind (read_state J rs) (\<lambda>parsed. map_option device_state_response (jget parsed ''result'')))"

text \<open>The wait for an answer to the probe: the datagram is cut to the 16 KiB of the buffer.\<close>

fun wait_response :: "json_codec \<Rightarrow> ip_addr \<Rightarrow> udp_event list \<Rightarrow> json option" where
  "wait_response J upstream [] = None"
| "wait_response J upstream (UdpError # es) = None"
| "wait_response J upstream (UdpData d src # es) =
     (if fst src = upstream then
        let sl = trim_ascii_end (take 16384 d) in
        case from_slice J sl of
          Some v \<Rightarrow> Some v
        | None \<Rightarrow>
            let text = from_utf8_lossy sl in
            if str_contains text (CHR 0x22 # ''code'' @ [CHR 0x22]) \<or> str_contains text (CHR 0x22 # ''error'' @ [CHR 0x22])
            then None else wait_response J upstream es
      else wait_response J upstream es)"

definition scan_probe :: "string \<Rightarrow> string \<Rightarrow> json" where
  "scan_probe name ip =
     obj [(''id'', num 201), (''method'', Str ''scan_iscope''), (''name'', Str name), (''ip'', Str ip)]"

datatype disc_error = IoError | SerializeError

definition probe_upstream_at ::
    "disc_env \<Rightarrow> ip_addr \<Rightarrow> u16 \<Rightarrow> udp_event list \<Rightarrow> tcp_session \<Rightarrow> disc_error + json" where
  "probe_upstream_at e upstream probe_port rx t = (case de_route e upstream of
      None \<Rightarrow> Inl IoError
    | Some local_ip \<Rightarrow>
        let (probe_addr, target) =
              (if probe_port = DISCOVERY_PORT then ((local_ip, probe_port), (ip_broadcast, probe_port))
               else ((local_ip, 0), (upstream, probe_port)))
        in if \<not> de_bind e probe_addr then Inl IoError
           else (case to_vec (de_codec e) (scan_probe ''seestarproxy'' (show_ip local_ip)) of
               None \<Rightarrow> Inl SerializeError
             | Some probe \<Rightarrow>
                 if \<not> de_send e target then Inl IoError
                 else Inr (case wait_response (de_codec e) upstream rx of
                     Some v \<Rightarrow> v
                   | None \<Rightarrow> (case fetch_device_info_tcp (de_codec e) t of
                       Some info \<Rightarrow> info | None \<Rightarrow> minimal_response))))"

definition probe_upstream :: "disc_env \<Rightarrow> ip_addr \<Rightarrow> udp_event list \<Rightarrow> tcp_session \<Rightarrow> disc_error + json" where
  "probe_upstream e upstream rx t = probe_upstream_at e upstream DISCOVERY_PORT rx t"

section \<open>Serving requests\<close>

text \<open>\<open>if let Some(result) = v.get_mut("result") { result["ip"] = ... }\<close>.\<close>

definition patch_ip :: "json \<Rightarrow> string \<Rightarrow> json run" where
  "patch_ip v ip = (case v of
      Obj m \<Rightarrow> (case map_of m ''result'' of
          None \<Rightarrow> Ret v
        | Some result \<Rightarrow> bind_run (index_set result ''ip'' (Str ip)) (\<lambda>r. Ret (Obj (map_insert ''result'' r m))))
    | _ \<Rightarrow> Ret v)"

definition real_info :: "json \<Rightarrow> bool" where
  "real_info v = (case Option.bind (pointer v [''result'', ''sn'']) as_str of Some s \<Rightarrow> s \<noteq> ''proxy'' | None \<Rightarrow> False)"

text \<open>What \<open>run\<close> fixes before its loop, and the two variables of the loop.\<close>

record disc_conf =
  dc_upstream :: ip_addr
  dc_proxy_ip :: ip_addr
  dc_send_from :: ip_addr

record disc =
  device_info :: json
  have_real_info :: bool

definition recv_bind_ip :: "ip_addr \<Rightarrow> ip_addr" where
  "recv_bind_ip bind_addr = (case bind_addr of
      V4 _ \<Rightarrow> if \<not> is_loopback bind_addr \<and> \<not> is_unspecified bind_addr then V4 (0, 0, 0, 0) else bind_addr
    | V6 _ \<Rightarrow> bind_addr)"

text \<open>The sockets: the responses leave from the receiving one, or from a second one on the bind address.\<close>

definition open_sockets :: "disc_env \<Rightarrow> ip_addr \<Rightarrow> disc_error + ip_addr" where
  "open_sockets e bind_addr =
     (if \<not> de_bind e (recv_bind_ip bind_addr, DISCOVERY_PORT) then Inl IoError
      else if is_unspecified bind_addr \<or> bind_addr = recv_bind_ip bind_addr then Inr (recv_bind_ip bind_addr)
      else if \<not> de_bind e (bind_addr, DISCOVERY_PORT) then Inl IoError
      else Inr bind_addr)"

definition initial_info ::
    "disc_env \<Rightarrow> ip_addr \<Rightarrow> string option \<Rightarrow> string option \<Rightarrow> string option \<Rightarrow> udp_event list \<Rightarrow> tcp_session \<Rightarrow>
     disc_error + json" where
  "initial_info e upstream sn model bssid rx t = (case sn of
      Some s \<Rightarrow> Inr (build_configured_response s model bssid ''0.0.0.0'')
    | None \<Rightarrow> probe_upstream e upstream rx t)"

definition choose_proxy_ip :: "disc_env \<Rightarrow> ip_addr \<Rightarrow> ip_addr \<Rightarrow> ip_addr option" where
  "choose_proxy_ip e bind_addr upstream = (if is_unspecified bind_addr then de_route e upstream else Some bind_addr)"

text \<open>\<open>run\<close> up to its loop: an error, a panic, or the loop's variables.\<close>

definition disc_setup ::
    "disc_env \<Rightarrow> ip_addr \<Rightarrow> ip_addr \<Rightarrow> string option \<Rightarrow> string option \<Rightarrow> string option \<Rightarrow> udp_event list \<Rightarrow>
     tcp_session \<Rightarrow> (disc_error + disc_conf \<times> disc) run" where
  "disc_setup e bind_addr upstream sn model bssid rx t = (case initial_info e upstream sn model bssid rx t of
      Inl err \<Rightarrow> Ret (Inl err)
    | Inr info \<Rightarrow> (case choose_proxy_ip e bind_addr upstream of
        None \<Rightarrow> Ret (Inl IoError)
      | Some proxy_ip \<Rightarrow> bind_run (patch_ip info (show_ip proxy_ip)) (\<lambda>info'. Ret (
          case open_sockets e bind_addr of
            Inl err \<Rightarrow> Inl err
          | Inr from \<Rightarrow> Inr (\<lparr> dc_upstream = upstream, dc_proxy_ip = proxy_ip, dc_send_from = from \<rparr>,
                              \<lparr> device_info = info', have_real_info = real_info info' \<rparr>)))))"

text \<open>One datagram sent: source address, destination, bytes.\<close>

type_synonym disc_out = "ip_addr \<times> sock_addr \<times> bytes"

definition answer :: "disc_env \<Rightarrow> disc_conf \<Rightarrow> sock_addr \<Rightarrow> disc \<Rightarrow> disc_out list \<times> disc status" where
  "answer e c src s = (case to_vec (de_codec e) (device_info s) of
      None \<Rightarrow> ([], Stopped)
    | Some response \<Rightarrow>
        ([(dc_send_from c, src, response), (dc_send_from c, (ip_broadcast, DISCOVERY_PORT), response)] @
           (if have_real_info s then []
            else case to_vec (de_codec e) (scan_probe ''seestarproxy'' (show_ip (dc_proxy_ip c))) of
                None \<Rightarrow> []
              | Some probe \<Rightarrow> [(dc_send_from c, (dc_upstream c, DISCOVERY_PORT), probe)]),
         Serving s))"

definition learn :: "disc_conf \<Rightarrow> json \<Rightarrow> sock_addr \<Rightarrow> disc \<Rightarrow> disc_out list \<times> disc status" where
  "learn c request src s =
     (if fst src = dc_upstream c \<and> \<not> have_real_info s then
        case patch_ip request (show_ip (dc_proxy_ip c)) of
          Panic \<Rightarrow> ([], Crashed)
        | Ret updated \<Rightarrow> ([], Serving (s\<lparr> device_info := updated, have_real_info := True \<rparr>))
      else ([], Serving s))"

definition discovery_turn :: "disc_env \<Rightarrow> disc_conf \<Rightarrow> udp_event \<Rightarrow> disc \<Rightarrow> disc_out list \<times> disc status" where
  "discovery_turn e c ev s = (case ev of
      UdpError \<Rightarrow> ([], Serving s)
    | UdpData d src \<Rightarrow> (case from_utf8 (take 16384 d) of
        None \<Rightarrow> ([], Serving s)
      | Some msg \<Rightarrow> (case from_str (de_codec e) (trim msg) of
          None \<Rightarrow> ([], Serving s)
        | Some request \<Rightarrow>
            if (case Option.bind (jget request ''method'') as_str of Some m \<Rightarrow> m | None \<Rightarrow> []) \<noteq> ''scan_iscope''
            then ([], Serving s)
            else if jget request ''result'' \<noteq> None \<or> jget request ''code'' \<noteq> None then learn c request src s
            else answer e c src s)))"

text \<open>\<open>discovery::run\<close>: what it sent, and how it ended on the events seen so far.\<close>

definition discovery_run ::
    "disc_env \<Rightarrow> ip_addr \<Rightarrow> ip_addr \<Rightarrow> string option \<Rightarrow> string option \<Rightarrow> string option \<Rightarrow> udp_event list \<Rightarrow>
     tcp_session \<Rightarrow> udp_event list \<Rightarrow> disc_out list \<times> disc status" where
  "discovery_run e bind_addr upstream sn model bssid rx t evs =
     (case disc_setup e bind_addr upstream sn model bssid rx t of
        Panic \<Rightarrow> ([], Crashed)
      | Ret (Inl _) \<Rightarrow> ([], Stopped)
      | Ret (Inr (c, s)) \<Rightarrow> serve (discovery_turn e c) evs s)"

section \<open>Patching\<close>

lemma patch_ip_result:
  "patch_ip v ip = Ret w \<Longrightarrow> jget w ''result'' = None \<or> pointer w [''result'', ''ip''] = Some (Str ip)"
  by (cases v) (auto simp: patch_ip_def jget_def index_set_def bind_run_Ret split: option.splits json.splits)

lemma patch_ip_keeps:
  "patch_ip v ip = Ret w \<Longrightarrow> k \<noteq> ''result'' \<Longrightarrow> jget w k = jget v k"
  by (cases v) (auto simp: patch_ip_def jget_def bind_run_Ret split: option.splits)

lemma patch_ip_Panic:
  "patch_ip v ip = Panic \<longleftrightarrow> (\<exists>r. jget v ''result'' = Some r \<and> r \<noteq> Null \<and> as_object r = None)"
  by (cases v) (auto simp: patch_ip_def jget_def index_set_def as_object_def split: option.splits json.splits)

lemma patch_ip_none: "jget v ''result'' = None \<Longrightarrow> patch_ip v ip = Ret v"
  by (cases v) (simp_all add: patch_ip_def jget_def)

lemma patch_ip_scan: "patch_ip (scan_response (obj kvs)) ip = Ret (scan_response (obj (kvs @ [(''ip'', Str ip)])))"
proof -
  let ?o = "\<lambda>r. [(''jsonrpc'', Str ''2.0''), (''Timestamp'', Str ''0''), (''method'', Str ''scan_iscope''),
          (''result'', r), (''code'', num 0), (''id'', num 201)]"
  let ?m = "fold (\<lambda>(k, v). map_insert k v) (?o (obj kvs)) []"
  let ?r = "obj (kvs @ [(''ip'', Str ip)])"
  have m: "scan_response (obj kvs) = Obj ?m" by (simp only: scan_response_def obj_def)
  have "map_of ?m ''result'' = Some (obj kvs)" using jget_obj [of "?o (obj kvs)" "''result''"] by (simp add: obj_def)
  moreover have "index_set (obj kvs) ''ip'' (Str ip) = Ret ?r" by (simp add: obj_def index_set_def)
  moreover have "Obj (map_insert ''result'' ?r ?m) = obj (?o (obj kvs) @ [(''result'', ?r)])"
    by (rule obj_insert) (simp only: obj_def)
  moreover have "obj (?o (obj kvs) @ [(''result'', ?r)]) = scan_response ?r"
    unfolding scan_response_def by (rule obj_eqI) auto
  ultimately show ?thesis unfolding m by (simp add: patch_ip_def)
qed

section \<open>Where clients are sent\<close>

text \<open>A turn does nothing, learns from a response, or answers a request.\<close>

lemma turn_disj:
  "discovery_turn e c ev s = ([], Serving s) \<or>
   (\<exists>d src. ev = UdpData d src \<and>
      ((\<exists>request. discovery_turn e c ev s = learn c request src s) \<or> discovery_turn e c ev s = answer e c src s))"
  by (cases ev) (auto simp: discovery_turn_def split: option.split)

lemma turn_cases:
  obtains "discovery_turn e c ev s = ([], Serving s)"
  | d src request where "ev = UdpData d src" "discovery_turn e c ev s = learn c request src s"
  | d src where "ev = UdpData d src" "discovery_turn e c ev s = answer e c src s"
  using turn_disj [of e c ev s] by blast

text \<open>The cached info sends clients to the proxy.\<close>

definition to_proxy :: "disc_conf \<Rightarrow> json \<Rightarrow> bool" where
  "to_proxy c info \<longleftrightarrow> jget info ''result'' = None \<or> pointer info [''result'', ''ip''] = Some (Str (show_ip (dc_proxy_ip c)))"

definition good_out :: "disc_env \<Rightarrow> disc_conf \<Rightarrow> disc_out \<Rightarrow> bool" where
  "good_out e c x \<longleftrightarrow> fst x = dc_send_from c \<and>
     ((\<exists>info. to_vec (de_codec e) info = Some (snd (snd x)) \<and> to_proxy c info) \<or>
      fst (snd x) = (dc_upstream c, DISCOVERY_PORT) \<and>
      to_vec (de_codec e) (scan_probe ''seestarproxy'' (show_ip (dc_proxy_ip c))) = Some (snd (snd x)))"

lemma patch_to_proxy: "patch_ip v (show_ip (dc_proxy_ip c)) = Ret w \<Longrightarrow> to_proxy c w"
  using patch_ip_result [of v _ w] by (simp add: to_proxy_def)

lemma good_outI:
  "to_vec (de_codec e) info = Some x \<Longrightarrow> to_proxy c info \<Longrightarrow> good_out e c (dc_send_from c, dest, x)"
  "to_vec (de_codec e) (scan_probe ''seestarproxy'' (show_ip (dc_proxy_ip c))) = Some x \<Longrightarrow>
     good_out e c (dc_send_from c, (dc_upstream c, DISCOVERY_PORT), x)"
  by (auto simp: good_out_def)

lemma learn_to_proxy: "to_proxy c (device_info s) \<Longrightarrow> learn c r src s = (out, Serving s') \<Longrightarrow> to_proxy c (device_info s')"
  by (auto simp: learn_def split: if_splits run.splits dest: patch_to_proxy)

lemma learn_silent: "learn c r src s = (out, st) \<Longrightarrow> out = []"
  by (auto simp: learn_def split: if_splits run.splits)

lemma answer_stays: "answer e c src s = (out, Serving s') \<Longrightarrow> s' = s"
  by (auto simp: answer_def split: option.splits)

lemma answer_good:
  "to_proxy c (device_info s) \<Longrightarrow> answer e c src s = (out, st) \<Longrightarrow> x \<in> set out \<Longrightarrow> good_out e c x"
  by (auto simp: answer_def split: option.splits if_splits intro: good_outI)

interpretation prox: serve_invariant "discovery_turn e c" "\<lambda>s. to_proxy c (device_info s)" "good_out e c" for e c
proof
  fix s ev out s'
  assume inv: "to_proxy c (device_info s)" and t: "discovery_turn e c ev s = (out, Serving s')"
  show "to_proxy c (device_info s')"
    by (rule turn_cases [of e c ev s]) (use inv t in \<open>auto dest!: answer_stays dest: learn_to_proxy\<close>)
next
  fix s ev out st x
  assume inv: "to_proxy c (device_info s)" and t: "discovery_turn e c ev s = (out, st)" and x: "x \<in> set out"
  show "good_out e c x"
    by (rule turn_cases [of e c ev s]) (use inv t x in \<open>auto dest: learn_silent answer_good\<close>)
qed

lemma setup_conf:
  assumes "disc_setup e bind_addr upstream sn model bssid rx t = Ret (Inr (c, s))"
  shows "dc_upstream c = upstream" "choose_proxy_ip e bind_addr upstream = Some (dc_proxy_ip c)"
    "dc_send_from c = bind_addr" "to_proxy c (device_info s)"
proof -
  obtain info ip where i: "initial_info e upstream sn model bssid rx t = Inr info"
    "choose_proxy_ip e bind_addr upstream = Some ip" "patch_ip info (show_ip ip) = Ret (device_info s)"
    "dc_upstream c = upstream" "dc_proxy_ip c = ip" "open_sockets e bind_addr = Inr (dc_send_from c)"
    using assms by (cases "open_sockets e bind_addr") (auto simp: disc_setup_def bind_run_Ret split: sum.splits option.splits)
  then show "dc_upstream c = upstream" "choose_proxy_ip e bind_addr upstream = Some (dc_proxy_ip c)" by simp_all
  show "to_proxy c (device_info s)" using patch_ip_result [OF i(3)] i(5) by (simp add: to_proxy_def)
  have "is_unspecified bind_addr \<Longrightarrow> recv_bind_ip bind_addr = bind_addr"
    by (cases bind_addr) (simp_all add: recv_bind_ip_def)
  with i(6) show "dc_send_from c = bind_addr" by (auto simp: open_sockets_def split: if_splits)
qed


section \<open>What the cache depends on\<close>

interpretation scope: serve_filter "discovery_turn e c" "\<lambda>ev. \<exists>d p. ev = UdpData d (dc_upstream c, p)" for e c
proof
  fix ev s out s'
  assume ev: "\<not> (\<exists>d p. ev = UdpData d (dc_upstream c, p))" and t: "discovery_turn e c ev s = (out, Serving s')"
  show "s' = s"
    by (rule turn_cases [of e c ev s]) (use ev t in \<open>auto simp: learn_def split: if_splits dest!: answer_stays\<close>)
qed

text \<open>C25. The cached device info depends on the telescope only: dropping every datagram that does not come
  from the telescope's address leaves the bridge in the same state.\<close>

theorem cache_only_from_telescope:
  assumes "discovery_run e bind_addr upstream sn model bssid rx t evs = (out, Serving s)"
  shows "\<exists>out'. discovery_run e bind_addr upstream sn model bssid rx t
    (filter (\<lambda>ev. \<exists>d p. ev = UdpData d (upstream, p)) evs) = (out', Serving s)"
proof -
  from assms obtain c s0 where c: "disc_setup e bind_addr upstream sn model bssid rx t = Ret (Inr (c, s0))"
    and l: "serve (discovery_turn e c) evs s0 = (out, Serving s)"
    by (auto simp: discovery_run_def split: run.splits sum.splits)
  from scope.serve_relevant [OF l] c setup_conf(1) [OF c] show ?thesis by (simp add: discovery_run_def)
qed

section \<open>A configured identity\<close>

lemma real_stays: "have_real_info s \<Longrightarrow> learn c r src s = ([], Serving s)"
  by (simp add: learn_def)

interpretation final: serve_invariant "discovery_turn e c" "\<lambda>s. device_info s = info \<and> have_real_info s"
    "\<lambda>x. to_vec (de_codec e) info = Some (snd (snd x))" for e c info
proof
  fix s ev out s'
  assume inv: "device_info s = info \<and> have_real_info s" and t: "discovery_turn e c ev s = (out, Serving s')"
  show "device_info s' = info \<and> have_real_info s'"
    by (rule turn_cases [of e c ev s]) (use inv t in \<open>auto simp: real_stays dest!: answer_stays\<close>)
next
  fix s ev out st x
  assume inv: "device_info s = info \<and> have_real_info s" and t: "discovery_turn e c ev s = (out, st)" and x: "x \<in> set out"
  show "to_vec (de_codec e) info = Some (snd (snd x))"
    by (rule turn_cases [of e c ev s])
      (use inv t x in \<open>auto simp: real_stays answer_def split: option.splits\<close>)
qed

lemma configured_patched:
  "patch_ip (build_configured_response sn model bssid ip0) ip = Ret (build_configured_response sn model bssid ip)"
proof (cases bssid)
  case None
  then show ?thesis
    by (simp add: build_configured_response_def patch_ip_scan) (intro arg_cong [of _ _ scan_response] obj_eqI; auto)
next
  case (Some b)
  then show ?thesis
    by (simp add: build_configured_response_def patch_ip_scan) (intro arg_cong [of _ _ scan_response] obj_eqI; auto)
qed

lemma configured_real: "real_info (build_configured_response sn model bssid ip) \<longleftrightarrow> sn \<noteq> ''proxy''"
  by (cases bssid; cases model)
    (simp_all add: build_configured_response_def real_info_def scan_response_def Let_def as_str_def)

lemma answer_Serving:
  "to_vec (de_codec e) (device_info s) = Some x \<Longrightarrow>
     \<exists>out. answer e c src s = (out, Serving s) \<and> (dc_send_from c, src, x) \<in> set out"
  by (simp add: answer_def)

interpretation steady: serve_total "discovery_turn e c"
    "\<lambda>s. device_info s = info \<and> have_real_info s \<and> to_vec (de_codec e) info \<noteq> None" "\<lambda>x. True" for e c info
proof
  fix s s' :: disc and ev out
  assume "device_info s = info \<and> have_real_info s \<and> to_vec (de_codec e) info \<noteq> None"
    and "discovery_turn e c ev s = (out, Serving s')"
  then show "device_info s' = info \<and> have_real_info s' \<and> to_vec (de_codec e) info \<noteq> None"
    using final.turn_inv [where s = s and info = info] by blast
next
  fix s :: disc and ev
  assume inv: "device_info s = info \<and> have_real_info s \<and> to_vec (de_codec e) info \<noteq> None"
  show "\<exists>out s'. discovery_turn e c ev s = (out, Serving s')"
    by (rule turn_cases [of e c ev s]) (use inv in \<open>auto simp: real_stays dest!: answer_Serving\<close>)
qed simp

text \<open>A datagram that is a discovery request.\<close>

definition scan_request :: "json_codec \<Rightarrow> bytes \<Rightarrow> bool" where
  "scan_request J d = (case Option.bind (from_utf8 (take 16384 d)) (\<lambda>msg. from_str J (trim msg)) of
      None \<Rightarrow> False
    | Some r \<Rightarrow> jget r ''method'' = Some (Str ''scan_iscope'') \<and> jget r ''result'' = None \<and> jget r ''code'' = None)"

lemma turn_request: "scan_request (de_codec e) d \<Longrightarrow> discovery_turn e c (UdpData d src) s = answer e c src s"
  by (auto simp: scan_request_def discovery_turn_def as_str_def split: option.splits bind_splits)

lemma configured_setup:
  assumes "choose_proxy_ip e bind_addr upstream = Some ip" and "open_sockets e bind_addr = Inr from" and "sn \<noteq> ''proxy''"
  shows "disc_setup e bind_addr upstream (Some sn) model bssid rx t =
    Ret (Inr (\<lparr> dc_upstream = upstream, dc_proxy_ip = ip, dc_send_from = from \<rparr>,
      \<lparr> device_info = build_configured_response sn model bssid (show_ip ip), have_real_info = True \<rparr>))"
  using assms by (simp add: disc_setup_def initial_info_def configured_patched configured_real)

text \<open>C19. With a configured serial number the bridge is steady: whatever arrives, malformed or hostile,
  it keeps serving, answers every discovery request, and never sends anything but the configured
  identity with the proxy's address.\<close>

theorem configured_bridge_answers:
  assumes "sn \<noteq> ''proxy''" and "choose_proxy_ip e bind_addr upstream = Some ip"
    and "open_sockets e bind_addr = Inr from"
    and "to_vec (de_codec e) (build_configured_response sn model bssid (show_ip ip)) = Some response"
  shows "\<exists>out s. discovery_run e bind_addr upstream (Some sn) model bssid rx t evs = (out, Serving s) \<and>
     (\<forall>x \<in> set out. snd (snd x) = response) \<and>
     (\<forall>d src. UdpData d src \<in> set evs \<and> scan_request (de_codec e) d \<longrightarrow> (from, src, response) \<in> set out)"
proof -
  let ?c = "\<lparr> dc_upstream = upstream, dc_proxy_ip = ip, dc_send_from = from \<rparr>"
  let ?info = "build_configured_response sn model bssid (show_ip ip)"
  let ?s = "\<lparr> device_info = ?info, have_real_info = True \<rparr>"
  have r: "discovery_run e bind_addr upstream (Some sn) model bssid rx t evs = serve (discovery_turn e ?c) evs ?s"
    using assms by (simp add: discovery_run_def configured_setup)
  have st: "device_info ?s = ?info \<and> have_real_info ?s \<and> to_vec (de_codec e) ?info \<noteq> None" using assms(4) by simp
  obtain out s where o: "serve (discovery_turn e ?c) evs ?s = (out, Serving s)"
    using steady.keeps_serving [OF st, of ?c evs] by auto
  have "snd (snd x) = response" if "x \<in> set out" for x
    using final.serve_good [where s = ?s and info = ?info, OF _ o that] assms(4) by simp
  moreover have "(from, src, response) \<in> set out" if ev: "UdpData d src \<in> set evs" "scan_request (de_codec e) d" for d src
  proof -
    obtain pre post where evs: "evs = pre @ UdpData d src # post" using ev(1) by (meson split_list)
    obtain o1 s1 where p: "serve (discovery_turn e ?c) pre ?s = (o1, Serving s1)" "device_info s1 = ?info"
      using steady.keeps_serving [OF st, of ?c pre] by auto
    obtain o2 where a: "answer e ?c src s1 = (o2, Serving s1)" "(from, src, response) \<in> set o2"
      using answer_Serving [of e s1 response ?c src] p(2) assms(4) by auto
    then show ?thesis
      using o by (auto simp: evs serve_append p(1) turn_request [OF ev(2)] split: prod.splits status.splits)
  qed
  ultimately show ?thesis using r o by auto
qed

section \<open>Error responses of the telescope\<close>

lemma turn_response:
  assumes "Option.bind (from_utf8 (take 16384 d)) (\<lambda>msg. from_str (de_codec e) (trim msg)) = Some r"
    and "jget r ''method'' = Some (Str ''scan_iscope'')" and "jget r ''result'' \<noteq> None \<or> jget r ''code'' \<noteq> None"
  shows "discovery_turn e c (UdpData d src) s = learn c r src s"
  using assms by (auto simp: discovery_turn_def as_str_def split: option.splits bind_splits)

text \<open>Until the bridge has real info, an error response of the telescope is fatal to it.  If its
  \<open>result\<close> is neither an object nor null (an error code, a string) the task panics; if it has a
  \<open>code\<close> and no \<open>result\<close>, it becomes the cached info for good, and every client is answered with
  the error message from then on.\<close>

theorem telescope_error_response:
  assumes "Option.bind (from_utf8 (take 16384 d)) (\<lambda>msg. from_str (de_codec e) (trim msg)) = Some r"
    and "jget r ''method'' = Some (Str ''scan_iscope'')" and "\<not> have_real_info s"
    and "serve (discovery_turn e c) (UdpData d (dc_upstream c, p) # evs) s = (out, st)"
  shows "(jget r ''result'' = Some v \<and> v \<noteq> Null \<and> as_object v = None \<longrightarrow> out = [] \<and> st = Crashed) \<and>
     (jget r ''result'' = None \<and> jget r ''code'' \<noteq> None \<longrightarrow> (\<forall>x \<in> set out. to_vec (de_codec e) r = Some (snd (snd x))))"
proof (intro conjI impI ballI)
  assume v: "jget r ''result'' = Some v \<and> v \<noteq> Null \<and> as_object v = None"
  then have "patch_ip r (show_ip (dc_proxy_ip c)) = Panic" by (simp add: patch_ip_Panic)
  with v assms turn_response [OF assms(1,2)] show "out = []" "st = Crashed" by (simp_all add: learn_def)
next
  fix x assume n: "jget r ''result'' = None \<and> jget r ''code'' \<noteq> None" and x: "x \<in> set out"
  from n assms(3) turn_response [OF assms(1,2)]
  have t: "discovery_turn e c (UdpData d (dc_upstream c, p)) s = ([], Serving \<lparr> device_info = r, have_real_info = True \<rparr>)"
    by (simp add: learn_def patch_ip_none)
  obtain o2 st2 where l: "serve (discovery_turn e c) evs \<lparr> device_info = r, have_real_info = True \<rparr> = (o2, st2)" by fastforce
  with t assms(4) x have "x \<in> set o2" by auto
  with final.serve_good [where s = "\<lparr> device_info = r, have_real_info = True \<rparr>" and info = r, OF _ l]
  show "to_vec (de_codec e) r = Some (snd (snd x))" by simp
qed

section \<open>A concrete bridge\<close>

text \<open>A codec that knows four messages, and a network on which everything can be bound and sent.\<close>

definition disc_request :: json where
  "disc_request = obj [(''method'', Str ''scan_iscope'')]"

definition disc_failure :: json where
  "disc_failure = obj [(''method'', Str ''scan_iscope''), (''code'', num 101)]"

definition disc_number :: json where
  "disc_number = obj [(''method'', Str ''scan_iscope''), (''result'', num 0)]"

definition disc_codec :: json_codec where
  "disc_codec =
     \<lparr> from_str = (\<lambda>s. if s = ''q'' then Some disc_request else if s = ''f'' then Some disc_failure
         else if s = ''n'' then Some disc_number else None),
       to_string = (\<lambda>v. Some (if v = disc_failure then ''f'' else ''info'')) \<rparr>"

definition demo_disc_env :: disc_env where
  "demo_disc_env =
     \<lparr> de_codec = disc_codec, de_route = (\<lambda>_. Some (V4 (192, 168, 1, 7))), de_bind = (\<lambda>_. True), de_send = (\<lambda>_. True) \<rparr>"

definition telescope_ip :: ip_addr where "telescope_ip = V4 (192, 168, 1, 50)"

definition phone :: sock_addr where "phone = (V4 (192, 168, 1, 9), 5000)"

lemma demo_parse:
  "Option.bind (from_utf8 (take 16384 [113])) (\<lambda>msg. from_str disc_codec (trim msg)) = Some disc_request"
  "Option.bind (from_utf8 (take 16384 [102])) (\<lambda>msg. from_str disc_codec (trim msg)) = Some disc_failure"
  "Option.bind (from_utf8 (take 16384 [110])) (\<lambda>msg. from_str disc_codec (trim msg)) = Some disc_number"
proof -
  have t: "from_utf8 [113] = Some ''q'' \<and> from_utf8 [102] = Some ''f'' \<and> from_utf8 [110] = Some ''n''"
    "trim ''q'' = ''q'' \<and> trim ''f'' = ''f'' \<and> trim ''n'' = ''n''"
    by code_simp+
  show "Option.bind (from_utf8 (take 16384 [113])) (\<lambda>msg. from_str disc_codec (trim msg)) = Some disc_request"
    "Option.bind (from_utf8 (take 16384 [102])) (\<lambda>msg. from_str disc_codec (trim msg)) = Some disc_failure"
    "Option.bind (from_utf8 (take 16384 [110])) (\<lambda>msg. from_str disc_codec (trim msg)) = Some disc_number"
    by (simp_all add: t disc_codec_def)
qed

lemma disc_demo_request: "scan_request disc_codec [113]"
  by (simp only: scan_request_def demo_parse) (simp add: disc_request_def)

lemma demo_sockets:
  "open_sockets demo_disc_env (V4 (192, 168, 1, 7)) = Inr (V4 (192, 168, 1, 7))"
  "choose_proxy_ip demo_disc_env (V4 (192, 168, 1, 7)) upstream = Some (V4 (192, 168, 1, 7))"
  by (simp_all add: open_sockets_def demo_disc_env_def choose_proxy_ip_def is_unspecified_def)

lemma demo_to_vec: "v \<noteq> disc_failure \<Longrightarrow> to_vec disc_codec v = Some (as_bytes ''info'')"
  "to_vec disc_codec disc_failure = Some (as_bytes ''f'')"
  by (simp_all add: to_vec_def disc_codec_def)

lemma demo_configured: "build_configured_response sn model bssid ip \<noteq> disc_failure"
proof
  assume a: "build_configured_response sn model bssid ip = disc_failure"
  have "jget (build_configured_response sn model bssid ip) ''result'' \<noteq> None"
    by (simp add: build_configured_response_def scan_response_def Let_def)
  moreover have "jget disc_failure ''result'' = None" by (simp add: disc_failure_def)
  ultimately show False using a by simp
qed

lemma disc_demo_codec [simp]: "de_codec demo_disc_env = disc_codec"
  by (simp add: demo_disc_env_def)

abbreviation demo_proxy :: ip_addr where "demo_proxy \<equiv> V4 (192, 168, 1, 7)"

definition demo_served :: disc where
  "demo_served = \<lparr> device_info = build_configured_response ''S1'' None None (show_ip demo_proxy), have_real_info = True \<rparr>"

lemma demo_run:
  "discovery_run demo_disc_env demo_proxy telescope_ip (Some ''S1'') None None [] NoConnection [UdpData [113] phone] =
     ([(demo_proxy, phone, as_bytes ''info''), (demo_proxy, (ip_broadcast, DISCOVERY_PORT), as_bytes ''info'')],
      Serving demo_served)"
  by (simp add: discovery_run_def configured_setup demo_sockets turn_request disc_demo_request answer_def demo_to_vec
      demo_configured demo_served_def)


theorem cache_only_from_telescope_witness:
  "\<exists>out. discovery_run demo_disc_env demo_proxy telescope_ip (Some ''S1'') None None [] NoConnection [] = (out, Serving demo_served)"
  using cache_only_from_telescope [OF demo_run] by (simp add: phone_def telescope_ip_def)

theorem configured_bridge_answers_witness:
  "\<exists>out s. discovery_run demo_disc_env demo_proxy telescope_ip (Some ''S1'') None None [] NoConnection
       [UdpError, UdpData [110] (telescope_ip, 4720), UdpData [113] phone] = (out, Serving s) \<and>
     (demo_proxy, phone, as_bytes ''info'') \<in> set out"
proof -
  let ?evs = "[UdpError, UdpData [110] (telescope_ip, 4720), UdpData [113] phone]"
  have "to_vec (de_codec demo_disc_env) (build_configured_response ''S1'' None None (show_ip demo_proxy)) = Some (as_bytes ''info'')"
    by (simp add: demo_to_vec demo_configured)
  from configured_bridge_answers [OF _ demo_sockets(2,1) this, of telescope_ip "[]" NoConnection ?evs]
  obtain out s where o: "discovery_run demo_disc_env demo_proxy telescope_ip (Some ''S1'') None None [] NoConnection ?evs = (out, Serving s)"
    and a: "\<And>d src. UdpData d src \<in> set ?evs \<and> scan_request (de_codec demo_disc_env) d \<Longrightarrow> (demo_proxy, src, as_bytes ''info'') \<in> set out"
    by auto
  have "(demo_proxy, phone, as_bytes ''info'') \<in> set out" by (rule a [of "[113]"]) (simp add: disc_demo_request)
  with o show ?thesis by blast
qed

definition demo_unsure :: disc where
  "demo_unsure = \<lparr> device_info = minimal_response, have_real_info = False \<rparr>"

definition demo_conf :: disc_conf where
  "demo_conf = \<lparr> dc_upstream = telescope_ip, dc_proxy_ip = demo_proxy, dc_send_from = demo_proxy \<rparr>"

theorem telescope_error_response_witness:
  "serve (discovery_turn demo_disc_env demo_conf) [UdpData [110] (telescope_ip, 4720), UdpData [113] phone] demo_unsure = ([], Crashed) \<and>
   (\<exists>out s. serve (discovery_turn demo_disc_env demo_conf) [UdpData [102] (telescope_ip, 4720), UdpData [113] phone] demo_unsure = (out, Serving s) \<and>
     (demo_proxy, phone, as_bytes ''f'') \<in> set out)"
proof
  let ?turn = "discovery_turn demo_disc_env demo_conf"
  obtain out st where r: "serve ?turn (UdpData [110] (dc_upstream demo_conf, 4720) # [UdpData [113] phone]) demo_unsure = (out, st)"
    by fastforce
  have n: "jget disc_number ''method'' = Some (Str ''scan_iscope'')" "jget disc_number ''result'' = Some (num 0)"
    by (simp_all add: disc_number_def)
  from telescope_error_response [OF _ n(1) _ r, of "num 0"] n(2) r
  show "serve ?turn [UdpData [110] (telescope_ip, 4720), UdpData [113] phone] demo_unsure = ([], Crashed)"
    by (simp add: demo_parse [simplified] demo_unsure_def num_def as_object_def demo_conf_def)
next
  let ?turn = "discovery_turn demo_disc_env demo_conf"
  let ?evs = "UdpData [102] (dc_upstream demo_conf, 4720) # [UdpData [113] phone]"
  have f: "jget disc_failure ''method'' = Some (Str ''scan_iscope'')" "jget disc_failure ''result'' = None"
    "jget disc_failure ''code'' \<noteq> None"
    by (simp_all add: disc_failure_def)
  obtain out where r: "serve ?turn ?evs demo_unsure = (out, Serving \<lparr> device_info = disc_failure, have_real_info = True \<rparr>)"
    "\<exists>data. (demo_proxy, phone, data) \<in> set out"
    using turn_response [of "[102]" demo_disc_env disc_failure demo_conf] f
    by (auto simp: patch_ip_none demo_parse [simplified] learn_def demo_conf_def demo_unsure_def turn_request disc_demo_request answer_def demo_to_vec)
  then obtain data where d: "(demo_proxy, phone, data) \<in> set out" by blast
  from telescope_error_response [OF _ f(1) _ r(1)] f(2,3) d
  have "data = as_bytes ''f''" by (fastforce simp: demo_parse [simplified] demo_unsure_def demo_to_vec demo_disc_env_def)
  with r(1) d show "\<exists>out s. serve ?turn [UdpData [102] (telescope_ip, 4720), UdpData [113] phone] demo_unsure = (out, Serving s) \<and>
     (demo_proxy, phone, as_bytes ''f'') \<in> set out"
    by (auto simp: demo_conf_def)
qed

end
