(* ===== verification/Wg_Setup.thy ===== *)
theory Wg_Setup
  imports Wg_Keys Wg_Tunnel Discovery Long_Word
begin

text \<open>
  \<open>src/wireguard/mod.rs\<close> up to the packet loop, and \<open>src/wireguard/qr.rs\<close>: keys, client
  configuration, the device info for announcements, and what \<open>start\<close> hands to the tasks it spawns.
\<close>

section \<open>Client configuration\<close>

definition unlines :: "string list \<Rightarrow> string" where
  "unlines ls = concat (map (\<lambda>l. l @ [CHR 0x0A]) ls)"

definition client_config :: "string \<Rightarrow> string \<Rightarrow> string \<Rightarrow> string \<Rightarrow> string \<Rightarrow> string" where
  "client_config client_private_key client_address server_public_key endpoint allowed_ips =
     unlines [''[Interface]'', ''PrivateKey = '' @ client_private_key, ''Address = '' @ client_address,
       ''DNS = 10.99.0.1, 1.1.1.1'', [], ''[Peer]'', ''PublicKey = '' @ server_public_key,
       ''Endpoint = '' @ endpoint, ''AllowedIPs = '' @ allowed_ips, ''PersistentKeepalive = 25'']"

section \<open>Device info\<close>

text \<open>\<open>Value::to_string\<close> panics where \<open>serde_json::to_string\<close> fails.\<close>

definition default_device_info :: "json_codec \<Rightarrow> string run" where
  "default_device_info J = (case to_string J minimal_response of Some s \<Rightarrow> Ret s | None \<Rightarrow> Panic)"

text \<open>\<open>fetch_device_info_tcp\<close> of the tunnel: the first line is the answer, whatever it is.\<close>

definition wg_device_info_tcp :: "json_codec \<Rightarrow> tcp_session \<Rightarrow> string run" where
  "wg_device_info_tcp J t = (case t of
      Connected (ReadLine bs # _) \<Rightarrow> (case Option.bind (from_utf8 bs) (\<lambda>line. from_str J (trim line)) of
          Some parsed \<Rightarrow>
            let result = (case jget parsed ''result'' of Some r \<Rightarrow> r | None \<Rightarrow> obj [])
            in Ret (case to_string J (device_state_response result) of Some s \<Rightarrow> s | None \<Rightarrow> [])
        | None \<Rightarrow> default_device_info J)
    | _ \<Rightarrow> default_device_info J)"

fun first_datagram :: "ip_addr \<Rightarrow> udp_event list \<Rightarrow> string option" where
  "first_datagram upstream [] = None"
| "first_datagram upstream (UdpError # es) = None"
| "first_datagram upstream (UdpData d src # es) =
     (if fst src = upstream then Some (from_utf8_lossy (take 4096 d)) else first_datagram upstream es)"

definition fetch_device_info :: "disc_env \<Rightarrow> ip_addr \<Rightarrow> udp_event list \<Rightarrow> tcp_session \<Rightarrow> string run" where
  "fetch_device_info e upstream rx t =
     (let probe = to_vec (de_codec e) (scan_probe ''seestar-proxy'' ''0.0.0.0'');
          sent = (de_bind e (V4 (0, 0, 0, 0), 0) \<and> probe \<noteq> None \<and> de_send e (upstream, DISCOVERY_PORT))
      in case (if sent then first_datagram upstream rx else None) of
           Some response \<Rightarrow> bind_run (log_prefix response 200) (\<lambda>_. Ret response)
         | None \<Rightarrow> wg_device_info_tcp (de_codec e) t)"

section \<open>Starting the tunnel\<close>

record wg_info =
  wi_enabled :: bool
  wi_port :: u16
  wi_server_public_key :: string
  wi_client_config :: string
  wi_client_config_svg :: string
  wi_endpoint :: string

record wg_start_env =
  ws_keys :: key_codec
  ws_rnd_server :: bytes
  ws_rnd_client :: bytes
  ws_net :: disc_env
  ws_svg :: "string \<Rightarrow> string + string"
  ws_lower :: "string \<Rightarrow> string"

datatype wg_error = WgKey key_error | WgBind | WgNotV4

text \<open>The address a socket connected to \<open>8.8.8.8\<close> would use.\<close>

definition detect_local_ip :: "disc_env \<Rightarrow> string option" where
  "detect_local_ip e = (case de_route e (V4 (8, 8, 8, 8)) of
      None \<Rightarrow> None
    | Some ip \<Rightarrow> if is_loopback ip \<or> is_unspecified ip then None else Some (show_ip ip))"

definition choose_endpoint :: "disc_env \<Rightarrow> ip_addr \<Rightarrow> u16 \<Rightarrow> string option \<Rightarrow> string" where
  "choose_endpoint e bind_addr port endpoint = (case endpoint of
      Some s \<Rightarrow> s
    | None \<Rightarrow> (case detect_local_ip e of Some d \<Rightarrow> d | None \<Rightarrow> show_ip bind_addr) @ '':'' @ show_nat (unat port))"

definition make_wg_info :: "wg_start_env \<Rightarrow> ip_addr \<Rightarrow> u16 \<Rightarrow> string option \<Rightarrow> wg_keypair \<Rightarrow> wg_keypair \<Rightarrow> wg_info" where
  "make_wg_info e bind_addr port endpoint server client =
     (let K = ws_keys e; ep = choose_endpoint (ws_net e) bind_addr port endpoint;
          cfg = client_config (private_key_b64 K client) ''10.99.0.2/32'' (public_key_b64 K server) ep ''0.0.0.0/0''
      in \<lparr> wi_enabled = True, wi_port = port, wi_server_public_key = public_key_b64 K server, wi_client_config = cfg,
           wi_client_config_svg = (case ws_svg e cfg of Inr svg \<Rightarrow> svg | Inl err \<Rightarrow> ''QR generation failed: '' @ err),
           wi_endpoint = ep \<rparr>)"

text \<open>What \<open>start\<close> leaves running: the tunnel with the keys of both sides, the packet loop's
  environment, and the local port of each tunnel connection by its destination port.\<close>

record wg_started =
  st_info :: wg_info
  st_server_private :: bytes
  st_client_public :: bytes
  st_env :: wg_env
  st_bridge :: "u16 \<Rightarrow> u16"

definition bridge_port :: "u16 \<Rightarrow> u16 \<Rightarrow> u16 \<Rightarrow> u16" where
  "bridge_port upstream_control_port upstream_imaging_port dest_port =
     (let local_control_port = upstream_control_port; local_imaging_port = upstream_imaging_port
      in if dest_port = upstream_control_port then local_control_port else local_imaging_port)"

definition wg_start ::
    "wg_start_env \<Rightarrow> ip_addr \<Rightarrow> u16 \<Rightarrow> path_key \<Rightarrow> string option \<Rightarrow> ip_addr \<Rightarrow> u16 \<Rightarrow> u16 \<Rightarrow> udp_event list \<Rightarrow>
     tcp_session \<Rightarrow> key_fs \<Rightarrow> (wg_error + wg_started) run \<times> key_fs" where
  "wg_start e bind_addr port key_file endpoint upstream_ip upstream_control_port upstream_imaging_port rx t fs =
     (case load_or_generate (ws_keys e) (ws_rnd_server e) key_file fs of
        (Inl err, fs1) \<Rightarrow> (Ret (Inl (WgKey err)), fs1)
      | (Inr server, fs1) \<Rightarrow>
          (case load_or_generate (ws_keys e) (ws_rnd_client e) (with_file_name key_file ''wg_client.key'') fs1 of
             (Inl err, fs2) \<Rightarrow> (Ret (Inl (WgKey err)), fs2)
           | (Inr client, fs2) \<Rightarrow>
               (if \<not> de_bind (ws_net e) (bind_addr, port) then Ret (Inl WgBind)
                else case upstream_ip of
                    V6 _ \<Rightarrow> Ret (Inl WgNotV4)
                  | V4 v4 \<Rightarrow> bind_run (fetch_device_info (ws_net e) upstream_ip rx t) (\<lambda>device_info_json. Ret (Inr
                      \<lparr> st_info = make_wg_info e bind_addr port endpoint server client,
                        st_server_private = kp_private server, st_client_public = kp_public client,
                        st_env = \<lparr> we_upstream = v4, we_device_info = device_info_json,
                                   we_codec = de_codec (ws_net e), we_lower = ws_lower e \<rparr>,
                        st_bridge = bridge_port upstream_control_port upstream_imaging_port \<rparr>)), fs2)))"

section \<open>A restart keeps the identity\<close>

lemma write_file_frame:
  assumes "write_file p c fs = (b, fs')"
  shows "kf_readable fs' = kf_readable fs \<and> kf_mkdir fs' = kf_mkdir fs \<and> kf_write fs' = kf_write fs \<and> kf_chmod fs' = kf_chmod fs \<and>
    (q \<noteq> p \<longrightarrow> kf_files fs' q = kf_files fs q)"
proof (cases "kf_write fs p")
  case (WriteErr rest)
  with assms show ?thesis by (cases rest) (auto simp: write_file_def)
qed (use assms in \<open>auto simp: write_file_def\<close>)

lemma persist_frame:
  assumes "try_persist K kp p fs = (b, fs')"
  shows "kf_readable fs' = kf_readable fs \<and> kf_mkdir fs' = kf_mkdir fs \<and> kf_write fs' = kf_write fs \<and> kf_chmod fs' = kf_chmod fs \<and>
    (q \<noteq> p \<longrightarrow> kf_files fs' q = kf_files fs q)"
proof -
  obtain w f where w: "write_file p (b64_encode K (kp_private kp) @ [CHR 0x0A]) fs = (w, f)" by fastforce
  have "fs' = fs \<or> fs' = f \<or> fs' = f\<lparr> kf_modes := (kf_modes f)(p \<mapsto> 384) \<rparr>"
    using assms w by (cases w) (auto simp: try_persist_def split: if_splits)
  with write_file_frame [OF w, of q] show ?thesis by auto
qed

lemma load_fs:
  assumes "load_or_generate K rnd p fs = (r, fs')"
  shows "fs' = (if kf_files fs p = None then snd (try_persist K (generate K rnd) p fs) else fs)"
  using assms by (cases "kf_files fs p") (simp_all add: load_or_generate_def Let_def)

lemma load_frame:
  assumes "load_or_generate K rnd p fs = (r, fs')"
  shows "key_dir_ok q fs' = key_dir_ok q fs" "kf_readable fs' = kf_readable fs"
    "q \<noteq> p \<or> kf_files fs p \<noteq> None \<Longrightarrow> kf_files fs' q = kf_files fs q"
proof -
  have f: "kf_readable fs' = kf_readable fs \<and> kf_mkdir fs' = kf_mkdir fs \<and> kf_write fs' = kf_write fs \<and> kf_chmod fs' = kf_chmod fs \<and>
    (q \<noteq> p \<or> kf_files fs p \<noteq> None \<longrightarrow> kf_files fs' q = kf_files fs q)"
    using load_fs [OF assms] persist_frame [of K "generate K rnd" p fs _ fs' q]
    by (cases "try_persist K (generate K rnd) p fs") (auto split: if_splits)
  then show "key_dir_ok q fs' = key_dir_ok q fs" "kf_readable fs' = kf_readable fs"
    "q \<noteq> p \<or> kf_files fs p \<noteq> None \<Longrightarrow> kf_files fs' q = kf_files fs q"
    by (simp_all add: key_dir_ok_def split: option.splits)
qed

text \<open>Loading an existing key depends on its file only.\<close>

lemma load_same_file:
  assumes "kf_files fs p = Some c" and "kf_files gs p = Some c" and "kf_readable fs p = kf_readable gs p"
  shows "load_or_generate K rnd p gs = (fst (load_or_generate K rnd' p fs), gs)"
  using assms by (simp add: load_or_generate_def)

lemma load_stores:
  assumes "key_codec_ok K" and "key_dir_ok p fs" and "length rnd = 32" and "load_or_generate K rnd p fs = (Inr kp, fs')"
  shows "\<exists>c. kf_files fs' p = Some c"
  using assms(4) persist_written [OF assms(2)] by (auto simp: load_or_generate_def Let_def split: option.splits)

lemma load_both_again:
  assumes ok: "key_codec_ok K" and dirs: "key_dir_ok p fs" "key_dir_ok q fs" and len: "length r1 = 32" "length r2 = 32"
    and l1: "load_or_generate K r1 p fs = (Inr kp, fs1)" and l2: "load_or_generate K r2 q fs1 = (Inr kq, fs2)"
  shows "load_or_generate K r1' p fs2 = (Inr kp, fs2)" "load_or_generate K r2' q fs2 = (Inr kq, fs2)"
proof -
  have q1: "key_dir_ok q fs1" using load_frame(1) [OF l1] dirs(2) by simp
  show "load_or_generate K r2' q fs2 = (Inr kq, fs2)" by (rule load_again(2) [OF ok q1 len(2) l2])
  obtain c where c: "kf_files fs1 p = Some c" using load_stores [OF ok dirs(1) len(1) l1] by blast
  have c2: "kf_files fs2 p = Some c" using load_frame(3) [OF l2, of p] c by (cases "p = q") auto
  have r: "kf_readable fs1 p = kf_readable fs2 p" using load_frame(2) [OF l2] by simp
  show "load_or_generate K r1' p fs2 = (Inr kp, fs2)"
    using load_same_file [OF c c2 r, of K r1'] load_again(2) [OF ok dirs(1) len(1) l1] by simp
qed


section \<open>A probe answer that ends the program\<close>

definition probe_sent :: "disc_env \<Rightarrow> ip_addr \<Rightarrow> bool" where
  "probe_sent e upstream \<longleftrightarrow> de_bind e (V4 (0, 0, 0, 0), 0) \<and>
     to_vec (de_codec e) (scan_probe ''seestar-proxy'' ''0.0.0.0'') \<noteq> None \<and> de_send e (upstream, DISCOVERY_PORT)"

lemma tcp_info_Ret: "to_string J minimal_response \<noteq> None \<Longrightarrow> wg_device_info_tcp J t \<noteq> Panic"
  by (auto simp: wg_device_info_tcp_def default_device_info_def Let_def
      split: tcp_session.splits list.splits tcp_read.splits option.splits)

text \<open>Fetching the device info for the tunnel panics, and \<open>start\<close> and the main task with it, exactly
  if the telescope's answer to the probe is longer than 200 bytes and its byte 200 lies inside a
  character: the slice is that of a log line.\<close>

theorem probe_answer_panics_start:
  assumes "to_string (de_codec (ws_net e)) minimal_response \<noteq> None"
    and "load_or_generate (ws_keys e) (ws_rnd_server e) p fs = (Inr server, fs1)"
    and "load_or_generate (ws_keys e) (ws_rnd_client e) (with_file_name p ''wg_client.key'') fs1 = (Inr client, fs2)"
    and "de_bind (ws_net e) (b, port)"
  shows "fst (wg_start e b port p ep (V4 up) cp ip rx t fs) = Panic \<longleftrightarrow>
     (\<exists>text. probe_sent (ws_net e) (V4 up) \<and> first_datagram (V4 up) rx = Some text \<and>
        200 < length text \<and> \<not> is_char_boundary text 200)"
proof -
  have "fst (wg_start e b port p ep (V4 up) cp ip rx t fs) = Panic \<longleftrightarrow> fetch_device_info (ws_net e) (V4 up) rx t = Panic"
    using assms by (cases "fetch_device_info (ws_net e) (V4 up) rx t") (simp_all add: wg_start_def)
  also have "\<dots> \<longleftrightarrow> (\<exists>text. probe_sent (ws_net e) (V4 up) \<and> first_datagram (V4 up) rx = Some text \<and> log_prefix text 200 = Panic)"
    using tcp_info_Ret [OF assms(1)]
    by (auto simp: fetch_device_info_def probe_sent_def Let_def bind_run_Panic split: option.splits)
  finally show ?thesis by (simp add: log_prefix_Panic)
qed

section \<open>A concrete tunnel\<close>

text \<open>Two letters per byte, and a directory that can be written.\<close>

definition hex_encode :: "bytes \<Rightarrow> string" where
  "hex_encode bs = concat (map (\<lambda>b. [hex_digit (unat b div 16), hex_digit (unat b mod 16)]) bs)"

definition hex_value :: "char \<Rightarrow> nat" where
  "hex_value c = (let n = of_char c in if n < 58 then n - 48 else n - 87)"

fun hex_decode :: "string \<Rightarrow> bytes option" where
  "hex_decode [] = Some []"
| "hex_decode [c] = None"
| "hex_decode (c # d # s) = map_option ((#) (of_nat (16 * hex_value c + hex_value d))) (hex_decode s)"

definition demo_keys :: key_codec where
  "demo_keys = \<lparr> b64_encode = hex_encode, b64_decode = hex_decode, public_from = rev \<rparr>"

lemma hex_digit_value: "d < 16 \<Longrightarrow> hex_value (hex_digit d) = d" "d < 16 \<Longrightarrow> printable (hex_digit d)"
  by (auto simp: hex_value_def hex_digit_def printable_def Let_def)

lemma hex_roundtrip: "hex_decode (hex_encode bs) = Some bs" "c \<in> set (hex_encode bs) \<Longrightarrow> printable c"
proof -
  have lt: "unat b div 16 < 16" for b :: u8 using u8_lt [of b] by (simp add: less_mult_imp_div_less)
  show "hex_decode (hex_encode bs) = Some bs"
    by (induction bs) (simp_all add: hex_encode_def hex_digit_value lt)
  show "c \<in> set (hex_encode bs) \<Longrightarrow> printable c"
    by (auto simp: hex_encode_def hex_digit_value lt)
qed

lemma demo_keys_ok: "key_codec_ok demo_keys"
  by (simp add: key_codec_ok_def demo_keys_def hex_roundtrip)

definition demo_fs :: key_fs where
  "demo_fs = \<lparr> kf_files = (\<lambda>_. None), kf_modes = (\<lambda>_. None), kf_readable = (\<lambda>_. True), kf_mkdir = (\<lambda>_. True),
     kf_write = (\<lambda>_. WriteOk), kf_chmod = (\<lambda>_. True) \<rparr>"

lemma demo_fs_ok: "key_dir_ok p demo_fs"
  by (simp add: key_dir_ok_def demo_fs_def split: option.splits)

definition demo_wg_start :: wg_start_env where
  "demo_wg_start = \<lparr> ws_keys = demo_keys, ws_rnd_server = replicate 32 1, ws_rnd_client = replicate 32 2, ws_net = demo_disc_env,
     ws_svg = Inr, ws_lower = (\<lambda>s. s) \<rparr>"

definition demo_key_file :: path_key where
  "demo_key_file = (False, [''wg.key''])"

lemma demo_loads:
  "\<exists>kp fs'. load_or_generate K rnd p fs = (Inr kp, fs')" if "kf_files fs p = None"
  using that by (simp add: load_or_generate_def Let_def)

lemma demo_wg_start_runs:
  obtains s fs where "wg_start demo_wg_start demo_proxy 51820 demo_key_file None telescope_ip 4700 4800 [] NoConnection demo_fs = (Ret (Inr s), fs)"
proof -
  obtain kp f1 where l1: "load_or_generate demo_keys (replicate 32 1) demo_key_file demo_fs = (Inr kp, f1)"
    using demo_loads [of demo_fs demo_key_file] by (metis demo_fs_def key_fs.select_convs(1))
  have "kf_files f1 (with_file_name demo_key_file ''wg_client.key'') = None"
    using load_frame(3) [OF l1, of "with_file_name demo_key_file ''wg_client.key''"]
    by (simp add: demo_key_file_def with_file_name_def demo_fs_def)
  then obtain kq f2 where l2: "load_or_generate demo_keys (replicate 32 2) (with_file_name demo_key_file ''wg_client.key'') f1 = (Inr kq, f2)"
    using demo_loads by blast
  show ?thesis
    using that l1 l2
    by (simp add: wg_start_def demo_wg_start_def telescope_ip_def demo_disc_env_def fetch_device_info_def Let_def
        wg_device_info_tcp_def default_device_info_def disc_codec_def to_vec_def)
qed


theorem probe_answer_panics_start_witness:
  "fst (wg_start demo_wg_start demo_proxy 51820 demo_key_file None telescope_ip 4700 4800
     [UdpData (as_bytes (long_word 199)) (telescope_ip, 4720)] NoConnection demo_fs) = Panic"
proof -
  obtain s fs where "wg_start demo_wg_start demo_proxy 51820 demo_key_file None telescope_ip 4700 4800 [] NoConnection demo_fs = (Ret (Inr s), fs)"
    by (rule demo_wg_start_runs)
  then obtain kp f1 kq f2 where l: "load_or_generate (ws_keys demo_wg_start) (ws_rnd_server demo_wg_start) demo_key_file demo_fs = (Inr kp, f1)"
    "load_or_generate (ws_keys demo_wg_start) (ws_rnd_client demo_wg_start) (with_file_name demo_key_file ''wg_client.key'') f1 = (Inr kq, f2)"
    by (auto simp: wg_start_def split: prod.splits sum.splits)
  have e: "to_string (de_codec (ws_net demo_wg_start)) minimal_response \<noteq> None" "de_bind (ws_net demo_wg_start) (demo_proxy, 51820)"
    "probe_sent (ws_net demo_wg_start) (V4 (192, 168, 1, 50))"
    by (simp_all add: demo_wg_start_def demo_disc_env_def disc_codec_def probe_sent_def to_vec_def)
  have len: "length (long_word 199) = 201" by (simp add: long_word_def)
  then have t: "take 4096 (as_bytes (long_word 199)) = as_bytes (long_word 199)" by (simp add: as_bytes_def)
  have "\<not> is_char_boundary (long_word 199) 200" using long_word_boundary [of 199] by simp
  with probe_answer_panics_start [OF e(1) l e(2), of None "(192, 168, 1, 50)" 4700 4800
      "[UdpData (as_bytes (long_word 199)) (telescope_ip, 4720)]" NoConnection] e(3) len
  show ?thesis by (simp add: telescope_ip_def t long_word_lossy)
qed

end
