(* ===== verification/Doubles.thy ===== *)
theory Doubles
  imports Json_Value
begin

text \<open>
  IEEE 754 double arithmetic as the proxy (\<open>f64\<close>) and the script of its dashboard (\<open>Number\<close>) use it: every
  operation computes the exact fraction and rounds it.  The operands are non-negative and finite, and no
  result is subnormal.
\<close>

section \<open>Arithmetic on non-negative doubles\<close>

text \<open>A double as a fraction, and the double nearest to a fraction (ties to even).\<close>

definition f64_frac :: "f64 \<Rightarrow> nat \<times> nat" where
  "f64_frac b =
     (let e = f64_exp b; m = f64_man b in
      if e = 0 then (m, 2 ^ 1074)
      else if 1075 \<le> e then ((2 ^ 52 + m) * 2 ^ (e - 1075), 1) else (2 ^ 52 + m, 2 ^ (1075 - e)))"

definition f64_ratio :: "nat \<Rightarrow> nat \<Rightarrow> f64" where
  "f64_ratio p q =
     (if p = 0 then 0
      else let k0 = int (bit_length p) - int (bit_length q);
               scale = (\<lambda>k::int. if 0 \<le> k then (p, q * 2 ^ nat k) else (p * 2 ^ nat (- k), q));
               k = (case scale k0 of (a, b) \<Rightarrow> if b \<le> a then k0 else k0 - 1);
               n = (case scale (k - 52) of (a, b) \<Rightarrow>
                      let d = a div b; r = a mod b in if b < 2 * r \<or> 2 * r = b \<and> odd d then Suc d else d)
           in if n = 2 ^ 53 then f64_bits False (nat (1024 + k)) 0 else f64_bits False (nat (1023 + k)) (n - 2 ^ 52))"

definition f64_div :: "f64 \<Rightarrow> f64 \<Rightarrow> f64" where
  "f64_div a b = (case (f64_frac a, f64_frac b) of ((p, q), (p', q')) \<Rightarrow> f64_ratio (p * q') (q * p'))"

definition f64_mul :: "f64 \<Rightarrow> f64 \<Rightarrow> f64" where
  "f64_mul a b = (case (f64_frac a, f64_frac b) of ((p, q), (p', q')) \<Rightarrow> f64_ratio (p * p') (q * q'))"

definition f64_ten :: f64 where "f64_ten = f64_of_nat False 10"

text \<open>The constant \<open>0.001\<close>.\<close>

definition f64_milli :: f64 where "f64_milli = f64_ratio 1 1000"

text \<open>\<open>max\<close> on non-negative doubles is that of their bit patterns; \<open>x as u64\<close> truncates and saturates.\<close>

definition f64_max :: "f64 \<Rightarrow> f64 \<Rightarrow> f64" where
  "f64_max a b = (if a < b then b else a)"

definition f64_as_u64 :: "f64 \<Rightarrow> u64" where
  "f64_as_u64 b = (case f64_frac b of (p, q) \<Rightarrow> if 2 ^ 64 \<le> p div q then - 1 else of_nat (p div q))"

definition f64_add :: "f64 \<Rightarrow> f64 \<Rightarrow> f64" where
  "f64_add a b = (case (f64_frac a, f64_frac b) of ((p, q), (p', q')) \<Rightarrow> f64_ratio (p * q' + p' * q) (q * q'))"

text \<open>The difference may be negative: then its sign bit is set.\<close>

definition f64_neg :: "f64 \<Rightarrow> f64" where
  "f64_neg a = a XOR 2 ^ 63"

definition f64_sub :: "f64 \<Rightarrow> f64 \<Rightarrow> f64" where
  "f64_sub a b = (case (f64_frac a, f64_frac b) of ((p, q), (p', q')) \<Rightarrow>
     if p' * q \<le> p * q' then f64_ratio (p * q' - p' * q) (q * q') else f64_neg (f64_ratio (p' * q - p * q') (q * q')))"

section \<open>Integers as doubles\<close>

text \<open>The integer nearest to \<open>n\<close> that a double holds.\<close>

definition f64_nat :: "f64 \<Rightarrow> nat" where
  "f64_nat b = (case f64_frac b of (p, q) \<Rightarrow> p div q)"

lemma bit_length_bounds: "0 < n \<Longrightarrow> 2 ^ (bit_length n - 1) \<le> n \<and> n < 2 ^ bit_length n"
proof (induction n rule: bit_length.induct)
  case (1 n)
  show ?case
  proof (cases "n div 2 = 0")
    case True
    then have "n = 1" using 1(2) by simp
    then show ?thesis by (simp add: bit_length.simps)
  next
    case False
    then have IH: "2 ^ (bit_length (n div 2) - 1) \<le> n div 2 \<and> n div 2 < 2 ^ bit_length (n div 2)" using 1 by simp
    have "bit_length (n div 2) \<noteq> 0" using False by (simp add: bit_length.simps)
    then obtain k where k: "bit_length (n div 2) = Suc k" by (cases "bit_length (n div 2)") auto
    have "bit_length n = Suc (Suc k)" using 1(2) k by (simp add: bit_length.simps [of n])
    then show ?thesis using IH k by auto
  qed
qed

lemma f64_bits_fields:
  assumes "e < 2 ^ 11" and "m < 2 ^ 52"
  shows "f64_exp (f64_bits False e m) = e" "f64_man (f64_bits False e m) = m"
proof -
  have "e * 2 ^ 52 + m < 2 ^ 11 * 2 ^ 52" using assms by simp
  then have "e * 2 ^ 52 + m < 2 ^ LENGTH(64)" by simp
  then have "unat (of_nat (e * 2 ^ 52 + m) :: f64) = e * 2 ^ 52 + m" by (simp only: unat_of_nat mod_less)
  then have "unat (f64_bits False e m) = e * 2 ^ 52 + m" by (simp only: f64_bits_def if_False add_0)
  then show "f64_exp (f64_bits False e m) = e" "f64_man (f64_bits False e m) = m"
    using assms by (simp_all add: f64_exp_def f64_man_def)
qed

text \<open>Integers below \<open>2 ^ 53\<close> are represented exactly.\<close>

lemma f64_nat_exact:
  assumes "n < 2 ^ 53" shows "f64_nat (f64_of_nat False n) = n"
proof (cases "n = 0")
  case True
  then show ?thesis by (simp add: f64_of_nat_def f64_nat_def f64_frac_def f64_bits_fields)
next
  case False
  define k where "k = bit_length n - 1"
  have b: "2 ^ k \<le> n" "n < 2 ^ Suc k"
    using bit_length_bounds [of n] False by (auto simp: k_def bit_length.simps [of n])
  have "(2::nat) ^ k < 2 ^ 53" using b(1) assms by (rule le_less_trans)
  then have k: "k \<le> 52" using power_strict_increasing_iff [of "2::nat" k 53] by simp
  define m where "m = n * 2 ^ (52 - k) - 2 ^ 52"
  have p: "(2::nat) ^ k * 2 ^ (52 - k) = 2 ^ 52" "(2::nat) ^ Suc k * 2 ^ (52 - k) = 2 ^ 53"
    using k by (simp_all flip: power_add)
  have lo: "2 ^ 52 \<le> n * 2 ^ (52 - k)" using mult_right_mono [OF b(1), of "2 ^ (52 - k)"] unfolding p(1) by simp
  have "n * 2 ^ (52 - k) < 2 ^ 53" using mult_strict_right_mono [OF b(2), of "2 ^ (52 - k)"] unfolding p(2) by simp
  with lo have m: "m < 2 ^ 52" "2 ^ 52 + m = n * 2 ^ (52 - k)" unfolding m_def by simp_all
  have v: "f64_of_nat False n = f64_bits False (1023 + k) m"
    unfolding f64_of_nat_def k_def [symmetric] m_def Let_def by (simp only: False k if_False if_True)
  have f: "f64_exp (f64_of_nat False n) = 1023 + k" "f64_man (f64_of_nat False n) = m"
    unfolding v using k m(1) by (simp_all add: f64_bits_fields)
  show ?thesis
  proof (cases "k = 52")
    case True
    then show ?thesis using f m(2) by (simp add: f64_nat_def f64_frac_def)
  next
    case False
    then have "\<not> 1075 \<le> 1023 + k" "1075 - (1023 + k) = 52 - k" using k by auto
    then show ?thesis using f m(2) by (simp add: f64_nat_def f64_frac_def Let_def)
  qed
qed

section \<open>Magnitudes\<close>

text \<open>A double below a power of two, and the exponent of a result.\<close>

lemma f64_man_less: "f64_man x < 2 ^ 52"
  by (simp add: f64_man_def)

lemma f64_frac_pos: "f64_frac x = (p, q) \<Longrightarrow> 0 < q"
  by (auto simp: f64_frac_def Let_def split: if_splits)

lemma f64_frac_less:
  assumes "f64_frac x = (p, q)" and "f64_exp x \<le> 1022 + j" shows "p < q * 2 ^ j"
proof -
  let ?e = "f64_exp x" and ?m = "f64_man x"
  have m: "2 ^ 52 + ?m < 2 ^ 53" using f64_man_less [of x] by simp
  consider "?e = 0" | "1075 \<le> ?e" | "?e \<noteq> 0" "?e < 1075" by linarith
  then show ?thesis
  proof cases
    case 1
    then have pq: "p = ?m" "q = 2 ^ 1074" using assms(1) by (simp_all add: f64_frac_def)
    have "?m < 2 ^ 52" by (rule f64_man_less)
    also have "\<dots> \<le> 2 ^ (1074 + j)" by (rule power_increasing) simp_all
    finally show ?thesis by (simp only: pq power_add)
  next
    case 2
    then have pq: "p = (2 ^ 52 + ?m) * 2 ^ (?e - 1075)" "q = 1" using assms(1) by (simp_all add: f64_frac_def Let_def)
    have "p < 2 ^ 53 * 2 ^ (?e - 1075)" using m by (simp add: pq)
    also have "\<dots> = 2 ^ (53 + (?e - 1075))" by (simp only: power_add)
    also have "\<dots> \<le> 2 ^ j" using 2 assms(2) by (intro power_increasing) simp_all
    finally show ?thesis using pq by simp
  next
    case 3
    then have pq: "p = 2 ^ 52 + ?m" "q = 2 ^ (1075 - ?e)" using assms(1) by (simp_all add: f64_frac_def Let_def)
    have "p < 2 ^ 53" using m pq by simp
    also have "\<dots> \<le> 2 ^ (1075 - ?e + j)" using 3 assms(2) by (intro power_increasing) simp_all
    finally show ?thesis by (simp only: pq power_add)
  qed
qed

lemma f64_frac_ge:
  assumes "f64_frac x = (p, q)" and "0 < f64_exp x" and "1023 \<le> f64_exp x + i" shows "q \<le> p * 2 ^ i"
proof (cases "1075 \<le> f64_exp x")
  case True
  then have "q = 1" "0 < p" using assms(1) by (auto simp: f64_frac_def Let_def)
  then show ?thesis by (cases "p * 2 ^ i") auto
next
  case False
  then have pq: "p = 2 ^ 52 + f64_man x" "q = 2 ^ (1075 - f64_exp x)" using assms(1,2) by (simp_all add: f64_frac_def Let_def)
  have "q \<le> 2 ^ (52 + i)" unfolding pq(2) using assms(3) by (intro power_increasing) simp_all
  also have "\<dots> = 2 ^ 52 * 2 ^ i" by (rule power_add)
  also have "\<dots> \<le> p * 2 ^ i" unfolding pq(1) by (rule mult_right_mono) simp_all
  finally show ?thesis .
qed

lemma bit_length_le: "n < 2 ^ j \<Longrightarrow> bit_length n \<le> j"
proof (cases "n = 0")
  case False
  assume "n < 2 ^ j"
  with bit_length_bounds [of n] False have "(2::nat) ^ (bit_length n - 1) < 2 ^ j" by (meson le_less_trans not_gr_zero)
  then have "bit_length n - 1 < j" by (simp only: power_strict_increasing_iff [of "2::nat"] one_less_numeral_iff semiring_norm)
  then show ?thesis by simp
qed (simp add: bit_length.simps)

lemma f64_exp_bits_le:
  assumes "n \<le> 2 ^ 53" and "e \<le> 2000" and "e' \<le> 2000"
  shows "f64_exp (if n = 2 ^ 53 then f64_bits False e' 0 else f64_bits False e (n - 2 ^ 52)) \<le> max e e'"
proof (cases "n = 2 ^ 53")
  case False
  then have "n - 2 ^ 52 < 2 ^ 52" using assms(1) by simp
  then show ?thesis using False assms(2) by (simp add: f64_bits_fields)
qed (use assms(3) in \<open>simp add: f64_bits_fields\<close>)

lemma round_div_le:
  "0 < (b::nat) \<Longrightarrow> a < b * 2 ^ 53 \<Longrightarrow>
     (let d = a div b; r = a mod b in if b < 2 * r \<or> 2 * r = b \<and> odd d then Suc d else d) \<le> 2 ^ 53"
  using div_less_iff_less_mult [of b a "2 ^ 53"] by (simp add: Let_def mult.commute)

text \<open>Scaling a fraction by a power of two.\<close>

definition scale2 :: "nat \<Rightarrow> nat \<Rightarrow> int \<Rightarrow> nat \<times> nat" where
  "scale2 p q k = (if 0 \<le> k then (p, q * 2 ^ nat k) else (p * 2 ^ nat (- k), q))"

lemma scale2_below:
  assumes "0 < q" and "p < 2 ^ bit_length p" and "2 ^ (bit_length q - 1) \<le> q" and "k0 = int (bit_length p) - int (bit_length q)"
    and "k = (case scale2 p q k0 of (a, b) \<Rightarrow> if b \<le> a then k0 else k0 - 1)"
  shows "case scale2 p q (k - 52) of (a, b) \<Rightarrow> 0 < b \<and> a < b * 2 ^ 53"
proof -
  let ?P = "bit_length p" and ?Q = "bit_length q"
  have Q: "0 < ?Q" using assms(1) by (simp add: bit_length.simps)
  have le: "2 ^ (?Q - 1) * 2 ^ n \<le> q * 2 ^ n" for n using assms(3) by (rule mult_right_mono) simp
  have "k = k0 \<or> k = k0 - 1 \<and> (case scale2 p q k0 of (a, b) \<Rightarrow> a < b)" using assms(5) by (auto split: prod.splits if_splits)
  then show ?thesis
  proof (elim disjE conjE)
    assume k: "k = k0"
    show ?thesis
    proof (cases "52 \<le> k")
      case True
      then have "?P = ?Q - 1 + (nat (k - 52) + 53)" using assms(4) k Q by linarith
      then have "p < q * 2 ^ (nat (k - 52) + 53)" using assms(2) le [of "nat (k - 52) + 53"] by (simp only: power_add)
      then show ?thesis using True assms(1) by (simp add: scale2_def power_add mult.assoc)
    next
      case False
      have "p * 2 ^ nat (52 - k) < 2 ^ ?P * 2 ^ nat (52 - k)" using assms(2) by simp
      also have "\<dots> = 2 ^ (?Q - 1) * 2 ^ 53"
        using False assms(4) k Q by (simp only: flip: power_add) (rule arg_cong [of _ _ "power 2"], linarith)
      also have "\<dots> \<le> q * 2 ^ 53" by (rule le)
      finally show ?thesis using False assms(1) by (simp add: scale2_def)
    qed
  next
    assume k: "k = k0 - 1" and lt: "case scale2 p q k0 of (a, b) \<Rightarrow> a < b"
    consider "53 \<le> k0" | "0 \<le> k0" "k0 < 53" | "k0 < 0" by linarith
    then show ?thesis
    proof cases
      case 1
      then have "nat k0 = nat (k - 52) + 53" using k by linarith
      then show ?thesis using 1 lt k assms(1) by (simp add: scale2_def power_add mult.assoc)
    next
      case 2
      then have p: "p < q * 2 ^ nat k0" and n: "53 = nat k0 + nat (52 - k)" using lt k by (simp_all add: scale2_def)
      have "p * 2 ^ nat (52 - k) < q * 2 ^ nat k0 * 2 ^ nat (52 - k)" using p by simp
      also have "\<dots> = q * 2 ^ 53" unfolding mult.assoc power_add [symmetric] n [symmetric] ..
      finally show ?thesis using 2 k assms(1) by (simp add: scale2_def)
    next
      case 3
      then have p: "p * 2 ^ nat (- k0) < q" and n: "nat (52 - k) = nat (- k0) + 53" using lt k by (simp_all add: scale2_def)
      have "p * 2 ^ nat (- k0) * 2 ^ 53 < q * 2 ^ 53" using p by simp
      then show ?thesis using 3 k n assms(1) by (simp add: scale2_def power_add mult.assoc)
    qed
  qed
qed

lemma f64_ratio_exp:
  assumes "0 < q" and "p < q * 2 ^ j" and "j \<le> 900" shows "f64_exp (f64_ratio p q) \<le> 1024 + j"
proof (cases "p = 0")
  case False
  define k0 where "k0 = int (bit_length p) - int (bit_length q)"
  define k where "k = (case scale2 p q k0 of (a, b) \<Rightarrow> if b \<le> a then k0 else k0 - 1)"
  define n where "n = (case scale2 p q (k - 52) of (a, b) \<Rightarrow>
    let d = a div b; r = a mod b in if b < 2 * r \<or> 2 * r = b \<and> odd d then Suc d else d)"
  have pq: "p < 2 ^ bit_length p" "2 ^ (bit_length q - 1) \<le> q" "q < 2 ^ bit_length q"
    using bit_length_bounds [of p] bit_length_bounds [of q] False assms(1) by simp_all
  have "q * 2 ^ j < 2 ^ bit_length q * 2 ^ j" using pq(3) by simp
  with assms(2) have "p < 2 ^ (bit_length q + j)" unfolding power_add by (rule less_trans)
  then have "k0 \<le> int j" using bit_length_le unfolding k0_def by fastforce
  then have k: "k \<le> int j" by (auto simp: k_def split: prod.splits)
  have "case scale2 p q (k - 52) of (a, b) \<Rightarrow> 0 < b \<and> a < b * 2 ^ 53"
    by (rule scale2_below [OF assms(1) pq(1,2) k0_def k_def])
  then have n: "n \<le> 2 ^ 53" unfolding n_def by (cases "scale2 p q (k - 52)") (simp only: prod.case, rule round_div_le; simp)
  have v: "f64_ratio p q = (if n = 2 ^ 53 then f64_bits False (nat (1024 + k)) 0 else f64_bits False (nat (1023 + k)) (n - 2 ^ 52))"
    unfolding f64_ratio_def if_not_P [OF False] n_def k_def k0_def scale2_def Let_def by (rule refl)
  have "nat (1023 + k) \<le> 2000" "nat (1024 + k) \<le> 2000" "max (nat (1023 + k)) (nat (1024 + k)) \<le> 1024 + j"
    using k assms(3) by linarith+
  with f64_exp_bits_le [OF n] show ?thesis unfolding v by (meson order_trans)
qed (simp add: f64_ratio_def f64_exp_def)

lemma f64_of_nat_exp:
  assumes "n < 2 ^ j" and "j \<le> 900" shows "f64_exp (f64_of_nat False n) \<le> 1023 + j"
proof (cases "n = 0")
  case True
  then show ?thesis by (simp add: f64_of_nat_def f64_bits_fields)
next
  case False
  define k where "k = bit_length n - 1"
  have b: "2 ^ k \<le> n" "n < 2 ^ Suc k" using bit_length_bounds [of n] False by (auto simp: k_def bit_length.simps [of n])
  have "Suc k \<le> j" using bit_length_le [OF assms(1)] False by (simp add: k_def bit_length.simps [of n])
  show ?thesis
  proof (cases "k \<le> 52")
    case True
    have "n * 2 ^ (52 - k) < 2 ^ Suc k * 2 ^ (52 - k)" using b(2) by simp
    also have "\<dots> = 2 ^ 53" using True by (simp only: flip: power_add) simp
    finally have m: "n * 2 ^ (52 - k) - 2 ^ 52 < 2 ^ 52" by simp
    have v: "f64_of_nat False n = f64_bits False (1023 + k) (n * 2 ^ (52 - k) - 2 ^ 52)"
      unfolding f64_of_nat_def k_def [symmetric] Let_def by (simp only: False True if_False if_True)
    show ?thesis unfolding v using m \<open>Suc k \<le> j\<close> assms(2) by (subst f64_bits_fields) simp_all
  next
    case False
    define q where "q = n div 2 ^ (k - 52)"
    define q' where "q' = (if 2 ^ (k - 52 - 1) < n mod 2 ^ (k - 52) \<or> n mod 2 ^ (k - 52) = 2 ^ (k - 52 - 1) \<and> odd q then Suc q else q)"
    have "(2::nat) ^ Suc k = 2 ^ 53 * 2 ^ (k - 52)" using False by (simp only: flip: power_add) simp
    then have "q < 2 ^ 53" using b(2) by (simp add: q_def div_less_iff_less_mult)
    then have n: "q' \<le> 2 ^ 53" by (simp add: q'_def)
    have v: "f64_of_nat False n = (if q' = 2 ^ 53 then f64_bits False (1024 + k) 0 else f64_bits False (1023 + k) (q' - 2 ^ 52))"
      unfolding f64_of_nat_def k_def [symmetric] Let_def q'_def q_def by (simp only: \<open>n \<noteq> 0\<close> False if_False)
    have "1023 + k \<le> 2000" "1024 + k \<le> 2000" "max (1023 + k) (1024 + k) \<le> 1023 + j" using \<open>Suc k \<le> j\<close> assms(2) by simp_all
    with f64_exp_bits_le [OF n] show ?thesis unfolding v by (meson order_trans)
  qed
qed

lemma f64_div_exp:
  assumes "f64_exp a \<le> 1022 + j" and "0 < f64_exp b" and "1023 \<le> f64_exp b + i" and "j + i \<le> 900"
  shows "f64_exp (f64_div a b) \<le> 1024 + (j + i)"
proof -
  obtain p q p' q' where f: "f64_frac a = (p, q)" "f64_frac b = (p', q')" by (cases "f64_frac a"; cases "f64_frac b") blast
  have lt: "p < q * 2 ^ j" and le: "q' \<le> p' * 2 ^ i" and pos: "0 < q" "0 < q'"
    using f64_frac_less [OF f(1) assms(1)] f64_frac_ge [OF f(2) assms(2,3)] f64_frac_pos [OF f(1)] f64_frac_pos [OF f(2)] by simp_all
  have "p * q' < q * 2 ^ j * q'" using lt pos by simp
  also have "\<dots> \<le> q * 2 ^ j * (p' * 2 ^ i)" using le by simp
  also have "\<dots> = q * p' * 2 ^ (j + i)" by (simp add: power_add ac_simps)
  finally have "p * q' < q * p' * 2 ^ (j + i)" .
  moreover have "0 < q * p'" using le pos by (cases p') simp_all
  ultimately show ?thesis using f64_ratio_exp [of "q * p'" "p * q'"] assms(4) by (simp add: f64_div_def f)
qed

lemma f64_mul_exp:
  assumes "f64_exp a \<le> 1022 + j" and "f64_exp b \<le> 1022 + i" and "j + i \<le> 900"
  shows "f64_exp (f64_mul a b) \<le> 1024 + (j + i)"
proof -
  obtain p q p' q' where f: "f64_frac a = (p, q)" "f64_frac b = (p', q')" by (cases "f64_frac a"; cases "f64_frac b") blast
  have "p < q * 2 ^ j" "p' < q' * 2 ^ i" "0 < q" "0 < q'"
    using f64_frac_less [OF f(1) assms(1)] f64_frac_less [OF f(2) assms(2)] f64_frac_pos [OF f(1)] f64_frac_pos [OF f(2)] by simp_all
  then have "p * p' < (q * 2 ^ j) * (q' * 2 ^ i)" by (intro mult_strict_mono) simp_all
  also have "\<dots> = q * q' * 2 ^ (j + i)" by (simp add: power_add ac_simps)
  finally show ?thesis using f64_ratio_exp [of "q * q'" "p * p'"] \<open>0 < q\<close> \<open>0 < q'\<close> assms(3) by (simp add: f64_mul_def f)
qed

lemma f64_round_mag_less:
  assumes "f64_exp x \<le> 1022 + j" and "55 \<le> j" shows "f64_round_mag x < 2 ^ j"
proof -
  let ?e = "f64_exp x" and ?sig = "if f64_exp x = 0 then f64_man x else 2 ^ 52 + f64_man x" and ?e' = "if f64_exp x = 0 then 1 else f64_exp x"
  have sig: "?sig < 2 ^ 53" using f64_man_less [of x] by simp
  show ?thesis
  proof (cases "1075 \<le> ?e'")
    case True
    then have e: "1075 \<le> ?e" by (auto split: if_splits)
    have "?sig * 2 ^ (?e - 1075) < 2 ^ 53 * 2 ^ (?e - 1075)" using sig by simp
    also have "\<dots> = 2 ^ (53 + (?e - 1075))" by (simp only: power_add)
    also have "\<dots> \<le> 2 ^ j" using e assms(1) by (intro power_increasing) simp_all
    finally show ?thesis using e by (simp add: f64_round_mag_def Let_def)
  next
    case False
    define h where "h = (2::nat) ^ (1075 - ?e')"
    have h: "2 ^ (1076 - ?e') = 2 * h" "0 < h" using False by (simp_all add: h_def Suc_diff_le flip: power_Suc)
    have "(2 * ?sig + h) div (2 * h) \<le> (2 * ?sig + h) div h" using h(2) by (intro div_le_mono2) simp_all
    also have "\<dots> = 2 * ?sig div h + 1" using h(2) div_add_self2 [of h "2 * ?sig"] by (simp only: Suc_eq_plus1 neq0_conv simp_thms)
    also have "\<dots> \<le> 2 * ?sig + 1" by (simp only: add_le_cancel_right div_le_dividend)
    also have "\<dots> < 2 ^ 55" using sig by simp
    also have "\<dots> \<le> 2 ^ j" using assms(2) by (intro power_increasing) simp_all
    finally show ?thesis using False h by (simp only: f64_round_mag_def Let_def if_False flip: h_def)
  qed
qed

end
