(* ===== verification/Dashboard.thy ===== *)
theory Dashboard
  imports Metrics Wg_Setup Doubles
begin

text \<open>
  \<open>src/dashboard.rs\<close>: the JSON payload, the event stream, the routes and the pages for the tunnel.  The
  markup of the page is an argument (its script is in \<open>Dashboard_Page\<close>), the HTTP server is third-party.
  Rates are IEEE 754 doubles.
\<close>

section \<open>Rates\<close>

definition rate_per_sec :: "u64 \<Rightarrow> f64 \<Rightarrow> f64" where
  "rate_per_sec n dt = f64_div (f64_of_nat False (unat n)) dt"

text \<open>\<open>(x * 10.0).round() / 10.0\<close>.\<close>

definition round_tenth :: "f64 \<Rightarrow> f64" where
  "round_tenth x = f64_div (f64_of_nat False (f64_round_mag (f64_mul x f64_ten))) f64_ten"

text \<open>Whatever the counters and the time between two ticks are, a rate is a finite number.\<close>

lemma f64_ten_exp: "f64_exp f64_ten = 1026"
proof -
  have "bit_length 10 = 4" by (simp add: bit_length.simps)
  then have "f64_ten = f64_bits False 1026 1125899906842624" by (simp add: f64_ten_def f64_of_nat_def)
  with f64_bits_fields(1) [of 1026 1125899906842624] show ?thesis by simp
qed

lemma f64_milli_bits: "f64_milli = f64_bits False 1013 108086391056892"
proof -
  have "bit_length 1 = 1" "bit_length 1000 = 10" by (simp_all add: bit_length.simps)
  then show ?thesis by (simp add: f64_milli_def f64_ratio_def)
qed

lemma dt_exp:
  assumes "\<not> f64_sign secs" shows "1013 \<le> f64_exp (f64_max secs f64_milli)"
proof -
  have "unat f64_milli = 1013 * 2 ^ 52 + 108086391056892" by (simp add: f64_milli_bits f64_bits_def)
  then have "1013 * 2 ^ 52 \<le> unat (f64_max secs f64_milli)" "unat (f64_max secs f64_milli) < 2 ^ 63"
    using assms by (auto simp: f64_max_def f64_sign_def word_less_nat_alt)
  then have "1013 \<le> unat (f64_max secs f64_milli) div 2 ^ 52" "unat (f64_max secs f64_milli) div 2 ^ 52 < 2 ^ 11"
    by (simp_all add: div_less_iff_less_mult less_eq_div_iff_mult_less_eq)
  then show ?thesis by (simp add: f64_exp_def)
qed

lemma rate_finite:
  assumes "\<not> f64_sign secs"
  shows "f64_exp (round_tenth (rate_per_sec n (f64_max secs f64_milli))) < 2047"
proof -
  let ?x = "rate_per_sec n (f64_max secs f64_milli)"
  have "f64_exp (f64_of_nat False (unat n)) \<le> 1022 + 65" using f64_of_nat_exp [of "unat n" 64] unsigned_less [of n, where 'a = nat] by simp
  then have "f64_exp ?x \<le> 1022 + 77"
    using f64_div_exp [of _ 65 "f64_max secs f64_milli" 10] dt_exp [OF assms] by (fastforce simp: rate_per_sec_def)
  then have "f64_exp (f64_mul ?x f64_ten) \<le> 1022 + 84" using f64_mul_exp [of ?x 77 f64_ten 5] by (simp add: f64_ten_exp)
  then have "f64_round_mag (f64_mul ?x f64_ten) < 2 ^ 84" by (rule f64_round_mag_less) simp
  then have "f64_exp (f64_of_nat False (f64_round_mag (f64_mul ?x f64_ten))) \<le> 1022 + 85" using f64_of_nat_exp by fastforce
  from f64_div_exp [OF this, of f64_ten 0] show ?thesis by (simp add: round_tenth_def f64_ten_exp)
qed

section \<open>Payload\<close>

definition json_i64 :: "int \<Rightarrow> json" where
  "json_i64 n = Number (if 0 \<le> n then PosInt (of_int n) else NegInt (of_int n))"

definition json_u64 :: "u64 \<Rightarrow> json" where
  "json_u64 n = Number (PosInt n)"

text \<open>A double that is not finite becomes \<open>null\<close>.\<close>

definition json_f64 :: "f64 \<Rightarrow> json" where
  "json_f64 x = (if f64_exp x = 2047 then Null else Number (FloatNum x))"

definition json_opt :: "('a \<Rightarrow> json) \<Rightarrow> 'a option \<Rightarrow> json" where
  "json_opt f v = (case v of None \<Rightarrow> Null | Some x \<Rightarrow> f x)"

definition status_json :: "telescope_status \<Rightarrow> json" where
  "status_json s = obj
     [(''battery'', json_opt json_i64 (battery s)), (''temperature'', json_opt json_f64 (temperature s)),
      (''is_stacking'', Bool (is_stacking s)), (''stack_count'', json_i64 (stack_count s)), (''is_goto'', Bool (is_goto s)),
      (''is_homing'', Bool (is_homing s)), (''tracking'', Bool (tracking s)), (''view_mode'', json_opt Str (view_mode s)),
      (''charger_status'', json_opt Str (charger_status s)), (''last_event'', json_opt Str (last_event s)),
      (''last_event_ts_ms'', json_u64 (last_event_ts_ms s))]"

definition entry_json :: "log_entry \<Rightarrow> json" where
  "entry_json e = obj
     [(''seq'', json_u64 (seq e)), (''elapsed_ms'', json_u64 (elapsed_ms e)), (''timestamp_ms'', json_u64 (timestamp_ms e)),
      (''channel'', Str (channel e)), (''summary'', Str (summary e)), (''payload'', json_opt Str (payload e))]"

definition build_payload :: "u64 \<Rightarrow> metrics \<Rightarrow> f64 \<Rightarrow> f64 \<Rightarrow> f64 \<Rightarrow> log_entry list \<Rightarrow> json" where
  "build_payload uptime m ctrl_rx_rate img_frame_rate img_bps entries = obj
     [(''uptime_ms'', json_u64 uptime), (''control_clients'', json_i64 (sint (control_clients m))),
      (''imaging_clients'', json_i64 (sint (imaging_clients m))), (''control_rx'', json_u64 (control_rx m)),
      (''control_tx'', json_u64 (control_tx m)), (''control_events'', json_u64 (control_events m)),
      (''imaging_frames'', json_u64 (imaging_frames m)), (''imaging_bytes'', json_u64 (imaging_bytes m)),
      (''upstream_control_up'', Bool (upstream_control_up m)), (''upstream_imaging_up'', Bool (upstream_imaging_up m)),
      (''control_rx_rate'', json_f64 ctrl_rx_rate), (''imaging_frame_rate'', json_f64 img_frame_rate),
      (''imaging_bytes_rate'', json_u64 (f64_as_u64 img_bps)), (''log_entries'', Arr (map entry_json entries)),
      (''telescope_status'', status_json (telescope_status m))]"

section \<open>The event stream\<close>

record sse_state =
  next_log_seq :: "u64 option"
  last_ctrl_rx :: u64
  last_img_frames :: u64
  last_img_bytes :: u64

definition sse_new :: sse_state where
  "sse_new = \<lparr> next_log_seq = None, last_ctrl_rx = 0, last_img_frames = 0, last_img_bytes = 0 \<rparr>"

definition advance_seq :: "u64 option \<Rightarrow> log_entry list \<Rightarrow> u64 option" where
  "advance_seq next entries = Some (if entries = [] then (case next of Some n \<Rightarrow> n | None \<Rightarrow> 0) else seq (last entries) + 1)"

text \<open>One second of the stream: \<open>secs\<close> is the time since the last tick, \<open>uptime\<close> the proxy's.\<close>

definition sse_tick :: "f64 \<Rightarrow> u64 \<Rightarrow> metrics \<Rightarrow> sse_state \<Rightarrow> json \<times> log_entry list \<times> sse_state" where
  "sse_tick secs uptime m s =
     (let dt = f64_max secs f64_milli;
          ctrl_rate = rate_per_sec (saturating_sub (control_rx m) (last_ctrl_rx s)) dt;
          img_rate = rate_per_sec (saturating_sub (imaging_frames m) (last_img_frames s)) dt;
          img_bps = rate_per_sec (saturating_sub (imaging_bytes m) (last_img_bytes s)) dt;
          entries = log_since (next_log_seq s) m
      in (build_payload uptime m (round_tenth ctrl_rate) (round_tenth img_rate) img_bps entries, entries,
          \<lparr> next_log_seq = advance_seq (next_log_seq s) entries, last_ctrl_rx = control_rx m,
            last_img_frames = imaging_frames m, last_img_bytes = imaging_bytes m \<rparr>))"

definition sse_event :: "json_codec \<Rightarrow> json \<Rightarrow> string" where
  "sse_event J pl = (case to_string J pl of Some s \<Rightarrow> s | None \<Rightarrow> [])"

section \<open>Handlers\<close>

record dashboard_state =
  ds_wg_config :: "string option"
  ds_wg_qr_svg :: "string option"
  ds_wg_enabled :: bool
  ds_wg_endpoint :: "string option"

definition dashboard_plain :: dashboard_state where
  "dashboard_plain = \<lparr> ds_wg_config = None, ds_wg_qr_svg = None, ds_wg_enabled = False, ds_wg_endpoint = None \<rparr>"

definition dashboard_with_wg :: "wg_info \<Rightarrow> dashboard_state" where
  "dashboard_with_wg i =
     \<lparr> ds_wg_config = Some (wi_client_config i), ds_wg_qr_svg = Some (wi_client_config_svg i), ds_wg_enabled = True,
       ds_wg_endpoint = Some (wi_endpoint i) \<rparr>"

record http_response =
  hr_status :: nat
  hr_type :: string
  hr_body :: string

definition wg_config_handler :: "dashboard_state \<Rightarrow> http_response" where
  "wg_config_handler ds = (case ds_wg_config ds of
      Some config \<Rightarrow> \<lparr> hr_status = 200, hr_type = ''text/plain'', hr_body = config \<rparr>
    | None \<Rightarrow> \<lparr> hr_status = 404, hr_type = ''text/plain; charset=utf-8'', hr_body = ''WireGuard not enabled'' \<rparr>)"

definition wg_qr_handler :: "dashboard_state \<Rightarrow> http_response" where
  "wg_qr_handler ds = (case ds_wg_qr_svg ds of
      Some svg \<Rightarrow> \<lparr> hr_status = 200, hr_type = ''image/svg+xml'', hr_body = svg \<rparr>
    | None \<Rightarrow> \<lparr> hr_status = 404, hr_type = ''text/plain; charset=utf-8'', hr_body = ''WireGuard not enabled'' \<rparr>)"

definition stats_handler :: "u64 \<Rightarrow> metrics \<Rightarrow> json" where
  "stats_handler uptime m = build_payload uptime m 0 0 0 []"

text \<open>The page with the section of the tunnel in place of its marker: \<open>str::replace\<close> of every
  occurrence, from left to right.\<close>

definition WG_MARKER :: string where "WG_MARKER = ''<!-- WG_SECTION -->''"

function replace_marker :: "string \<Rightarrow> string \<Rightarrow> string" where
  "replace_marker new s =
     (if s = [] then []
      else if take (length WG_MARKER) s = WG_MARKER then new @ replace_marker new (drop (length WG_MARKER) s)
      else hd s # replace_marker new (tl s))"
  by pat_completeness auto
termination by (relation "measure (\<lambda>(new, s). length s)") (auto simp: WG_MARKER_def)

definition or_else :: "string option \<Rightarrow> string \<Rightarrow> string" where
  "or_else v d = (case v of Some s \<Rightarrow> s | None \<Rightarrow> d)"

definition wg_section :: "dashboard_state \<Rightarrow> string" where
  "wg_section ds =
     ''<div class=\"card\" id=\"wg-card\" style=\"grid-column:1/-1\">'' @ [CHR 0x0A] @
     ''<div class=\"card-title\">WireGuard Tunnel</div>'' @ [CHR 0x0A] @
     ''<div style=\"display:flex;gap:24px;align-items:flex-start;flex-wrap:wrap\">'' @ [CHR 0x0A] @
     ''<div style=\"flex:0 0 auto\">'' @ or_else (ds_wg_qr_svg ds) [] @ ''</div>'' @ [CHR 0x0A] @
     ''<div style=\"flex:1;min-width:300px\">'' @ [CHR 0x0A] @
     ''<div class=\"stat-label\">Status</div><div class=\"stat-value\" style=\"color:var(--green)\">Enabled</div>'' @ [CHR 0x0A] @
     ''<div class=\"stat-label\" style=\"margin-top:8px\">Endpoint</div><div class=\"stat-value\">'' @ or_else (ds_wg_endpoint ds) ''?'' @ ''</div>'' @ [CHR 0x0A] @
     ''<div class=\"stat-label\" style=\"margin-top:8px\">Config</div>'' @ [CHR 0x0A] @
     ''<pre style=\"background:rgba(0,0,0,.3);padding:8px;border-radius:4px;font-size:10px;overflow-x:auto;max-width:400px;white-space:pre-wrap;color:var(--dim)\">'' @ or_else (ds_wg_config ds) [] @ ''</pre>'' @ [CHR 0x0A] @
     ''<div style=\"margin-top:8px;font-size:11px;color:var(--muted)\">Scan the QR code with the WireGuard app, or copy the config above.</div>'' @ [CHR 0x0A] @
     ''</div></div></div>''"

definition dashboard_root :: "string \<Rightarrow> dashboard_state \<Rightarrow> string" where
  "dashboard_root page ds = (if ds_wg_enabled ds then replace_marker (wg_section ds) page else page)"

text \<open>What the server answers to a request for a path; a path without a route is left to the HTTP library.\<close>

datatype served = Html string | Reply http_response | JsonBody json | EventStream sse_state | NoRoute

definition run_with_state :: "string \<Rightarrow> dashboard_state \<Rightarrow> u64 \<Rightarrow> metrics \<Rightarrow> string \<Rightarrow> served" where
  "run_with_state page ds uptime m path =
     (if path = ''/'' then Html (dashboard_root page ds)
      else if path = ''/api/stream'' then EventStream sse_new
      else if path = ''/api/stats'' then JsonBody (stats_handler uptime m)
      else if path = ''/api/wg-config'' then Reply (wg_config_handler ds)
      else if path = ''/api/wg-qr'' then Reply (wg_qr_handler ds)
      else NoRoute)"

declare replace_marker.simps [simp del]

text \<open>The section stands where the marker was, and the rest of the page is kept.\<close>

lemma replace_marker_first:
  "\<forall>i < length a. take (length WG_MARKER) (drop i (a @ WG_MARKER @ b)) \<noteq> WG_MARKER \<Longrightarrow>
     replace_marker new (a @ WG_MARKER @ b) = a @ new @ replace_marker new b"
proof (induction a)
  case Nil
  have "WG_MARKER \<noteq> []" by (simp add: WG_MARKER_def)
  then show ?case by (subst replace_marker.simps) simp
next
  case (Cons x a)
  have "\<forall>i < length a. take (length WG_MARKER) (drop i (a @ WG_MARKER @ b)) \<noteq> WG_MARKER"
    using Cons.prems by (auto dest: spec [where x = "Suc i" for i])
  moreover have "take (length WG_MARKER) (x # a @ WG_MARKER @ b) \<noteq> WG_MARKER"
    using Cons.prems by (auto dest: spec [where x = 0])
  ultimately show ?case using Cons.IH by (subst replace_marker.simps) simp
qed

lemma replace_marker_none:
  "\<forall>i < length b. take (length WG_MARKER) (drop i b) \<noteq> WG_MARKER \<Longrightarrow> replace_marker new b = b"
proof (induction b)
  case (Cons x b)
  have "\<forall>i < length b. take (length WG_MARKER) (drop i b) \<noteq> WG_MARKER"
    using Cons.prems by (auto dest: spec [where x = "Suc i" for i])
  moreover have "take (length WG_MARKER) (x # b) \<noteq> WG_MARKER" using Cons.prems by (auto dest: spec [where x = 0])
  ultimately show ?case using Cons.IH by (subst replace_marker.simps) simp
qed (simp add: replace_marker.simps)

lemma dashboard_root_section:
  assumes "\<forall>i < length a. take (length WG_MARKER) (drop i (a @ WG_MARKER @ b)) \<noteq> WG_MARKER"
    and "\<forall>i < length b. take (length WG_MARKER) (drop i b) \<noteq> WG_MARKER"
  shows "dashboard_root (a @ WG_MARKER @ b) (dashboard_with_wg w) = a @ wg_section (dashboard_with_wg w) @ b"
  by (simp add: dashboard_root_def dashboard_with_wg_def replace_marker_first [OF assms(1)] replace_marker_none [OF assms(2)])

text \<open>The two paths of the tunnel answer exactly when the page has the section of the tunnel.\<close>

lemma tunnel_paths_served:
  assumes "ds = dashboard_plain \<or> ds = dashboard_with_wg w" and "path \<in> {''/api/wg-qr'', ''/api/wg-config''}"
  shows "ds_wg_enabled ds \<longleftrightarrow> (\<exists>r. run_with_state page ds up m path = Reply r \<and> hr_status r = 200)"
  using assms
  by (auto simp: run_with_state_def wg_qr_handler_def wg_config_handler_def dashboard_plain_def dashboard_with_wg_def)

section \<open>Every log entry is streamed once\<close>

text \<open>The ticks of one stream, with the traffic that was logged before each.\<close>

fun sse_entries :: "(log_call list \<times> f64 \<times> u64) list \<Rightarrow> metrics \<Rightarrow> sse_state \<Rightarrow> log_entry list" where
  "sse_entries [] m s = []"
| "sse_entries ((cs, secs, up) # ticks) m s =
     (let m' = push_logs cs m in
      case sse_tick secs up m' s of (_, entries, s') \<Rightarrow> entries @ sse_entries ticks m' s')"

abbreviation seqs :: "log_entry list \<Rightarrow> nat list" where "seqs es \<equiv> map (\<lambda>e. unat (seq e)) es"

definition next_seq :: "sse_state \<Rightarrow> nat" where
  "next_seq s = (case next_log_seq s of None \<Rightarrow> 0 | Some n \<Rightarrow> unat n)"

lemma log_since_next:
  assumes "log_inv m"
  shows "seqs (log_since (next_log_seq s) m) = [max (next_seq s) (unat (log_seq m) - length (log m)) ..< unat (log_seq m)]"
proof (cases "next_log_seq s")
  case None
  with assms show ?thesis by (simp add: log_since_def next_seq_def log_inv_def comp_def)
next
  case (Some n)
  with log_since_seq [OF assms, of n] show ?thesis by (simp add: next_seq_def comp_def)
qed

lemma tick_next:
  assumes inv: "log_inv m" and lt: "unat (log_seq m) < 2 ^ 64" and le: "next_seq s \<le> unat (log_seq m)"
    and t: "sse_tick secs up m s = (pl, es, s')"
  shows "seqs es = [max (next_seq s) (unat (log_seq m) - length (log m)) ..< unat (log_seq m)]"
    "next_seq s' = (if es = [] then next_seq s else unat (log_seq m))"
proof -
  have es: "es = log_since (next_log_seq s) m" and n: "next_log_seq s' = advance_seq (next_log_seq s) es"
    using t by (auto simp: sse_tick_def Let_def)
  show q: "seqs es = [max (next_seq s) (unat (log_seq m) - length (log m)) ..< unat (log_seq m)]"
    using log_since_next [OF inv, of s] by (simp add: es)
  show "next_seq s' = (if es = [] then next_seq s else unat (log_seq m))"
  proof (cases "es = []")
    case True
    with n show ?thesis by (simp add: next_seq_def advance_seq_def split: option.splits)
  next
    case False
    let ?a = "max (next_seq s) (unat (log_seq m) - length (log m))"
    have l: "unat (seq (last es)) = last [?a ..< unat (log_seq m)]" using False by (simp add: last_map flip: q)
    have "[?a ..< unat (log_seq m)] \<noteq> []" using False by (simp flip: q)
    then have "?a < unat (log_seq m)" by (simp only: upt_eq_Nil_conv not_le) auto
    moreover have "i < j \<Longrightarrow> Suc (last [i ..< j]) = j" for i j :: nat by (cases j) auto
    ultimately have l: "Suc (unat (seq (last es))) = unat (log_seq m)" unfolding l by blast
    then have "unat (seq (last es) + 1) = unat (log_seq m)" using lt unat_Suc_no_wrap [of "seq (last es)"] by simp
    with n False show ?thesis by (simp add: next_seq_def advance_seq_def)
  qed
qed

lemma push_logs_length:
  assumes "length (log m) \<le> LOG_CAPACITY"
  shows "length (log (push_logs cs m)) = min LOG_CAPACITY (length (log m) + length cs)"
  using arg_cong [OF push_logs_data [OF assms, of cs], of length] by simp

text \<open>The number of calls in a list of ticks.\<close>

definition calls :: "(log_call list \<times> f64 \<times> u64) list \<Rightarrow> nat" where
  "calls ticks = sum_list (map (length \<circ> fst) ticks)"

lemma sse_sorted:
  assumes "log_inv m" and "unat (log_seq m) + calls ticks < 2 ^ 64" and "next_seq s \<le> unat (log_seq m)"
  shows "sorted_wrt (<) (seqs (sse_entries ticks m s)) \<and> (\<forall>n \<in> set (seqs (sse_entries ticks m s)). next_seq s \<le> n)"
  using assms
proof (induction ticks arbitrary: m s)
  case (Cons tick ticks)
  obtain cs secs up where tick: "tick = (cs, secs, up)" by (cases tick)
  define m' where "m' = push_logs cs m"
  have c: "calls (tick # ticks) = length cs + calls ticks" by (simp add: calls_def tick)
  have m': "log_inv m'" "unat (log_seq m') = unat (log_seq m) + length cs"
    using push_logs_inv [of m cs] Cons.prems c by (simp_all add: m'_def)
  obtain pl es s' where t: "sse_tick secs up m' s = (pl, es, s')" by (cases "sse_tick secs up m' s")
  have le: "next_seq s \<le> unat (log_seq m')" using m'(2) Cons.prems(3) by simp
  note n = tick_next [OF m'(1) _ le t]
  have lt: "unat (log_seq m') < 2 ^ 64" using m'(2) Cons.prems(2) c by simp
  have le': "next_seq s' \<le> unat (log_seq m')" and ge: "next_seq s \<le> next_seq s'" using n(2) [OF lt] le by auto
  have "\<forall>k \<in> set (seqs es). k < unat (log_seq m')" unfolding n(1) [OF lt] by simp
  then have "\<forall>k \<in> set (seqs es). k < next_seq s'" using n(2) [OF lt] by (cases "es = []") auto
  moreover have IH: "sorted_wrt (<) (seqs (sse_entries ticks m' s'))" "\<forall>n \<in> set (seqs (sse_entries ticks m' s')). next_seq s' \<le> n"
    using Cons.IH [OF m'(1) _ le'] m'(2) Cons.prems(2) c by simp_all
  ultimately have "\<forall>x \<in> set (seqs es). \<forall>y \<in> set (seqs (sse_entries ticks m' s')). x < y" by (meson less_le_trans)
  moreover have "\<forall>n \<in> set (seqs (sse_entries ticks m' s')). next_seq s \<le> n" using IH(2) ge by (meson le_trans)
  moreover have "\<forall>k \<in> set (seqs es). next_seq s \<le> k" "sorted_wrt (<) (seqs es)" unfolding n(1) [OF lt] by simp_all
  moreover have e: "sse_entries (tick # ticks) m s = es @ sse_entries ticks m' s'" by (simp add: tick t Let_def flip: m'_def)
  ultimately show ?case using IH(1) unfolding e map_append sorted_wrt_append set_append ball_Un by blast
qed simp

text \<open>Once everything logged so far was streamed, ticks with at most 100 new entries each stream exactly
  those.\<close>

lemma sse_complete:
  assumes "log_inv m" and "unat (log_seq m) + calls ticks < 2 ^ 64" and "next_seq s = unat (log_seq m)"
    and "\<forall>t \<in> set ticks. length (fst t) \<le> LOG_CAPACITY"
  shows "seqs (sse_entries ticks m s) = [unat (log_seq m) ..< unat (log_seq m) + calls ticks]"
  using assms
proof (induction ticks arbitrary: m s)
  case (Cons tick ticks)
  obtain cs secs up where tick: "tick = (cs, secs, up)" by (cases tick)
  define m' where "m' = push_logs cs m"
  have c: "calls (tick # ticks) = length cs + calls ticks" by (simp add: calls_def tick)
  have m': "log_inv m'" "unat (log_seq m') = unat (log_seq m) + length cs"
    using push_logs_inv [of m cs] Cons.prems c by (simp_all add: m'_def)
  have "length (log m') = min LOG_CAPACITY (length (log m) + length cs)"
    using push_logs_length [of m cs] Cons.prems(1) by (simp add: m'_def log_inv_def)
  then have len: "length cs \<le> length (log m')" using Cons.prems(4) by (simp add: tick)
  obtain pl es s' where t: "sse_tick secs up m' s = (pl, es, s')" by (cases "sse_tick secs up m' s")
  have le: "next_seq s \<le> unat (log_seq m')" and lt: "unat (log_seq m') < 2 ^ 64"
    using m'(2) Cons.prems(2,3) c by simp_all
  note n = tick_next [OF m'(1) lt le t]
  have "max (next_seq s) (unat (log_seq m') - length (log m')) = unat (log_seq m)"
    using len m'(2) Cons.prems(3) by simp
  then have es: "seqs es = [unat (log_seq m) ..< unat (log_seq m')]" using n(1) by simp
  have s': "next_seq s' = unat (log_seq m')"
  proof (cases "es = []")
    case True
    then have "length cs = 0" using arg_cong [OF es, of length] m'(2) by simp
    with True n(2) Cons.prems(3) m'(2) show ?thesis by simp
  qed (use n(2) in simp)
  have "seqs (sse_entries ticks m' s') = [unat (log_seq m') ..< unat (log_seq m') + calls ticks]"
    using Cons.IH [OF m'(1) _ s'] Cons.prems(2,4) c m'(2) by simp
  then have "seqs (sse_entries (tick # ticks) m s) = [unat (log_seq m) ..< unat (log_seq m')] @ [unat (log_seq m') ..< unat (log_seq m') + calls ticks]"
    by (simp add: tick Let_def t es flip: m'_def)
  also have "\<dots> = [unat (log_seq m) ..< unat (log_seq m) + calls (tick # ticks)]"
    using upt_add_eq_append [of "unat (log_seq m)" "unat (log_seq m')" "calls ticks"] m'(2) c by (simp add: add.assoc)
  finally show ?case .
qed (simp add: calls_def)

lemma sse_first:
  assumes "length cs + calls ticks < 2 ^ 64" and t: "sse_tick secs up (push_logs cs metrics_new) sse_new = (pl, es, s)"
  shows "log_inv (push_logs cs metrics_new)" "unat (log_seq (push_logs cs metrics_new)) = length cs"
    "seqs es = [length cs - min LOG_CAPACITY (length cs) ..< length cs]" "next_seq s = length cs"
proof -
  let ?m = "push_logs cs metrics_new"
  have z: "log metrics_new = []" "log_seq metrics_new = 0" "next_seq sse_new = 0"
    by (simp_all add: metrics_new_def next_seq_def sse_new_def)
  show i: "log_inv ?m" "unat (log_seq ?m) = length cs"
    using push_logs_inv [OF log_inv_new, of cs] assms(1) z by simp_all
  have len: "length (log ?m) = min LOG_CAPACITY (length cs)" using push_logs_length [of metrics_new cs] z by (simp add: LOG_CAPACITY_def)
  have "next_seq sse_new \<le> unat (log_seq ?m)" "unat (log_seq ?m) < 2 ^ 64" using z i(2) assms(1) by simp_all
  note n = tick_next [OF i(1) this(2,1) t]
  show es: "seqs es = [length cs - min LOG_CAPACITY (length cs) ..< length cs]" using n(1) z i(2) len by simp
  show "next_seq s = length cs"
  proof (cases "es = []")
    case True
    then have "min LOG_CAPACITY (length cs) = 0" using arg_cong [OF es, of length] by simp
    then have "cs = []" by (simp add: LOG_CAPACITY_def min_def split: if_splits)
    with True n(2) z show ?thesis by simp
  qed (use n(2) i(2) in simp)
qed


definition demo_call :: log_call where
  "demo_call = (\<lparr> now_elapsed_ms = 5, now_epoch_ms = 9 \<rparr>, ''img'', ''preview'', None)"


text \<open>The first sample has nothing to compare with: its rates are the totals since the proxy started.\<close>

lemma first_rate_is_total:
  "fst (sse_tick secs up m sse_new) =
     build_payload up m (round_tenth (rate_per_sec (control_rx m) (f64_max secs f64_milli)))
       (round_tenth (rate_per_sec (imaging_frames m) (f64_max secs f64_milli)))
       (rate_per_sec (imaging_bytes m) (f64_max secs f64_milli)) (log m)"
  by (simp add: sse_tick_def sse_new_def Let_def saturating_sub_def log_since_def)

end
