(* ===== verification/Dashboard_Page.thy ===== *)
theory Dashboard_Page
  imports Dashboard "HOL-Library.Sorting_Algorithms" "HOL-Library.Signed_Division"
begin

text \<open>
  The script of the dashboard page (in \<open>src/dashboard.rs\<close>): its variables and the elements it writes are
  the record \<open>page\<close>, each of its functions and event handlers is a function on it.  Numbers of the script are
  doubles; those that are always integers are integers here, rounded to a double where they enter.
  Built-in functions of the browser whose result depends on its locale or time zone, JSON and the
  formatting of numbers of \<open>2 ^ 53\<close> and above are fields of \<open>browser\<close>.  The current time is an argument.
\<close>

section \<open>Built-in functions\<close>

record browser =
  bw_parse :: "string \<Rightarrow> json option" \<comment> \<open>\<open>JSON.parse\<close>, \<open>None\<close> if it throws\<close>
  bw_pretty :: "json \<Rightarrow> string" \<comment> \<open>\<open>JSON.stringify(v, null, 2)\<close>\<close>
  bw_object :: "(string \<times> json) list \<Rightarrow> string" \<comment> \<open>\<open>JSON.stringify\<close> of an object\<close>
  bw_number :: "f64 \<Rightarrow> string" \<comment> \<open>\<open>String\<close> of a number of \<open>10 ^ 21\<close> or more\<close>
  bw_big :: "int \<Rightarrow> string" \<comment> \<open>\<open>String\<close> of an integer that is not a safe integer\<close>
  bw_locale :: "int \<Rightarrow> string" \<comment> \<open>\<open>toLocaleString\<close>\<close>
  bw_clock :: "int \<Rightarrow> nat \<times> nat \<times> nat" \<comment> \<open>hours, minutes and seconds of a \<open>Date\<close>\<close>
  bw_iso :: "int \<Rightarrow> string" \<comment> \<open>\<open>toISOString\<close>\<close>

definition show_int :: "int \<Rightarrow> string" where
  "show_int n = (if n < 0 then CHR ''-'' # show_nat (nat (- n)) else show_nat (nat n))"

definition js_text :: "browser \<Rightarrow> int \<Rightarrow> string" where
  "js_text b n = (if \<bar>n\<bar> < 2 ^ 53 then show_int n else bw_big b n)"

text \<open>An integer of JSON as a number.\<close>

definition js_round :: "int \<Rightarrow> int" where
  "js_round n = (if n < 0 then - int (f64_nat (f64_of_nat False (nat (- n)))) else int (f64_nat (f64_of_nat False (nat n))))"

definition js_int :: "json \<Rightarrow> int option" where
  "js_int v = (case v of Number (PosInt n) \<Rightarrow> Some (js_round (uint n)) | Number (NegInt n) \<Rightarrow> Some (js_round (sint n)) | _ \<Rightarrow> None)"

text \<open>\<open>x.toFixed(d)\<close>: the nearest multiple of \<open>10 ^ - d\<close>, the larger of two.\<close>

definition fixed_digits :: "nat \<Rightarrow> nat \<Rightarrow> string" where
  "fixed_digits d n =
     (let m = show_nat n; m' = replicate (Suc d - length m) CHR ''0'' @ m; k = length m' - d
      in if d = 0 then m else take k m' @ ''.'' @ drop k m')"

definition to_fixed :: "browser \<Rightarrow> nat \<Rightarrow> f64 \<Rightarrow> string" where
  "to_fixed b d x = (case f64_frac x of (p, q) \<Rightarrow>
     if 10 ^ 21 * q \<le> p then bw_number b x
     else (if f64_sign x \<and> p \<noteq> 0 then ''-'' else []) @ fixed_digits d ((2 * p * 10 ^ d + q) div (2 * q)))"

definition pad2 :: "string \<Rightarrow> string" where
  "pad2 s = replicate (2 - length s) CHR ''0'' @ s"

text \<open>\<open>x|0\<close> of a number whose integral part is \<open>n\<close>; \<open>Math.round(n / d)\<close>.\<close>

definition to_int32 :: "int \<Rightarrow> int" where
  "to_int32 n = sint (of_int n :: 32 word)"

definition js_round_div :: "int \<Rightarrow> int \<Rightarrow> int" where
  "js_round_div n d = (2 * n + d) div (2 * d)"

text \<open>The UTF-16 code units of a string, by which the script compares strings.\<close>

definition code_point :: "nat \<Rightarrow> nat list \<Rightarrow> nat" where
  "code_point n bs =
     (if n = 1 then safe_get bs 0
      else if n = 2 then (safe_get bs 0 - 192) * 64 + (safe_get bs 1 - 128)
      else if n = 3 then (safe_get bs 0 - 224) * 4096 + (safe_get bs 1 - 128) * 64 + (safe_get bs 2 - 128)
      else (safe_get bs 0 - 240) * 262144 + (safe_get bs 1 - 128) * 4096 + (safe_get bs 2 - 128) * 64 + (safe_get bs 3 - 128))"

definition code_units :: "nat \<Rightarrow> nat list" where
  "code_units c = (if c < 65536 then [c] else [55296 + (c - 65536) div 1024, 56320 + (c - 65536) mod 1024])"

function utf16 :: "nat list \<Rightarrow> nat list" where
  "utf16 bs =
     (if bs = [] then []
      else case utf8_step bs of (v, n) \<Rightarrow> (if v then code_units (code_point n bs) else [65533]) @ utf16 (drop n bs))"
  by pat_completeness auto
termination
  by (relation "measure length") (auto dest!: sym [of "(_, _)"] dest: utf8_step_pos)

declare utf16.simps [simp del]

definition js_string :: "string \<Rightarrow> nat list" where
  "js_string s = utf16 (map of_char s)"

section \<open>Messages\<close>

record js_entry =
  je_seq :: int
  je_timestamp_ms :: int
  je_channel :: string
  je_summary :: string
  je_payload :: "string option"

record js_status =
  jt_battery :: "int option"
  jt_temperature :: "f64 option"
  jt_is_stacking :: bool
  jt_stack_count :: int
  jt_is_goto :: bool
  jt_is_homing :: bool
  jt_tracking :: bool
  jt_view_mode :: "string option"
  jt_charger_status :: "string option"
  jt_last_event :: "string option"
  jt_last_event_ts_ms :: int

record js_stats =
  st_uptime_ms :: int
  st_control_clients :: int
  st_imaging_clients :: int
  st_control_rx :: int
  st_control_tx :: int
  st_control_events :: int
  st_imaging_frames :: int
  st_imaging_bytes :: int
  st_upstream_control_up :: bool
  st_upstream_imaging_up :: bool
  st_control_rx_rate :: f64
  st_imaging_frame_rate :: f64
  st_imaging_bytes_rate :: int
  st_log_entries :: "js_entry list"
  st_telescope_status :: js_status

text \<open>The properties of a message as the script reads them, each with the type it is used at.\<close>

definition js_get :: "(json \<Rightarrow> 'a option) \<Rightarrow> string \<Rightarrow> json \<Rightarrow> 'a option" where
  "js_get f k v = Option.bind (jget v k) f"

definition js_nullable :: "(json \<Rightarrow> 'a option) \<Rightarrow> json \<Rightarrow> 'a option option" where
  "js_nullable f v = (if v = Null then Some None else map_option Some (f v))"

definition js_array :: "(json \<Rightarrow> 'a option) \<Rightarrow> json \<Rightarrow> 'a list option" where
  "js_array f v = (case v of Arr vs \<Rightarrow> those (map f vs) | _ \<Rightarrow> None)"

definition read_entry :: "json \<Rightarrow> js_entry option" where
  "read_entry v = do {
     s \<leftarrow> js_get js_int ''seq'' v; t \<leftarrow> js_get js_int ''timestamp_ms'' v; c \<leftarrow> js_get as_str ''channel'' v;
     m \<leftarrow> js_get as_str ''summary'' v; p \<leftarrow> js_get (js_nullable as_str) ''payload'' v;
     Some \<lparr> je_seq = s, je_timestamp_ms = t, je_channel = c, je_summary = m, je_payload = p \<rparr> }"

definition read_status :: "json \<Rightarrow> js_status option" where
  "read_status v = do {
     ba \<leftarrow> js_get (js_nullable js_int) ''battery'' v; te \<leftarrow> js_get (js_nullable as_f64) ''temperature'' v;
     st \<leftarrow> js_get as_bool ''is_stacking'' v; sc \<leftarrow> js_get js_int ''stack_count'' v; go \<leftarrow> js_get as_bool ''is_goto'' v;
     ho \<leftarrow> js_get as_bool ''is_homing'' v; tr \<leftarrow> js_get as_bool ''tracking'' v;
     vm \<leftarrow> js_get (js_nullable as_str) ''view_mode'' v; cs \<leftarrow> js_get (js_nullable as_str) ''charger_status'' v;
     le \<leftarrow> js_get (js_nullable as_str) ''last_event'' v; lt \<leftarrow> js_get js_int ''last_event_ts_ms'' v;
     Some \<lparr> jt_battery = ba, jt_temperature = te, jt_is_stacking = st, jt_stack_count = sc, jt_is_goto = go, jt_is_homing = ho,
       jt_tracking = tr, jt_view_mode = vm, jt_charger_status = cs, jt_last_event = le, jt_last_event_ts_ms = lt \<rparr> }"

definition read_stats :: "json \<Rightarrow> js_stats option" where
  "read_stats v = do {
     up \<leftarrow> js_get js_int ''uptime_ms'' v; cc \<leftarrow> js_get js_int ''control_clients'' v; ic \<leftarrow> js_get js_int ''imaging_clients'' v;
     rx \<leftarrow> js_get js_int ''control_rx'' v; tx \<leftarrow> js_get js_int ''control_tx'' v; ev \<leftarrow> js_get js_int ''control_events'' v;
     fr \<leftarrow> js_get js_int ''imaging_frames'' v; by \<leftarrow> js_get js_int ''imaging_bytes'' v;
     cu \<leftarrow> js_get as_bool ''upstream_control_up'' v; iu \<leftarrow> js_get as_bool ''upstream_imaging_up'' v;
     cr \<leftarrow> js_get as_f64 ''control_rx_rate'' v; ir \<leftarrow> js_get as_f64 ''imaging_frame_rate'' v;
     br \<leftarrow> js_get js_int ''imaging_bytes_rate'' v; es \<leftarrow> js_get (js_array read_entry) ''log_entries'' v;
     ts \<leftarrow> js_get read_status ''telescope_status'' v;
     Some \<lparr> st_uptime_ms = up, st_control_clients = cc, st_imaging_clients = ic, st_control_rx = rx, st_control_tx = tx,
       st_control_events = ev, st_imaging_frames = fr, st_imaging_bytes = by, st_upstream_control_up = cu,
       st_upstream_imaging_up = iu, st_control_rx_rate = cr, st_imaging_frame_rate = ir, st_imaging_bytes_rate = br,
       st_log_entries = es, st_telescope_status = ts \<rparr> }"

section \<open>The page\<close>

datatype sort_col = Ts | Ch | Sm

text \<open>What a handler writes into an element: text as it is, or markup.\<close>

datatype content = TextContent string | InnerHTML string

record page_row =
  row_seq :: int
  row_time :: string
  row_channel :: string
  row_summary :: string
  row_detail :: "string option"
  row_open :: bool

record page =
  ch :: "f64 list"
  ih :: "f64 list"
  lastSeq :: int
  logStore :: "js_entry list"
  sortCol :: sort_col
  sortDesc :: bool
  recording :: bool
  recordStore :: "js_entry list"
  recordStart :: "int option"
  el_content :: "string \<rightharpoonup> content"
  el_class :: "string \<rightharpoonup> string"
  el_color :: "string \<rightharpoonup> string"
  el_path :: "string \<rightharpoonup> string"
  log_rows :: "page_row list"
  hdr_sorted :: "sort_col \<Rightarrow> bool \<times> bool" \<comment> \<open>the classes \<open>sorted\<close> and \<open>desc\<close> of a column header\<close>
  rec_shown :: bool
  exp_disabled :: bool
  banner_on :: bool

definition CHART_N :: nat where "CHART_N = 60"

definition LOG_WINDOW_MS :: int where "LOG_WINDOW_MS = 5 * 60 * 1000"

definition em_dash :: string where "em_dash = [CHR 0xE2, CHR 0x80, CHR 0x94]"

definition set_texts :: "(string \<times> string) list \<Rightarrow> page \<Rightarrow> page" where
  "set_texts kvs pg = pg\<lparr> el_content := fold (\<lambda>(k, t) m. m(k \<mapsto> TextContent t)) kvs (el_content pg) \<rparr>"

text \<open>The page as it is loaded.\<close>

definition page_new :: page where
  "page_new = set_texts
     [(''uptime'', em_dash), (''cc'', em_dash), (''ctrl-total'', ''0 messages''), (''ic'', em_dash), (''img-total'', ''0 frames''),
      (''cr'', em_dash), (''fr'', em_dash), (''bw'', em_dash @ '' /s''), (''sc'', em_dash), (''si'', em_dash), (''rxc'', ''0''),
      (''txc'', ''0''), (''evc'', ''0''), (''ibc'', ''0 B''), (''ts-batt'', em_dash), (''ts-charge'', em_dash),
      (''ts-temp'', em_dash), (''ts-track'', em_dash), (''ts-view'', em_dash), (''ts-stack'', em_dash), (''ts-evt'', em_dash),
      (''ts-age'', em_dash), (''rec-info'', []), (''log-count'', [])]
     \<lparr> ch = replicate CHART_N 0, ih = replicate CHART_N 0, lastSeq = - 1, logStore = [], sortCol = Ts, sortDesc = True,
       recording = False, recordStore = [], recordStart = None,
       el_content = [''btn-rec'' \<mapsto> InnerHTML ''&#9679; Record'',
         ''ts-status'' \<mapsto> InnerHTML (''<span class=\"sled\"></span><span>'' @ em_dash @ ''</span>'')],
       el_class = [''sc'' \<mapsto> ''sbadge down'', ''si'' \<mapsto> ''sbadge down'', ''ts-status'' \<mapsto> ''sbadge down'', ''btn-rec'' \<mapsto> ''btn btn-rec''],
       el_color = Map.empty, el_path = [''ca'' \<mapsto> [], ''oa'' \<mapsto> [], ''cl'' \<mapsto> [], ''ol'' \<mapsto> []],
       log_rows = [], hdr_sorted = (\<lambda>c. (c = Ts, c = Ts)), rec_shown = False, exp_disabled = True, banner_on = False \<rparr>"

section \<open>Formatting\<close>

text \<open>Quotients by 1000 and 60 are those of the integers: below \<open>2 ^ 53\<close> the double has the same whole part.\<close>

definition fmt :: "int \<Rightarrow> string" where
  "fmt ms =
     (let s = to_int32 (ms div 1000); h = s sdiv 3600; m = (s smod 3600) sdiv 60; sec = s smod 60
      in pad2 (show_int h) @ '':'' @ pad2 (show_int m) @ '':'' @ pad2 (show_int sec))"

definition fmtBytes :: "browser \<Rightarrow> int \<Rightarrow> string" where
  "fmtBytes b n =
     (let over = (\<lambda>d k. to_fixed b d (f64_div (f64_of_nat False (nat n)) (f64_of_nat False k)))
      in if n < 1024 then js_text b n @ '' B''
         else if n < 1048576 then over 1 1024 @ '' KB''
         else if n < 1073741824 then over 1 1048576 @ '' MB''
         else over 2 1073741824 @ '' GB'')"

definition fmtTime :: "browser \<Rightarrow> int \<Rightarrow> string" where
  "fmtTime b ts_ms = (case bw_clock b ts_ms of (h, m, s) \<Rightarrow>
     pad2 (show_nat h) @ '':'' @ pad2 (show_nat m) @ '':'' @ pad2 (show_nat s))"

section \<open>The chart\<close>

definition js_num :: "nat \<Rightarrow> f64" where "js_num n = f64_of_nat False n"

definition chart_pts :: "browser \<Rightarrow> f64 \<Rightarrow> f64 \<Rightarrow> f64 list \<Rightarrow> (string \<times> string) list" where
  "chart_pts b lo rng h = map (\<lambda>(i, v).
     (to_fixed b 1 (f64_add (js_num 3) (f64_mul (f64_div (js_num i) (js_num (CHART_N - 1))) (js_num 594))),
      to_fixed b 1 (f64_sub (js_num 77) (f64_mul (f64_div (f64_sub v lo) rng) (js_num 74))))) (enumerate 0 h)"

definition chart_line :: "(string \<times> string) list \<Rightarrow> string" where
  "chart_line p = ''M'' @ join_with ''L'' (map (\<lambda>(x, y). x @ '','' @ y) p)"

definition chart_area :: "(string \<times> string) list \<Rightarrow> string" where
  "chart_area p = chart_line p @ ''L'' @ fst (last p) @ '',80L3,80Z''"

text \<open>The samples are not negative, so that they compare like their bit patterns.\<close>

definition chart_max :: "f64 list \<Rightarrow> f64" where
  "chart_max vs = foldr f64_max vs (js_num 1)"

definition chart_min :: "f64 list \<Rightarrow> f64" where
  "chart_min vs = foldr min (tl vs) (hd vs)"

definition chart_low :: "f64 \<Rightarrow> f64 \<Rightarrow> f64" where
  "chart_low mn mx = (let x = f64_sub mn (f64_mul (f64_sub mx mn) (f64_ratio 1 10)) in if f64_sign x then 0 else x)"

definition drawChart :: "browser \<Rightarrow> page \<Rightarrow> page" where
  "drawChart b pg =
     (let mx = chart_max (ch pg @ ih pg); lo = chart_low (chart_min (ch pg @ ih pg)) mx;
          rng = (let r = f64_sub mx lo in if r = 0 then js_num 1 else r);
          p = chart_pts b lo rng (ch pg); q = chart_pts b lo rng (ih pg)
      in pg\<lparr> el_path := (el_path pg)(''cl'' \<mapsto> chart_line p, ''ca'' \<mapsto> chart_area p, ''ol'' \<mapsto> chart_line q, ''oa'' \<mapsto> chart_area q) \<rparr>)"

text \<open>\<open>a.push(v); if (a.length > N) a.shift()\<close>.\<close>

definition push_sample :: "f64 \<Rightarrow> f64 list \<Rightarrow> f64 list" where
  "push_sample v a = (if CHART_N < length (a @ [v]) then tl (a @ [v]) else a @ [v])"

section \<open>The telescope\<close>

text \<open>A string that is null or empty counts as false.\<close>

definition truthy :: "string option \<Rightarrow> bool" where
  "truthy v \<longleftrightarrow> v \<noteq> None \<and> v \<noteq> Some []"

definition or_dash :: "string option \<Rightarrow> string" where
  "or_dash v = (if truthy v then the v else em_dash)"

definition badge :: "string option \<Rightarrow> string \<Rightarrow> page \<Rightarrow> page" where
  "badge color label pg =
     (let bg = (case color of None \<Rightarrow> []
         | Some c \<Rightarrow> ''background:var(--'' @ c @ '')'' @ '';box-shadow:0 0 6px var(--'' @ c @ '')'')
      in pg\<lparr> el_class := (el_class pg)(''ts-status'' \<mapsto> ''sbadge''),
             el_color := (el_color pg)(''ts-status'' \<mapsto> (case color of None \<Rightarrow> [] | Some c \<Rightarrow> ''var(--'' @ c @ '')'')),
             el_content := (el_content pg)(''ts-status'' \<mapsto>
               InnerHTML (''<span class=\"sled\" style=\"'' @ bg @ ''\"></span><span>'' @ label @ ''</span>'')) \<rparr>)"

definition status_badge :: "js_status \<Rightarrow> page \<Rightarrow> page" where
  "status_badge ts =
     (if jt_is_goto ts then badge (Some ''orange'') ''GoTo''
      else if jt_is_stacking ts then badge (Some ''purple'') ''Stacking''
      else if jt_is_homing ts then badge (Some ''cyan'') ''Homing''
      else if truthy (jt_last_event ts) then badge (Some ''green'') (if jt_tracking ts then ''Tracking'' else ''Idle'')
      else badge None em_dash)"

definition event_age :: "browser \<Rightarrow> int \<Rightarrow> int \<Rightarrow> string" where
  "event_age b now t =
     (if t = 0 then em_dash
      else let age = js_round_div (now - t) 1000
           in if age < 60 then js_text b age @ ''s ago'' else js_text b (js_round_div age 60) @ ''m ago'')"

definition updateTelescopeStatus :: "browser \<Rightarrow> int \<Rightarrow> js_status \<Rightarrow> page \<Rightarrow> page" where
  "updateTelescopeStatus b now ts pg = set_texts
     [(''ts-batt'', case jt_battery ts of Some v \<Rightarrow> js_text b v @ ''%'' | None \<Rightarrow> em_dash),
      (''ts-charge'', or_dash (jt_charger_status ts)),
      (''ts-temp'', case jt_temperature ts of Some v \<Rightarrow> to_fixed b 1 v @ [CHR 0xC2, CHR 0xB0] @ ''C'' | None \<Rightarrow> em_dash),
      (''ts-track'', if truthy (jt_last_event ts) then (if jt_tracking ts then ''on'' else ''off'') else em_dash),
      (''ts-view'', or_dash (jt_view_mode ts)),
      (''ts-stack'', if jt_is_stacking ts then js_text b (jt_stack_count ts) else em_dash),
      (''ts-evt'', or_dash (jt_last_event ts)),
      (''ts-age'', event_age b now (jt_last_event_ts_ms ts))]
     (status_badge ts pg)"

section \<open>The traffic log\<close>

definition entry_order :: "sort_col \<Rightarrow> bool \<Rightarrow> js_entry comparator" where
  "entry_order col desc =
     (let c = (case col of Ts \<Rightarrow> key je_timestamp_ms default
                | Ch \<Rightarrow> key (js_string \<circ> je_channel) default
                | Sm \<Rightarrow> key (js_string \<circ> je_summary) default)
      in if desc then reversed c else c)"

definition buildEntry :: "browser \<Rightarrow> js_entry \<Rightarrow> page_row" where
  "buildEntry b e =
     \<lparr> row_seq = je_seq e, row_time = fmtTime b (je_timestamp_ms e), row_channel = je_channel e, row_summary = je_summary e,
       row_detail = (if truthy (je_payload e)
         then Some (case bw_parse b (the (je_payload e)) of Some v \<Rightarrow> bw_pretty b v | None \<Rightarrow> the (je_payload e)) else None),
       row_open = False \<rparr>"

definition renderLog :: "browser \<Rightarrow> page \<Rightarrow> page" where
  "renderLog b pg =
     (let openSeqs = map row_seq (filter row_open (log_rows pg));
          sorted = Sorting_Algorithms.sort (entry_order (sortCol pg) (sortDesc pg)) (logStore pg);
          n = length sorted
      in set_texts [(''log-count'', show_nat n @ '' entr'' @ (if n = 1 then ''y'' else ''ies'') @
             '' / '' @ show_int (js_round_div LOG_WINDOW_MS 60000) @ '' min window'')]
           (pg\<lparr> log_rows := map (\<lambda>e. (buildEntry b e)\<lparr> row_open := je_seq e \<in> set openSeqs \<rparr>) sorted \<rparr>))"

definition updateRecInfo :: "browser \<Rightarrow> int \<Rightarrow> page \<Rightarrow> page" where
  "updateRecInfo b now pg =
     (let secs = js_round_div (now - (case recordStart pg of Some t \<Rightarrow> t | None \<Rightarrow> 0)) 1000
      in pg\<lparr> el_content := (el_content pg)(''rec-info'' \<mapsto> InnerHTML (''<span class=\"rec-dot\"></span>'' @
               show_nat (length (recordStore pg)) @ '' ('' @ js_text b secs @ ''s)'')) \<rparr>)"

text \<open>The loop of \<open>appendLog\<close>: the flag tells whether anything was added.\<close>

definition append_entry :: "js_entry \<Rightarrow> bool \<times> page \<Rightarrow> bool \<times> page" where
  "append_entry e = (\<lambda>(changed, pg).
     if je_seq e \<le> lastSeq pg then (changed, pg)
     else (True, pg\<lparr> lastSeq := je_seq e, logStore := logStore pg @ [e],
                     recordStore := (if recording pg then recordStore pg @ [e] else recordStore pg) \<rparr>))"

definition appendLog :: "browser \<Rightarrow> int \<Rightarrow> js_entry list \<Rightarrow> page \<Rightarrow> page" where
  "appendLog b now entries pg =
     (let cutoff = now - LOG_WINDOW_MS
      in case fold append_entry entries (False, pg) of (changed, pg1) \<Rightarrow>
           if changed
           then (let pg2 = renderLog b (pg1\<lparr> logStore := filter (\<lambda>e. cutoff \<le> je_timestamp_ms e) (logStore pg1) \<rparr>)
                 in if recording pg2 then updateRecInfo b now pg2 else pg2)
           else pg1)"

section \<open>Event handlers\<close>

definition conn :: "string \<Rightarrow> bool \<Rightarrow> page \<Rightarrow> page" where
  "conn i up pg = (set_texts [(i, if up then ''CONNECTED'' else ''OFFLINE'')] pg)
     \<lparr> el_class := (el_class pg)(i \<mapsto> ''sbadge '' @ (if up then ''up'' else ''down'')) \<rparr>"

definition stat_texts :: "browser \<Rightarrow> js_stats \<Rightarrow> (string \<times> string) list" where
  "stat_texts b s =
     [(''uptime'', fmt (st_uptime_ms s)), (''cc'', js_text b (st_control_clients s)), (''ic'', js_text b (st_imaging_clients s)),
      (''cr'', to_fixed b 1 (st_control_rx_rate s)), (''fr'', to_fixed b 1 (st_imaging_frame_rate s)),
      (''ctrl-total'', bw_locale b (js_round (st_control_rx s + st_control_tx s)) @ '' messages''),
      (''img-total'', bw_locale b (st_imaging_frames s) @ '' frames''),
      (''bw'', fmtBytes b (st_imaging_bytes_rate s) @ ''/s''), (''rxc'', bw_locale b (st_control_rx s)),
      (''txc'', bw_locale b (st_control_tx s)), (''evc'', bw_locale b (st_control_events s)), (''ibc'', fmtBytes b (st_imaging_bytes s))]"

definition update :: "browser \<Rightarrow> int \<Rightarrow> js_stats \<Rightarrow> page \<Rightarrow> page" where
  "update b now s pg =
     (let pg1 = conn ''si'' (st_upstream_imaging_up s) (conn ''sc'' (st_upstream_control_up s) (set_texts (stat_texts b s) pg));
          pg2 = drawChart b (pg1\<lparr> ch := push_sample (st_control_rx_rate s) (ch pg1), ih := push_sample (st_imaging_frame_rate s) (ih pg1) \<rparr>);
          pg3 = (if st_log_entries s \<noteq> [] then appendLog b now (st_log_entries s) pg2 else pg2)
      in updateTelescopeStatus b now (st_telescope_status s) pg3)"

text \<open>\<open>None\<close> for a message the script cannot use.\<close>

definition on_message :: "browser \<Rightarrow> int \<Rightarrow> string \<Rightarrow> page \<Rightarrow> page option" where
  "on_message b now data pg = map_option (\<lambda>s. update b now s pg) (Option.bind (bw_parse b data) read_stats)"

definition on_connect :: "page \<Rightarrow> page" where
  "on_connect pg = pg\<lparr> banner_on := False \<rparr>"

definition on_error :: "page \<Rightarrow> page" where
  "on_error pg = pg\<lparr> banner_on := True \<rparr>"

definition click_record :: "browser \<Rightarrow> int \<Rightarrow> page \<Rightarrow> page" where
  "click_record b now pg =
     (if \<not> recording pg then
        (updateRecInfo b now (pg\<lparr> recording := True, recordStore := [], recordStart := Some now,
           el_content := (el_content pg)(''btn-rec'' \<mapsto> TextContent ''&#9632; Stop''),
           el_class := (el_class pg)(''btn-rec'' \<mapsto> ''btn btn-rec recording''), rec_shown := True \<rparr>))\<lparr> exp_disabled := True \<rparr>
      else pg\<lparr> recording := False,
           el_content := (el_content pg)(''btn-rec'' \<mapsto> InnerHTML ''&#9679; Record''),
           el_class := (el_class pg)(''btn-rec'' \<mapsto> ''btn btn-rec''), rec_shown := False, exp_disabled := (recordStore pg = []) \<rparr>)"

definition click_sort :: "browser \<Rightarrow> sort_col \<Rightarrow> page \<Rightarrow> page" where
  "click_sort b col pg =
     (let pg1 = (if sortCol pg = col then pg\<lparr> sortDesc := \<not> sortDesc pg \<rparr> else pg\<lparr> sortCol := col, sortDesc := (col = Ts) \<rparr>)
      in renderLog b (pg1\<lparr> hdr_sorted := (\<lambda>c. if c = col then (True, sortDesc pg1) else (False, False)) \<rparr>))"

text \<open>A row with details opens and closes.\<close>

definition click_row :: "int \<Rightarrow> page \<Rightarrow> page" where
  "click_row sq pg = pg\<lparr> log_rows := map (\<lambda>r. if row_seq r = sq \<and> row_detail r \<noteq> None
     then r\<lparr> row_open := \<not> row_open r \<rparr> else r) (log_rows pg) \<rparr>"

text \<open>The exported file: its name and its lines.  \<open>JSON.parse\<close> of a payload may throw.\<close>

datatype js_error = SyntaxError

definition export_line :: "browser \<Rightarrow> js_entry \<Rightarrow> js_error + string" where
  "export_line b e =
     (let line = (\<lambda>pl. Inr (bw_object b [(''time'', Str (bw_iso b (je_timestamp_ms e))), (''channel'', Str (je_channel e)),
            (''summary'', Str (je_summary e)), (''payload'', pl)]))
      in if truthy (je_payload e)
         then (case bw_parse b (the (je_payload e)) of Some v \<Rightarrow> line v | None \<Rightarrow> Inl SyntaxError)
         else line Null)"

fun export_lines :: "browser \<Rightarrow> js_entry list \<Rightarrow> js_error + string list" where
  "export_lines b [] = Inr []"
| "export_lines b (e # es) = (case export_line b e of
      Inl err \<Rightarrow> Inl err
    | Inr l \<Rightarrow> (case export_lines b es of Inl err \<Rightarrow> Inl err | Inr ls \<Rightarrow> Inr (l # ls)))"

definition click_export :: "browser \<Rightarrow> page \<Rightarrow> js_error + (string \<times> string) option" where
  "click_export b pg =
     (if exp_disabled pg \<or> recordStore pg = [] then Inr None
      else let t = (case recordStart pg of Some t \<Rightarrow> t | None \<Rightarrow> 0);
               ts = take 19 (map (\<lambda>c. if c = CHR '':'' \<or> c = CHR ''.'' then CHR ''-'' else c) (bw_iso b t))
           in case export_lines b (recordStore pg) of
                Inl err \<Rightarrow> Inl err
              | Inr ls \<Rightarrow> Inr (Some (''seestar-traffic-'' @ ts @ ''.jsonl'', join_with [CHR 0x0A] ls @ [CHR 0x0A])))"

section \<open>What the handlers keep\<close>

text \<open>Most of what the script does concerns the elements of the page only.\<close>

definition log_part :: "page \<Rightarrow> int \<times> js_entry list \<times> bool \<times> js_entry list \<times> sort_col \<times> bool \<times> page_row list" where
  "log_part pg = (lastSeq pg, logStore pg, recording pg, recordStore pg, sortCol pg, sortDesc pg, log_rows pg)"

lemma log_part_eq:
  "log_part pg = log_part pg' \<longleftrightarrow> lastSeq pg = lastSeq pg' \<and> logStore pg = logStore pg' \<and> recording pg = recording pg' \<and>
     recordStore pg = recordStore pg' \<and> sortCol pg = sortCol pg' \<and> sortDesc pg = sortDesc pg' \<and> log_rows pg = log_rows pg'"
  by (simp add: log_part_def)

lemma page_frame [frame_simps]:
  "log_part (set_texts kvs pg) = log_part pg" "log_part (conn i up pg) = log_part pg" "log_part (drawChart b pg) = log_part pg"
  "log_part (updateTelescopeStatus b now ts pg) = log_part pg" "log_part (updateRecInfo b now pg) = log_part pg"
  "log_part (on_error pg) = log_part pg" "log_part (on_connect pg) = log_part pg"
  by (simp_all add: log_part_def set_texts_def conn_def drawChart_def updateTelescopeStatus_def status_badge_def badge_def
      updateRecInfo_def on_error_def on_connect_def Let_def)

text \<open>The rows are the stored entries in the chosen order.\<close>

definition rows_ok :: "page \<Rightarrow> bool" where
  "rows_ok pg \<longleftrightarrow> map row_seq (log_rows pg) = map je_seq (Sorting_Algorithms.sort (entry_order (sortCol pg) (sortDesc pg)) (logStore pg))"

lemma rows_ok_cong: "log_part pg = log_part pg' \<Longrightarrow> rows_ok pg = rows_ok pg'"
  by (simp add: log_part_eq rows_ok_def)

lemma renderLog_frame:
  "lastSeq (renderLog b pg) = lastSeq pg" "logStore (renderLog b pg) = logStore pg" "recording (renderLog b pg) = recording pg"
  "recordStore (renderLog b pg) = recordStore pg" "rows_ok (renderLog b pg)"
  by (simp_all add: renderLog_def set_texts_def rows_ok_def buildEntry_def comp_def Let_def)

lemma click_sort_frame:
  "lastSeq (click_sort b col pg) = lastSeq pg" "logStore (click_sort b col pg) = logStore pg"
  "recording (click_sort b col pg) = recording pg" "recordStore (click_sort b col pg) = recordStore pg" "rows_ok (click_sort b col pg)"
  by (simp_all add: click_sort_def renderLog_frame Let_def)

lemma click_row_frame:
  "lastSeq (click_row sq pg) = lastSeq pg" "logStore (click_row sq pg) = logStore pg" "recording (click_row sq pg) = recording pg"
  "recordStore (click_row sq pg) = recordStore pg" "rows_ok (click_row sq pg) = rows_ok pg"
proof -
  have "map row_seq (log_rows (click_row sq pg)) = map row_seq (log_rows pg)" by (simp add: click_row_def)
  moreover have "sortCol (click_row sq pg) = sortCol pg" "sortDesc (click_row sq pg) = sortDesc pg" "logStore (click_row sq pg) = logStore pg"
    by (simp_all add: click_row_def)
  ultimately show "rows_ok (click_row sq pg) = rows_ok pg" by (simp only: rows_ok_def)
qed (simp_all add: click_row_def)

lemma click_record_frame:
  "lastSeq (click_record b now pg) = lastSeq pg" "logStore (click_record b now pg) = logStore pg"
  "recording (click_record b now pg) = (\<not> recording pg)"
  "recordStore (click_record b now pg) = (if recording pg then recordStore pg else [])" "rows_ok (click_record b now pg) = rows_ok pg"
  by (simp_all add: click_record_def updateRecInfo_def rows_ok_def Let_def)

section \<open>What a message adds\<close>

lemma append_entry_pair:
  "append_entry e (changed, pg) = (if je_seq e \<le> lastSeq pg then (changed, pg)
     else (True, pg\<lparr> lastSeq := je_seq e, logStore := logStore pg @ [e],
                     recordStore := (if recording pg then recordStore pg @ [e] else recordStore pg) \<rparr>))"
  by (simp add: append_entry_def)

text \<open>Entries are numbered, and those that were seen are passed over.\<close>

lemma fold_append_entry:
  assumes "\<forall>i < n. je_seq (f i) = int i" and "lastSeq pg = int l - 1"
  shows "fold append_entry (map f [a ..< n]) (False, pg) =
    (if max a l < n then (True, pg\<lparr> lastSeq := int n - 1, logStore := logStore pg @ map f [max a l ..< n],
       recordStore := (if recording pg then recordStore pg @ map f [max a l ..< n] else recordStore pg) \<rparr>) else (False, pg))"
  using assms(1)
proof (induction n)
  case (Suc n)
  then have IH: "fold append_entry (map f [a ..< n]) (False, pg) =
    (if max a l < n then (True, pg\<lparr> lastSeq := int n - 1, logStore := logStore pg @ map f [max a l ..< n],
       recordStore := (if recording pg then recordStore pg @ map f [max a l ..< n] else recordStore pg) \<rparr>) else (False, pg))"
    and s: "je_seq (f n) = int n" by simp_all
  consider "n < a" | "a \<le> n" "max a l < n" | "a \<le> n" "n \<le> max a l" "l \<le> n" | "a \<le> n" "n < l" by linarith
  then show ?case
  proof cases
    case 1
    then show ?thesis by simp
  next
    case 2
    then show ?thesis using IH s by (simp add: append_entry_pair)
  next
    case 3
    then have "max a l = n" by simp
    with 3 show ?thesis using IH s assms(2) by (simp add: append_entry_pair)
  next
    case 4
    then show ?thesis using IH s assms(2) by (simp add: append_entry_pair)
  qed
qed simp

lemma appendLog_result:
  assumes "\<forall>i < n. je_seq (f i) = int i" and "lastSeq pg = int l - 1" and pg': "pg' = appendLog b now (map f [a ..< n]) pg"
  shows "lastSeq pg' = (if max a l < n then int n - 1 else lastSeq pg)"
    "logStore pg' = (if max a l < n then filter (\<lambda>e. now - LOG_WINDOW_MS \<le> je_timestamp_ms e) (logStore pg @ map f [max a l ..< n]) else logStore pg)"
    "recording pg' = recording pg"
    "recordStore pg' = (if recording pg then recordStore pg @ map f [max a l ..< n] else recordStore pg)"
    "rows_ok pg \<Longrightarrow> rows_ok pg'"
proof -
  have info: "lastSeq (updateRecInfo b now p) = lastSeq p" "logStore (updateRecInfo b now p) = logStore p"
    "recording (updateRecInfo b now p) = recording p" "recordStore (updateRecInfo b now p) = recordStore p"
    "rows_ok (updateRecInfo b now p) = rows_ok p" for p
    using page_frame(5) [of b now p] rows_ok_cong [OF page_frame(5) [of b now p]] by (simp_all add: log_part_eq)
  show "lastSeq pg' = (if max a l < n then int n - 1 else lastSeq pg)"
    "logStore pg' = (if max a l < n then filter (\<lambda>e. now - LOG_WINDOW_MS \<le> je_timestamp_ms e) (logStore pg @ map f [max a l ..< n]) else logStore pg)"
    "recording pg' = recording pg"
    "recordStore pg' = (if recording pg then recordStore pg @ map f [max a l ..< n] else recordStore pg)"
    "rows_ok pg \<Longrightarrow> rows_ok pg'"
    unfolding pg' appendLog_def fold_append_entry [OF assms(1,2)]
    by (auto simp: renderLog_frame info Let_def simp del: max_less_iff_conj)
qed

lemma update_result:
  assumes "\<forall>i < n. je_seq (f i) = int i" and "lastSeq pg = int l - 1" and "st_log_entries s = map f [a ..< n]"
    and pg': "pg' = update b now s pg"
  shows "lastSeq pg' = (if max a l < n then int n - 1 else lastSeq pg)"
    "logStore pg' = (if max a l < n then filter (\<lambda>e. now - LOG_WINDOW_MS \<le> je_timestamp_ms e) (logStore pg @ map f [max a l ..< n]) else logStore pg)"
    "recording pg' = recording pg"
    "recordStore pg' = (if recording pg then recordStore pg @ map f [max a l ..< n] else recordStore pg)"
    "rows_ok pg \<Longrightarrow> rows_ok pg'"
proof -
  define pg1 where "pg1 = conn ''si'' (st_upstream_imaging_up s) (conn ''sc'' (st_upstream_control_up s) (set_texts (stat_texts b s) pg))"
  define pg2 where "pg2 = drawChart b (pg1\<lparr> ch := push_sample (st_control_rx_rate s) (ch pg1), ih := push_sample (st_imaging_frame_rate s) (ih pg1) \<rparr>)"
  have "log_part pg2 = log_part pg1" unfolding pg2_def page_frame(3) by (simp add: log_part_def)
  then have p2: "log_part pg2 = log_part pg" unfolding pg1_def page_frame(1,2) .
  have e: "appendLog b now [] pg2 = pg2" by (simp add: appendLog_def)
  have "pg' = updateTelescopeStatus b now (st_telescope_status s) (if st_log_entries s \<noteq> [] then appendLog b now (st_log_entries s) pg2 else pg2)"
    by (simp add: pg' update_def pg2_def pg1_def Let_def)
  then have "pg' = updateTelescopeStatus b now (st_telescope_status s) (appendLog b now (st_log_entries s) pg2)" by (simp add: e)
  then have p: "log_part pg' = log_part (appendLog b now (map f [a ..< n]) pg2)" using assms(3) page_frame(4) by simp
  have l: "lastSeq pg2 = int l - 1" using p2 assms(2) by (simp add: log_part_eq)
  note r = appendLog_result [OF assms(1) l refl, of b now a]
  show "lastSeq pg' = (if max a l < n then int n - 1 else lastSeq pg)"
    "logStore pg' = (if max a l < n then filter (\<lambda>e. now - LOG_WINDOW_MS \<le> je_timestamp_ms e) (logStore pg @ map f [max a l ..< n]) else logStore pg)"
    "recording pg' = recording pg"
    "recordStore pg' = (if recording pg then recordStore pg @ map f [max a l ..< n] else recordStore pg)"
    using r(1-4) p p2 by (auto simp: log_part_eq simp del: max_less_iff_conj)
  show "rows_ok pg \<Longrightarrow> rows_ok pg'" using r(5) rows_ok_cong [OF p2] rows_ok_cong [OF p] by blast
qed

end
