(* ===== verification/Dashboard_Session.thy ===== *)
theory Dashboard_Session
  imports Dashboard_Page
begin

text \<open>
  The dashboard as a whole: the proxy logs traffic, its event stream sends a message every second, the
  page handles it; the connection may break and be made again, and the user clicks.
  \<open>dash_run\<close> runs any sequence of these.  The locale \<open>page_contract\<close> says what a property of the page must
  keep; what the server sends is worked out in it once.
\<close>

section \<open>What the page reads\<close>

definition js_i64 :: "int \<Rightarrow> int" where
  "js_i64 n = (if 0 \<le> n then js_round (uint (of_int n :: u64)) else js_round (sint (of_int n :: i64)))"

definition page_entry :: "log_entry \<Rightarrow> js_entry" where
  "page_entry e = \<lparr> je_seq = js_round (uint (seq e)), je_timestamp_ms = js_round (uint (timestamp_ms e)),
     je_channel = channel e, je_summary = summary e, je_payload = payload e \<rparr>"

definition page_status :: "telescope_status \<Rightarrow> js_status" where
  "page_status s = \<lparr> jt_battery = map_option js_i64 (battery s),
     jt_temperature = Option.bind (temperature s) (\<lambda>x. if f64_exp x = 2047 then None else Some x),
     jt_is_stacking = is_stacking s, jt_stack_count = js_i64 (stack_count s), jt_is_goto = is_goto s, jt_is_homing = is_homing s,
     jt_tracking = tracking s, jt_view_mode = view_mode s, jt_charger_status = charger_status s, jt_last_event = last_event s,
     jt_last_event_ts_ms = js_round (uint (last_event_ts_ms s)) \<rparr>"

definition page_stats :: "u64 \<Rightarrow> metrics \<Rightarrow> f64 \<Rightarrow> f64 \<Rightarrow> f64 \<Rightarrow> log_entry list \<Rightarrow> js_stats" where
  "page_stats up m r1 r2 bps es =
     \<lparr> st_uptime_ms = js_round (uint up), st_control_clients = js_i64 (sint (control_clients m)),
       st_imaging_clients = js_i64 (sint (imaging_clients m)), st_control_rx = js_round (uint (control_rx m)),
       st_control_tx = js_round (uint (control_tx m)), st_control_events = js_round (uint (control_events m)),
       st_imaging_frames = js_round (uint (imaging_frames m)), st_imaging_bytes = js_round (uint (imaging_bytes m)),
       st_upstream_control_up = upstream_control_up m, st_upstream_imaging_up = upstream_imaging_up m,
       st_control_rx_rate = r1, st_imaging_frame_rate = r2, st_imaging_bytes_rate = js_round (uint (f64_as_u64 bps)),
       st_log_entries = map page_entry es, st_telescope_status = page_status (telescope_status m) \<rparr>"

lemma js_int_written: "js_int (json_u64 n) = Some (js_round (uint n))" "js_int (json_i64 i) = Some (js_i64 i)"
  by (simp_all add: js_int_def json_u64_def json_i64_def js_i64_def)

lemma js_nullable_written:
  "js_nullable as_str (json_opt Str v) = Some v" "js_nullable js_int (json_opt json_i64 w) = Some (map_option js_i64 w)"
  "js_nullable as_f64 (json_opt json_f64 x) = Some (Option.bind x (\<lambda>x. if f64_exp x = 2047 then None else Some x))"
proof -
  show "js_nullable as_str (json_opt Str v) = Some v" by (cases v) (simp_all add: js_nullable_def json_opt_def)
  have "json_i64 i \<noteq> Null" for i by (simp add: json_i64_def)
  then show "js_nullable js_int (json_opt json_i64 w) = Some (map_option js_i64 w)"
    by (cases w) (simp_all add: js_nullable_def json_opt_def js_int_written)
  show "js_nullable as_f64 (json_opt json_f64 x) = Some (Option.bind x (\<lambda>x. if f64_exp x = 2047 then None else Some x))"
    by (cases x) (simp_all add: js_nullable_def json_opt_def json_f64_def as_f64_def)
qed

lemma read_entry_json: "read_entry (entry_json e) = Some (page_entry e)"
  by (simp add: read_entry_def entry_json_def js_get_def js_int_written js_nullable_written page_entry_def as_str_def)

lemma read_status_json: "read_status (status_json s) = Some (page_status s)"
  by (simp add: read_status_def status_json_def js_get_def js_int_written js_nullable_written page_status_def as_bool_def)

lemma read_entries_json: "js_array read_entry (Arr (map entry_json es)) = Some (map page_entry es)"
  unfolding js_array_def json.case by (induction es) (simp_all add: read_entry_json)

lemma read_payload:
  assumes "f64_exp r1 < 2047" and "f64_exp r2 < 2047"
  shows "read_stats (build_payload up m r1 r2 bps es) = Some (page_stats up m r1 r2 bps es)"
  using assms by (simp add: read_stats_def build_payload_def js_get_def js_int_written read_entries_json read_status_json
      page_stats_def json_f64_def as_f64_def as_bool_def)

section \<open>Runs\<close>

datatype dash_act = Logged log_call | Tick f64 u64 | Lost | Connect | ClickRecord | ClickSort sort_col | ClickRow int

record dash =
  da_metrics :: metrics
  da_stream :: "sse_state option"
  da_page :: page

text \<open>One action at time \<open>now\<close>; \<open>None\<close> if the script throws.  The log and the streams are those of the proxy,
  a new connection is a new stream.\<close>

fun dash_step :: "browser \<Rightarrow> json_codec \<Rightarrow> int \<times> dash_act \<Rightarrow> dash \<Rightarrow> dash option" where
  "dash_step b J (now, Logged c) d = Some (d\<lparr> da_metrics := push_logs [c] (da_metrics d) \<rparr>)"
| "dash_step b J (now, Tick secs up) d = (case da_stream d of
      None \<Rightarrow> Some d
    | Some s \<Rightarrow> (case sse_tick secs up (da_metrics d) s of (pl, _, s') \<Rightarrow>
        map_option (\<lambda>pg. d\<lparr> da_stream := Some s', da_page := pg \<rparr>) (on_message b now (sse_event J pl) (da_page d))))"
| "dash_step b J (now, Lost) d = Some (d\<lparr> da_stream := None, da_page := on_error (da_page d) \<rparr>)"
| "dash_step b J (now, Connect) d = Some (d\<lparr> da_stream := Some sse_new, da_page := on_connect (da_page d) \<rparr>)"
| "dash_step b J (now, ClickRecord) d = Some (d\<lparr> da_page := click_record b now (da_page d) \<rparr>)"
| "dash_step b J (now, ClickSort col) d = Some (d\<lparr> da_page := click_sort b col (da_page d) \<rparr>)"
| "dash_step b J (now, ClickRow sq) d = Some (d\<lparr> da_page := click_row sq (da_page d) \<rparr>)"

fun dash_run :: "browser \<Rightarrow> json_codec \<Rightarrow> (int \<times> dash_act) list \<Rightarrow> dash \<Rightarrow> dash option" where
  "dash_run b J [] d = Some d"
| "dash_run b J (a # as) d = Option.bind (dash_step b J a d) (dash_run b J as)"

text \<open>A page opened on a proxy that has just started, or on one that was started again meanwhile.\<close>

definition dash_start :: "page \<Rightarrow> dash" where
  "dash_start pg = \<lparr> da_metrics = metrics_new, da_stream = None, da_page = pg \<rparr>"

text \<open>The messages of a run, which the page must be able to parse.\<close>

fun dash_payloads :: "(int \<times> dash_act) list \<Rightarrow> metrics \<Rightarrow> sse_state option \<Rightarrow> json list" where
  "dash_payloads [] m st = []"
| "dash_payloads ((now, Logged c) # as) m st = dash_payloads as (push_logs [c] m) st"
| "dash_payloads ((now, Tick secs up) # as) m st = (case st of
      None \<Rightarrow> dash_payloads as m st
    | Some s \<Rightarrow> (case sse_tick secs up m s of (pl, _, s') \<Rightarrow> pl # dash_payloads as m (Some s')))"
| "dash_payloads ((now, Lost) # as) m st = dash_payloads as m None"
| "dash_payloads ((now, Connect) # as) m st = dash_payloads as m (Some sse_new)"
| "dash_payloads ((now, act) # as) m st = dash_payloads as m st"

definition parses_messages :: "browser \<Rightarrow> json_codec \<Rightarrow> (int \<times> dash_act) list \<Rightarrow> bool" where
  "parses_messages b J as \<longleftrightarrow> (\<forall>pl \<in> set (dash_payloads as metrics_new None). bw_parse b (sse_event J pl) = Some pl)"

definition forward_time :: "(int \<times> dash_act) list \<Rightarrow> bool" where
  "forward_time as \<longleftrightarrow> (\<forall>(now, act) \<in> set as. case act of Tick secs up \<Rightarrow> \<not> f64_sign secs | _ \<Rightarrow> True)"

definition logged :: "(int \<times> dash_act) list \<Rightarrow> log_call list" where
  "logged as = concat (map (\<lambda>(now, act). case act of Logged c \<Rightarrow> [c] | _ \<Rightarrow> []) as)"

lemma logged_append [simp]: "logged (as @ bs) = logged as @ logged bs"
  by (simp add: logged_def)

lemma logged_one [simp]: "logged [(now, act)] = (case act of Logged c \<Rightarrow> [c] | _ \<Rightarrow> [])"
  by (simp add: logged_def)

section \<open>What the stream sends\<close>

text \<open>The \<open>n\<close>-th entry of the log of the calls \<open>cs\<close>, as the server keeps it and as the page sees it.\<close>

definition nth_entry :: "log_call list \<Rightarrow> nat \<Rightarrow> log_entry" where
  "nth_entry cs n = (case cs ! n of (now, c, s, p) \<Rightarrow>
     \<lparr> seq = of_nat n, elapsed_ms = now_elapsed_ms now, timestamp_ms = now_epoch_ms now, channel = c, summary = s, payload = p \<rparr>)"

definition shown :: "log_call list \<Rightarrow> nat \<Rightarrow> js_entry" where
  "shown cs n = page_entry (nth_entry cs n)"

lemma nth_entry_append: "n < length cs \<Longrightarrow> nth_entry (cs @ ds) n = nth_entry cs n"
  by (simp add: nth_entry_def nth_append)

lemma shown_append: "n < length cs \<Longrightarrow> shown (cs @ ds) n = shown cs n"
  by (simp add: shown_def nth_entry_append)

lemma shown_seq: "n < 2 ^ 53 \<Longrightarrow> je_seq (shown cs n) = int n"
proof -
  assume n: "n < 2 ^ 53"
  then have u: "unat (of_nat n :: u64) = n" by (simp add: unat_of_nat)
  then have "uint (of_nat n :: u64) = int n" by (metis uint_nat)
  with u show ?thesis using f64_nat_exact [OF n] by (simp add: shown_def page_entry_def nth_entry_def js_round_def split: prod.split)
qed

lemma push_logs_snoc: "push_logs (cs @ [c]) m = push_logs [c] (push_logs cs m)"
  by (simp add: push_logs_def)

lemma log_history:
  "log (push_logs cs metrics_new) = last_n LOG_CAPACITY (map (nth_entry cs) [0 ..< length cs]) \<and>
     log_seq (push_logs cs metrics_new) = of_nat (length cs)"
proof (induction cs rule: rev_induct)
  case (snoc c cs)
  obtain now ch smry pl where c: "c = (now, ch, smry, pl)" by (cases c)
  let ?m = "push_logs cs metrics_new"
  have h: "map (nth_entry (cs @ [c])) [0 ..< length (cs @ [c])] = map (nth_entry cs) [0 ..< length cs] @ [nth_entry (cs @ [c]) (length cs)]"
    by (simp add: nth_entry_append)
  have e: "nth_entry (cs @ [c]) (length cs) = \<lparr> seq = of_nat (length cs), elapsed_ms = now_elapsed_ms now,
      timestamp_ms = now_epoch_ms now, channel = ch, summary = smry, payload = pl \<rparr>" by (simp add: nth_entry_def c)
  have "log (push_logs [c] ?m) = log_append (log ?m) (nth_entry (cs @ [c]) (length cs))" "log_seq (push_logs [c] ?m) = log_seq ?m + 1"
    using snoc.IH e unfolding c by (simp_all add: push_logs_def [of "[x]" for x] push_log_with_payload_def Let_def)
  then show ?case using snoc.IH by (simp only: push_logs_snoc h) (simp add: log_append_last_n last_n_append)
qed (simp add: push_logs_def metrics_new_def last_n_def)

text \<open>The entries of one message: those of the last 100 that the stream has not sent yet.\<close>

definition stream_at :: "sse_state \<Rightarrow> nat \<Rightarrow> bool" where
  "stream_at s pos \<longleftrightarrow> next_log_seq s = None \<and> pos = 0 \<or> next_log_seq s = Some (of_nat pos)"

definition unsent :: "log_call list \<Rightarrow> nat \<Rightarrow> log_entry list" where
  "unsent cs pos = map (nth_entry cs) [max pos (length cs - LOG_CAPACITY) ..< length cs]"

lemma filter_map_upt: "filter (\<lambda>x. P x) (map f [a ..< c]) = map f (filter (\<lambda>i. P (f i)) [a ..< c])"
  by (simp add: filter_map comp_def)

lemma log_since_unsent:
  assumes "stream_at s pos" and "pos \<le> length cs" and "length cs < 2 ^ 64"
  shows "log_since (next_log_seq s) (push_logs cs metrics_new) = unsent cs pos"
proof -
  let ?a = "length cs - LOG_CAPACITY"
  have l: "log (push_logs cs metrics_new) = map (nth_entry cs) [?a ..< length cs]"
    using log_history [of cs] by (simp add: last_n_def drop_map)
  have le: "(of_nat pos :: u64) \<le> seq (nth_entry cs i) \<longleftrightarrow> pos \<le> i" if "i \<in> set [?a ..< length cs]" for i
    using that assms(2,3) by (simp add: nth_entry_def word_le_nat_alt unat_of_nat split: prod.split)
  show ?thesis
  proof (cases "next_log_seq s")
    case None
    with assms(1) l show ?thesis by (simp add: stream_at_def log_since_def unsent_def)
  next
    case (Some n)
    then have n: "n = of_nat pos" using assms(1) by (auto simp: stream_at_def)
    have "filter (\<lambda>i. (of_nat pos :: u64) \<le> seq (nth_entry cs i)) [?a ..< length cs] = filter (\<lambda>i. pos \<le> i) [?a ..< length cs]"
      using le by (rule filter_cong [OF refl])
    then show ?thesis using Some n l by (simp add: log_since_def unsent_def filter_map_upt filter_ge_upt)
  qed
qed

lemma tick_unsent:
  assumes "stream_at s pos" and "pos \<le> length cs" and "length cs < 2 ^ 64" and "\<not> f64_sign secs"
    and "sse_tick secs up (push_logs cs metrics_new) s = (pl, es, s')"
  shows "\<exists>st. read_stats pl = Some st \<and> st_log_entries st = map page_entry (unsent cs pos)" "stream_at s' (length cs)"
proof -
  have es: "es = unsent cs pos" and n: "next_log_seq s' = advance_seq (next_log_seq s) es"
    using assms(5) log_since_unsent [OF assms(1-3)] by (auto simp: sse_tick_def Let_def)
  show "\<exists>st. read_stats pl = Some st \<and> st_log_entries st = map page_entry (unsent cs pos)"
    using assms(5) rate_finite [OF assms(4)] log_since_unsent [OF assms(1-3)]
    by (auto simp: sse_tick_def Let_def read_payload page_stats_def)
  show "stream_at s' (length cs)"
  proof (cases "es = []")
    case True
    then have "length cs \<le> max pos (length cs - LOG_CAPACITY)" by (auto simp: es unsent_def)
    then have "pos = length cs" using assms(2) unfolding LOG_CAPACITY_def by arith
    then show ?thesis using True n assms(1) by (auto simp: advance_seq_def stream_at_def)
  next
    case False
    let ?a = "max pos (length cs - LOG_CAPACITY)"
    have ne: "[?a ..< length cs] \<noteq> []" using False by (auto simp: es unsent_def)
    moreover have "last [i ..< j] = j - 1 \<and> 0 < j" if "[i ..< j] \<noteq> []" for i j :: nat using that by (cases j) auto
    ultimately have "last [?a ..< length cs] = length cs - 1" "0 < length cs" by blast+
    then have "last es = nth_entry cs (length cs - 1)" "0 < length cs" using last_map [OF ne] by (simp_all only: es unsent_def)
    then have "seq (last es) + 1 = of_nat (length cs)" by (cases "length cs") (simp_all add: nth_entry_def split: prod.splits)
    then show ?thesis using n False by (simp add: advance_seq_def stream_at_def)
  qed
qed

section \<open>Properties of the page\<close>

text \<open>The position of a stream, when \<open>n\<close> entries have been logged.\<close>

definition follows :: "nat \<Rightarrow> sse_state option \<Rightarrow> nat option \<Rightarrow> bool" where
  "follows n st pos \<longleftrightarrow> (case pos of None \<Rightarrow> st = None | Some k \<Rightarrow> k \<le> n \<and> (\<exists>s. st = Some s \<and> stream_at s k))"

text \<open>A property of the actions so far, the position of the open stream and the page.\<close>

locale page_contract =
  fixes b :: browser and I :: "(int \<times> dash_act) list \<Rightarrow> nat option \<Rightarrow> page \<Rightarrow> bool"
  assumes logged: "I as pos pg \<Longrightarrow> I (as @ [(now, Logged c)]) pos pg"
    and message: "I as (Some n) pg \<Longrightarrow> n \<le> length (logged as) \<Longrightarrow> length (logged as) < 2 ^ 53 \<Longrightarrow>
      st_log_entries st = map page_entry (unsent (logged as) n) \<Longrightarrow>
      I (as @ [(now, Tick secs up)]) (Some (length (logged as))) (update b now st pg)"
    and no_stream: "I as None pg \<Longrightarrow> I (as @ [(now, Tick secs up)]) None pg"
    and lost: "I as pos pg \<Longrightarrow> I (as @ [(now, Lost)]) None (on_error pg)"
    and connect: "I as pos pg \<Longrightarrow> I (as @ [(now, Connect)]) (Some 0) (on_connect pg)"
    and toggle: "I as pos pg \<Longrightarrow> I (as @ [(now, ClickRecord)]) pos (click_record b now pg)"
    and sort: "I as pos pg \<Longrightarrow> I (as @ [(now, ClickSort col)]) pos (click_sort b col pg)"
    and row: "I as pos pg \<Longrightarrow> I (as @ [(now, ClickRow sq)]) pos (click_row sq pg)"
begin

definition holds :: "(int \<times> dash_act) list \<Rightarrow> dash \<Rightarrow> bool" where
  "holds as d \<longleftrightarrow> da_metrics d = push_logs (logged as) metrics_new \<and>
     (\<exists>pos. I as pos (da_page d) \<and> follows (length (logged as)) (da_stream d) pos)"

lemma holdsI:
  "da_metrics d = push_logs (logged as) metrics_new \<Longrightarrow> I as pos (da_page d) \<Longrightarrow>
     follows (length (logged as)) (da_stream d) pos \<Longrightarrow> holds as d"
  by (auto simp: holds_def)

lemma holds_tick:
  assumes "holds as d" and "length (logged as) < 2 ^ 53" and "\<not> f64_sign secs"
    and "\<And>s pl es s'. da_stream d = Some s \<Longrightarrow> sse_tick secs up (da_metrics d) s = (pl, es, s') \<Longrightarrow> bw_parse b (sse_event J pl) = Some pl"
  shows "\<exists>d'. dash_step b J (now, Tick secs up) d = Some d' \<and> holds (as @ [(now, Tick secs up)]) d'"
proof -
  obtain pos where m: "da_metrics d = push_logs (logged as) metrics_new" and i: "I as pos (da_page d)"
    and st: "follows (length (logged as)) (da_stream d) pos" using assms(1) by (auto simp: holds_def)
  show ?thesis
  proof (cases pos)
    case None
    then have "da_stream d = None" using st by (simp add: follows_def)
    then show ?thesis using m no_stream [of as "da_page d"] i None by (auto simp: follows_def intro!: holdsI [where pos = None])
  next
    case (Some n)
    then obtain s where s: "da_stream d = Some s" "stream_at s n" and n: "n \<le> length (logged as)" using st by (auto simp: follows_def)
    obtain pl es s' where t: "sse_tick secs up (da_metrics d) s = (pl, es, s')" by (cases "sse_tick secs up (da_metrics d) s")
    have lt: "length (logged as) < 2 ^ 64" using assms(2) by simp
    obtain v where v: "read_stats pl = Some v" "st_log_entries v = map page_entry (unsent (logged as) n)"
      and s': "stream_at s' (length (logged as))"
      using tick_unsent [OF s(2) n lt assms(3) t [unfolded m]] by blast
    have "I (as @ [(now, Tick secs up)]) (Some (length (logged as))) (update b now v (da_page d))"
      using message [OF _ n assms(2) v(2)] i Some by simp
    with s' m s(1) t v(1) assms(4) [OF s(1) t] show ?thesis
      by (auto simp: follows_def on_message_def intro!: holdsI [where pos = "Some (length (logged as))"])
  qed
qed

lemma holds_other:
  assumes "holds as d" and "\<nexists>secs up. act = Tick secs up"
  shows "\<exists>d'. dash_step b J (now, act) d = Some d' \<and> holds (as @ [(now, act)]) d'"
proof -
  obtain pos where m: "da_metrics d = push_logs (logged as) metrics_new" and i: "I as pos (da_page d)"
    and st: "follows (length (logged as)) (da_stream d) pos" using assms(1) by (auto simp: holds_def)
  have f: "follows n None None" "follows n (Some sse_new) (Some 0)" for n by (simp_all add: follows_def stream_at_def sse_new_def)
  have st': "follows (Suc (length (logged as))) (da_stream d) pos" using st by (auto simp: follows_def split: option.splits)
  show ?thesis
  proof (cases act)
    case (Logged c)
    have "holds (as @ [(now, act)]) (d\<lparr> da_metrics := push_logs [c] (da_metrics d) \<rparr>)"
      using m st' logged [OF i] Logged by (intro holdsI [where pos = pos]) (simp_all add: push_logs_snoc)
    then show ?thesis using Logged by simp
  next
    case Lost
    have "holds (as @ [(now, act)]) (d\<lparr> da_stream := None, da_page := on_error (da_page d) \<rparr>)"
      using m lost [OF i] Lost by (intro holdsI [where pos = None]) (simp_all add: f)
    then show ?thesis using Lost by simp
  next
    case Connect
    have "holds (as @ [(now, act)]) (d\<lparr> da_stream := Some sse_new, da_page := on_connect (da_page d) \<rparr>)"
      using m connect [OF i] Connect by (intro holdsI [where pos = "Some 0"]) (simp_all add: f)
    then show ?thesis using Connect by simp
  next
    case ClickRecord
    have "holds (as @ [(now, act)]) (d\<lparr> da_page := click_record b now (da_page d) \<rparr>)"
      using m st toggle [OF i] ClickRecord by (intro holdsI [where pos = pos]) simp_all
    then show ?thesis using ClickRecord by simp
  next
    case (ClickSort col)
    have "holds (as @ [(now, act)]) (d\<lparr> da_page := click_sort b col (da_page d) \<rparr>)"
      using m st sort [OF i] ClickSort by (intro holdsI [where pos = pos]) simp_all
    then show ?thesis using ClickSort by simp
  next
    case (ClickRow sq)
    have "holds (as @ [(now, act)]) (d\<lparr> da_page := click_row sq (da_page d) \<rparr>)"
      using m st row [OF i] ClickRow by (intro holdsI [where pos = pos]) simp_all
    then show ?thesis using ClickRow by simp
  qed (use assms(2) in auto)
qed

lemma dash_run_holds:
  assumes "holds as d" and "length (logged (as @ bs)) < 2 ^ 53" and "forward_time bs"
    and "\<forall>pl \<in> set (dash_payloads bs (da_metrics d) (da_stream d)). bw_parse b (sse_event J pl) = Some pl"
  shows "\<exists>d'. dash_run b J bs d = Some d' \<and> holds (as @ bs) d'"
  using assms
proof (induction bs arbitrary: as d)
  case (Cons a bs)
  obtain now act where a: "a = (now, act)" by (cases a)
  obtain d' where s: "dash_step b J (now, act) d = Some d'" and h: "holds (as @ [a]) d'"
    and rest: "\<forall>pl \<in> set (dash_payloads bs (da_metrics d') (da_stream d')). bw_parse b (sse_event J pl) = Some pl"
  proof (cases "\<exists>secs up. act = Tick secs up")
    case True
    then obtain secs up where act: "act = Tick secs up" by blast
    have t: "\<not> f64_sign secs" using Cons.prems(3) by (simp add: forward_time_def a act)
    have p: "bw_parse b (sse_event J pl) = Some pl" if "da_stream d = Some s" "sse_tick secs up (da_metrics d) s = (pl, es, s')" for s pl es s'
      using Cons.prems(4) that by (simp add: a act)
    have n: "length (logged as) < 2 ^ 53" using Cons.prems(2) by simp
    have "\<exists>d'. dash_step b J (now, Tick secs up) d = Some d' \<and> holds (as @ [(now, Tick secs up)]) d'"
      by (rule holds_tick [OF Cons.prems(1) n t]) (rule p)
    then obtain d' where d': "dash_step b J (now, act) d = Some d'" "holds (as @ [a]) d'" unfolding a act by blast
    moreover have "\<forall>pl \<in> set (dash_payloads bs (da_metrics d') (da_stream d')). bw_parse b (sse_event J pl) = Some pl"
      using d'(1) Cons.prems(4) by (auto simp: a act split: option.splits prod.splits)
    ultimately show ?thesis by (rule that)
  next
    case False
    obtain d' where d': "dash_step b J (now, act) d = Some d'" "holds (as @ [a]) d'"
      using holds_other [OF Cons.prems(1) False] unfolding a by blast
    moreover have "dash_payloads (a # bs) (da_metrics d) (da_stream d) = dash_payloads bs (da_metrics d') (da_stream d')"
      using d'(1) False by (cases act) (auto simp: a)
    ultimately show ?thesis using Cons.prems(4) that by simp
  qed
  moreover have "forward_time bs" using Cons.prems(3) by (simp add: forward_time_def)
  ultimately show ?case using Cons.IH [OF h] Cons.prems(2) by (simp add: a)
qed (simp add: holds_def)

lemma run_keeps:
  assumes "I [] None pg" and "length (logged as) < 2 ^ 53" and "forward_time as" and "parses_messages b J as"
  shows "\<exists>d pos. dash_run b J as (dash_start pg) = Some d \<and> I as pos (da_page d) \<and> follows (length (logged as)) (da_stream d) pos"
proof -
  have "holds [] (dash_start pg)" using assms(1)
    by (intro holdsI [where pos = None]) (simp_all add: dash_start_def follows_def logged_def push_logs_def)
  then show ?thesis using dash_run_holds [of "[]" "dash_start pg" as J] assms(2-4)
    by (auto simp: parses_messages_def dash_start_def holds_def)
qed

end

section \<open>The page keeps the log\<close>

text \<open>How many entries the page has not seen, whether it is connected, and whether there were never more
  than the server keeps when a message came.\<close>

fun gap_step :: "int \<times> dash_act \<Rightarrow> nat \<times> bool \<times> bool \<Rightarrow> nat \<times> bool \<times> bool" where
  "gap_step (now, Logged c) (k, on, ok) = (Suc k, on, ok)"
| "gap_step (now, Tick secs up) (k, on, ok) = (if on then (0, on, ok \<and> k \<le> LOG_CAPACITY) else (k, on, ok))"
| "gap_step (now, Lost) (k, on, ok) = (k, False, ok)"
| "gap_step (now, Connect) (k, on, ok) = (k, True, ok)"
| "gap_step (now, _) (k, on, ok) = (k, on, ok)"

definition gaps :: "(int \<times> dash_act) list \<Rightarrow> nat \<times> bool \<times> bool" where
  "gaps as = fold gap_step as (0, False, True)"

definition steady :: "(int \<times> dash_act) list \<Rightarrow> bool" where
  "steady as \<longleftrightarrow> snd (snd (gaps as))"

lemma gaps_snoc: "gaps (as @ [a]) = gap_step a (gaps as)"
  by (simp add: gaps_def)

text \<open>Entries in the order of the log, without repetition; and a run of consecutive ones.\<close>

definition entries_of :: "log_call list \<Rightarrow> nat \<Rightarrow> js_entry list \<Rightarrow> bool" where
  "entries_of cs l es \<longleftrightarrow> (\<exists>ns. sorted_wrt (<) ns \<and> (\<forall>n \<in> set ns. n < l) \<and> es = map (shown cs) ns)"

definition run_of :: "log_call list \<Rightarrow> nat \<Rightarrow> bool \<Rightarrow> js_entry list \<Rightarrow> bool" where
  "run_of cs l rec es \<longleftrightarrow> (\<exists>i j. es = map (shown cs) [i ..< j] \<and> j \<le> l \<and> (rec \<longrightarrow> i < j \<longrightarrow> j = l))"

lemma map_shown_snoc: "\<forall>n \<in> set ns. n < length cs \<Longrightarrow> map (shown (cs @ [c])) ns = map (shown cs) ns"
  by (simp add: shown_append)

lemma entries_of_snoc: "entries_of cs l es \<Longrightarrow> l \<le> length cs \<Longrightarrow> entries_of (cs @ [c]) l es"
  unfolding entries_of_def using map_shown_snoc [of _ cs c] by (metis less_le_trans)

lemma run_of_snoc: "run_of cs l rec es \<Longrightarrow> l \<le> length cs \<Longrightarrow> run_of (cs @ [c]) l rec es"
  unfolding run_of_def using map_shown_snoc [of _ cs c] by (metis atLeastLessThan_iff less_le_trans set_upt)

lemma entries_of_Nil [simp]: "entries_of cs l []" by (simp add: entries_of_def)

lemma run_of_Nil [simp]: "run_of cs l rec []"
  unfolding run_of_def by (rule exI [of _ 0], rule exI [of _ 0]) simp

lemma entries_of_mono: "entries_of cs l es \<Longrightarrow> l \<le> l' \<Longrightarrow> entries_of cs l' es"
  unfolding entries_of_def by (metis less_le_trans)

lemma run_of_stopped: "run_of cs l rec es \<Longrightarrow> l \<le> l' \<Longrightarrow> run_of cs l' False es"
  unfolding run_of_def by (metis le_trans)

lemma entries_of_append:
  assumes "entries_of cs l es" and "l \<le> a" and "l \<le> n" shows "entries_of cs n (es @ map (shown cs) [a ..< n])"
proof -
  obtain ns where ns: "sorted_wrt (<) ns" "\<forall>n \<in> set ns. n < l" "es = map (shown cs) ns" using assms(1) by (auto simp: entries_of_def)
  show ?thesis unfolding entries_of_def
    by (rule exI [of _ "ns @ [a ..< n]"]) (use ns assms(2,3) in \<open>fastforce simp: sorted_wrt_append\<close>)
qed

lemma entries_of_filter:
  assumes "entries_of cs l es" shows "entries_of cs l (filter P es)"
proof -
  obtain ns where ns: "sorted_wrt (<) ns" "\<forall>n \<in> set ns. n < l" "es = map (shown cs) ns" using assms by (auto simp: entries_of_def)
  then show ?thesis unfolding entries_of_def
    by (intro exI [of _ "filter (P \<circ> shown cs) ns"]) (simp add: sorted_wrt_filter filter_map)
qed

lemma run_of_append:
  assumes "run_of cs l True es" and "l \<le> n" shows "run_of cs n True (es @ map (shown cs) [l ..< n])"
proof -
  obtain i j where es: "es = map (shown cs) [i ..< j]" "j \<le> l" "i < j \<longrightarrow> j = l" using assms(1) by (auto simp: run_of_def)
  show ?thesis
  proof (cases "i < j")
    case True
    then have "[i ..< j] @ [l ..< n] = [i ..< n]" using es(3) assms(2) upt_add_eq_append [of i l "n - l"] by simp
    then show ?thesis using es(1) unfolding run_of_def by (metis le_refl map_append)
  next
    case False
    then show ?thesis using es(1) assms(2) unfolding run_of_def by (intro exI [of _ l] exI [of _ n]) simp
  qed
qed

text \<open>The invariant: the page has seen the first \<open>l\<close> entries.\<close>

definition exact :: "(int \<times> dash_act) list \<Rightarrow> nat option \<Rightarrow> page \<Rightarrow> bool" where
  "exact as pos pg \<longleftrightarrow> (\<exists>l \<le> length (logged as). lastSeq pg = int l - 1 \<and>
     gaps as = (length (logged as) - l, pos \<noteq> None, steady as) \<and> (\<forall>n. pos = Some n \<longrightarrow> n = 0 \<or> n = l) \<and>
     entries_of (logged as) l (logStore pg) \<and> entries_of (logged as) l (recordStore pg) \<and>
     (steady as \<longrightarrow> run_of (logged as) l (recording pg) (recordStore pg)) \<and> rows_ok pg)"

lemma exact_other:
  assumes "exact as pos pg" and "lastSeq pg' = lastSeq pg" and "logStore pg' = logStore pg" and "rows_ok pg'"
    and "recording pg' = recording pg \<and> recordStore pg' = recordStore pg \<or> recordStore pg' = [] \<or>
      \<not> recording pg' \<and> recordStore pg' = recordStore pg"
    and "logged (as @ [a]) = logged as" and "pos' = None \<or> pos' = Some 0 \<or> pos' = pos"
    and "gap_step a (gaps as) = (fst (gaps as), pos' \<noteq> None, steady as)"
  shows "exact (as @ [a]) pos' pg'"
proof -
  obtain l where l: "l \<le> length (logged as)" "lastSeq pg = int l - 1" "gaps as = (length (logged as) - l, pos \<noteq> None, steady as)"
    "\<forall>n. pos = Some n \<longrightarrow> n = 0 \<or> n = l" "entries_of (logged as) l (logStore pg)" "entries_of (logged as) l (recordStore pg)"
    "steady as \<longrightarrow> run_of (logged as) l (recording pg) (recordStore pg)"
    using assms(1) by (auto simp: exact_def)
  have s: "steady (as @ [a]) = steady as" using assms(8) by (simp add: steady_def gaps_snoc)
  have r: "entries_of (logged as) l (recordStore pg')" "steady as \<longrightarrow> run_of (logged as) l (recording pg') (recordStore pg')"
    using assms(5) l(6,7) run_of_stopped [of "logged as" l] by auto
  show ?thesis unfolding exact_def assms(6) gaps_snoc s assms(8)
    by (rule exI [of _ l]) (use l r assms(2,3,4,7) in auto)
qed

lemma exact_message:
  assumes "exact as (Some n) pg" and "length (logged as) < 2 ^ 53" and "st_log_entries st = map page_entry (unsent (logged as) n)"
  shows "exact (as @ [(now, Tick secs up)]) (Some (length (logged as))) (update b now st pg)"
proof -
  let ?cs = "logged as" and ?pg = "update b now st pg"
  let ?n = "length ?cs"
  obtain l where l: "l \<le> ?n" "lastSeq pg = int l - 1" "gaps as = (?n - l, True, steady as)"
    "n = 0 \<or> n = l" "entries_of ?cs l (logStore pg)" "entries_of ?cs l (recordStore pg)"
    "steady as \<longrightarrow> run_of ?cs l (recording pg) (recordStore pg)" "rows_ok pg"
    using assms(1) by (auto simp: exact_def)
  define a where "a = max (max n (?n - LOG_CAPACITY)) l"
  have a: "l \<le> a" "a < ?n \<longleftrightarrow> l < ?n" "?n - l \<le> LOG_CAPACITY \<Longrightarrow> a = l" using l(1,4) by (auto simp: a_def LOG_CAPACITY_def)
  have e: "st_log_entries st = map (shown ?cs) [max n (?n - LOG_CAPACITY) ..< ?n]" by (simp add: assms(3) unsent_def shown_def comp_def)
  have "\<forall>i < ?n. je_seq (shown ?cs i) = int i" using assms(2) by (auto intro: shown_seq)
  note u = update_result [OF this l(2) e refl, of b now, folded a_def]
  have g: "gaps (as @ [(now, Tick secs up)]) = (0, True, steady as \<and> ?n - l \<le> LOG_CAPACITY)" using l(3) by (simp add: gaps_snoc)
  then have s: "steady (as @ [(now, Tick secs up)]) \<longleftrightarrow> steady as \<and> ?n - l \<le> LOG_CAPACITY" by (simp add: steady_def)
  have seen: "lastSeq ?pg = int ?n - 1" using u(1) a(2) l(1,2) by auto
  have log: "entries_of ?cs ?n (logStore ?pg)"
    using u(2) entries_of_append [OF l(5) a(1) l(1)] entries_of_mono [OF l(5) l(1)] by (simp add: entries_of_filter del: filter_append)
  have rec: "entries_of ?cs ?n (recordStore ?pg)"
    using u(4) entries_of_append [OF l(6) a(1) l(1)] entries_of_mono [OF l(6) l(1)] by simp
  have run: "run_of ?cs ?n (recording ?pg) (recordStore ?pg)" if "steady as" "?n - l \<le> LOG_CAPACITY"
    using that l(7) u(3,4) a(3) run_of_append [OF _ l(1)] run_of_stopped [OF _ l(1)] by (cases "recording pg") auto
  show ?thesis unfolding exact_def
    by (rule exI [of _ ?n]) (use seen g s log rec run u(5) [OF l(8)] in auto)
qed

interpretation exact: page_contract b exact for b :: browser
proof
  fix as pos pg now c
  assume "exact as pos pg"
  then obtain l where l: "l \<le> length (logged as)" "lastSeq pg = int l - 1" "gaps as = (length (logged as) - l, pos \<noteq> None, steady as)"
    "\<forall>n. pos = Some n \<longrightarrow> n = 0 \<or> n = l" "entries_of (logged as) l (logStore pg)" "entries_of (logged as) l (recordStore pg)"
    "steady as \<longrightarrow> run_of (logged as) l (recording pg) (recordStore pg)" "rows_ok pg"
    by (auto simp: exact_def)
  have g: "gaps (as @ [(now, Logged c)]) = (Suc (length (logged as)) - l, pos \<noteq> None, steady as)"
    using l(1,3) by (simp add: gaps_snoc Suc_diff_le)
  then have "steady (as @ [(now, Logged c)]) = steady as" by (simp add: steady_def)
  with g l show "exact (as @ [(now, Logged c)]) pos pg"
    unfolding exact_def by (intro exI [of _ l]) (auto simp: entries_of_snoc run_of_snoc)
next
  fix as n pg now secs up and st :: js_stats
  assume "exact as (Some n) pg" "length (logged as) < 2 ^ 53" "st_log_entries st = map page_entry (unsent (logged as) n)"
  then show "exact (as @ [(now, Tick secs up)]) (Some (length (logged as))) (update b now st pg)" by (rule exact_message)
next
  fix as :: "(int \<times> dash_act) list" and pg now secs up
  assume e: "exact as None pg"
  then show "exact (as @ [(now, Tick secs up)]) None pg" by (rule exact_other) (use e in \<open>auto simp: exact_def\<close>)
next
  fix as pos pg now
  assume e: "exact as pos pg"
  show "exact (as @ [(now, Lost)]) None (on_error pg)" "exact (as @ [(now, Connect)]) (Some 0) (on_connect pg)"
    using e by (rule exact_other; use e in \<open>auto simp: exact_def on_error_def on_connect_def rows_ok_def\<close>)+
  show "exact (as @ [(now, ClickRecord)]) pos (click_record b now pg)"
    using e by (rule exact_other) (use e in \<open>auto simp: exact_def click_record_frame\<close>)
  show "exact (as @ [(now, ClickSort col)]) pos (click_sort b col pg)" for col
    using e by (rule exact_other) (use e in \<open>auto simp: exact_def click_sort_frame\<close>)
  show "exact (as @ [(now, ClickRow sq)]) pos (click_row sq pg)" for sq
    using e by (rule exact_other) (use e in \<open>auto simp: exact_def click_row_frame\<close>)
qed


section \<open>After a restart of the proxy\<close>

definition stale :: "nat \<Rightarrow> page \<Rightarrow> (int \<times> dash_act) list \<Rightarrow> nat option \<Rightarrow> page \<Rightarrow> bool" where
  "stale l pg0 as pos pg \<longleftrightarrow> (length (logged as) \<le> l \<longrightarrow> lastSeq pg = int l - 1 \<and>
     logStore pg = logStore pg0 \<and> (recordStore pg = recordStore pg0 \<or> recordStore pg = []))"

lemma stale_message:
  assumes "stale l pg0 as (Some n) pg" and "length (logged as) < 2 ^ 53" and "st_log_entries st = map page_entry (unsent (logged as) n)"
  shows "stale l pg0 (as @ [(now, Tick secs up)]) (Some (length (logged as))) (update b now st pg)"
proof (cases "length (logged as) \<le> l")
  case True
  let ?cs = "logged as"
  have e: "st_log_entries st = map (shown ?cs) [max n (length ?cs - LOG_CAPACITY) ..< length ?cs]"
    by (simp add: assms(3) unsent_def shown_def comp_def)
  have "\<forall>i < length ?cs. je_seq (shown ?cs i) = int i" using assms(2) by (auto intro: shown_seq)
  moreover have "lastSeq pg = int l - 1" using assms(1) True by (simp add: stale_def)
  ultimately show ?thesis using update_result [OF _ _ e refl, of pg l b now] assms(1) True by (simp add: stale_def)
qed (simp add: stale_def)

interpretation stale: page_contract b "stale l pg0" for b :: browser and l :: nat and pg0 :: page
proof
  fix as n pg now secs up and st :: js_stats
  assume "stale l pg0 as (Some n) pg" "length (logged as) < 2 ^ 53" "st_log_entries st = map page_entry (unsent (logged as) n)"
  then show "stale l pg0 (as @ [(now, Tick secs up)]) (Some (length (logged as))) (update b now st pg)" by (rule stale_message)
qed (auto simp: stale_def on_error_def on_connect_def click_record_frame click_sort_frame click_row_frame)


section \<open>Exporting a recording\<close>

text \<open>A single payload that is not JSON makes the export of the whole recording fail.\<close>

lemma export_needs_json:
  assumes "e \<in> set (recordStore pg)" and "truthy (je_payload e)" and "bw_parse b (the (je_payload e)) = None" and "\<not> exp_disabled pg"
  shows "click_export b pg = Inl SyntaxError"
proof -
  have "export_lines b es = Inl SyntaxError" if "e \<in> set es" for es
    using that
  proof (induction es)
    case (Cons x es)
    have x: "export_line b x = Inl SyntaxError \<or> (\<exists>l. export_line b x = Inr l)" by (auto simp: export_line_def Let_def split: option.splits)
    have "export_line b e = Inl SyntaxError" using assms(2,3) by (simp add: export_line_def Let_def)
    then show ?case using Cons x by auto
  qed simp
  then show ?thesis using assms(1,4) by (auto simp: click_export_def Let_def)
qed

section \<open>An example\<close>

text \<open>Any list of messages can be sent: the text is the position in the list.\<close>

definition index_codec :: "json list \<Rightarrow> json_codec" where
  "index_codec pls = \<lparr> from_str = (\<lambda>_. None), to_string = (\<lambda>v. Some (replicate (length (takeWhile (\<lambda>w. w \<noteq> v) pls)) CHR ''x'')) \<rparr>"

definition index_browser :: "json list \<Rightarrow> browser" where
  "index_browser pls = \<lparr> bw_parse = (\<lambda>s. if length s < length pls then Some (pls ! length s) else None), bw_pretty = (\<lambda>_. []),
     bw_object = (\<lambda>_. ''{}''), bw_number = (\<lambda>_. []), bw_big = (\<lambda>_. []), bw_locale = show_int, bw_clock = (\<lambda>_. (12, 0, 0)), bw_iso = (\<lambda>_. []) \<rparr>"

lemma index_roundtrip:
  "pl \<in> set pls \<Longrightarrow> bw_parse (index_browser pls) (sse_event (index_codec pls) pl) = Some pl"
proof -
  assume "pl \<in> set pls"
  then have "length (takeWhile (\<lambda>w. w \<noteq> pl) pls) < length pls" by (induction pls) auto
  then show ?thesis using nth_length_takeWhile [of "\<lambda>w. w \<noteq> pl" pls] by (simp add: sse_event_def index_codec_def index_browser_def)
qed

definition demo_acts :: "(int \<times> dash_act) list" where
  "demo_acts = [(0, Connect), (0, Logged demo_call), (500, ClickRecord), (1000, Tick 0 1), (1500, Lost), (2000, Logged demo_call),
     (4500, Connect), (5000, ClickSort Ch), (5500, Tick 0 2)]"

abbreviation demo_msgs_of :: "json list" where "demo_msgs_of \<equiv> dash_payloads demo_acts metrics_new None"

lemma demo_acts_ok:
  "forward_time demo_acts" "parses_messages (index_browser demo_msgs_of) (index_codec demo_msgs_of) demo_acts"
  "logged demo_acts = [demo_call, demo_call]" "gaps demo_acts = (0, True, True)"
proof -
  show "forward_time demo_acts" by (simp add: forward_time_def demo_acts_def f64_sign_def)
  show "parses_messages (index_browser demo_msgs_of) (index_codec demo_msgs_of) demo_acts"
    unfolding parses_messages_def using index_roundtrip by blast
qed (simp_all add: demo_acts_def logged_def gaps_def LOG_CAPACITY_def)



end
