(* ===== verification/Config.thy ===== *)
theory Config
  imports Net_Addr
begin

text \<open>
  \<open>src/config.rs\<close>: the configuration, the file that is layered under it, and the search for that
  file.  The command line parser (clap) and the TOML parser are third-party: what they return is an
  argument.  Paths are strings, compared by their components as \<open>PathBuf\<close> compares.
\<close>

section \<open>Data\<close>

record file_config =
  fc_upstream :: "string option"
  fc_upstream_control_port :: "u16 option"
  fc_upstream_imaging_port :: "u16 option"
  fc_bind :: "ip_addr option"
  fc_control_port :: "u16 option"
  fc_imaging_port :: "u16 option"
  fc_discovery :: "bool option"
  fc_record :: "string option"
  fc_replay :: "string option"
  fc_raw :: "bool option"
  fc_transparent :: "bool option"
  fc_dashboard_port :: "u16 option"
  fc_hooks :: "string list option"
  fc_wireguard :: "bool option"
  fc_wg_port :: "u16 option"
  fc_wg_subnet :: "string option"
  fc_wg_key_file :: "string option"
  fc_wg_endpoint :: "string option"
  fc_verbose :: "u8 option"
  fc_telescope_sn :: "string option"
  fc_telescope_model :: "string option"
  fc_telescope_bssid :: "string option"

text \<open>\<open>Config\<close>, with the fields of the optional features.\<close>

record config =
  cf_config :: "string option"
  cf_upstream :: "string option"
  cf_upstream_control_port :: u16
  cf_upstream_imaging_port :: u16
  cf_bind :: ip_addr
  cf_control_port :: u16
  cf_imaging_port :: u16
  cf_discovery :: bool
  cf_record :: "string option"
  cf_replay :: "string option"
  cf_raw :: bool
  cf_transparent :: bool
  cf_ntp_sync :: bool
  cf_ntp_server :: string
  cf_tailscale :: bool
  cf_ts_hostname :: string
  cf_ts_authkey :: "string option"
  cf_ts_state_dir :: string
  cf_ts_control_url :: "string option"
  cf_dashboard_port :: u16
  cf_hooks :: "string list"
  cf_wireguard :: bool
  cf_wg_port :: u16
  cf_wg_subnet :: string
  cf_wg_key_file :: string
  cf_wg_endpoint :: "string option"
  cf_verbose :: u8
  cf_telescope_sn :: "string option"
  cf_telescope_model :: "string option"
  cf_telescope_bssid :: "string option"

text \<open>The built-in defaults of the \<open>#[arg(...)]\<close> attributes.\<close>

definition default_config :: config where
  "default_config =
     \<lparr> cf_config = None, cf_upstream = None, cf_upstream_control_port = 4700, cf_upstream_imaging_port = 4800,
       cf_bind = V4 (0, 0, 0, 0), cf_control_port = 4700, cf_imaging_port = 4800, cf_discovery = False,
       cf_record = None, cf_replay = None, cf_raw = False, cf_transparent = False,
       cf_ntp_sync = False, cf_ntp_server = ''pool.ntp.org'',
       cf_tailscale = False, cf_ts_hostname = ''seestar-proxy'', cf_ts_authkey = None,
       cf_ts_state_dir = ''/var/lib/seestar-proxy/tailscale'', cf_ts_control_url = None,
       cf_dashboard_port = 4090, cf_hooks = [], cf_wireguard = False, cf_wg_port = 51820,
       cf_wg_subnet = ''10.99.0.0/24'', cf_wg_key_file = ''~/.seestar-proxy/wg.key'', cf_wg_endpoint = None,
       cf_verbose = 0, cf_telescope_sn = None, cf_telescope_model = None, cf_telescope_bssid = None \<rparr>"

section \<open>Layering a file under the command line\<close>

text \<open>\<open>if self.f.is_none() { self.f = file.f }\<close>.\<close>

definition fill :: "'a option \<Rightarrow> 'a option \<Rightarrow> 'a option" where
  "fill own file = (if own = None then file else own)"

text \<open>\<open>apply_default!\<close> for a field that compares with its default by \<open>eq\<close>.\<close>

definition apply_default :: "('a \<Rightarrow> 'a \<Rightarrow> bool) \<Rightarrow> 'a \<Rightarrow> 'a option \<Rightarrow> 'a \<Rightarrow> 'a" where
  "apply_default eq own file dflt = (case file of None \<Rightarrow> own | Some v \<Rightarrow> if eq own dflt then v else own)"

definition enable :: "bool \<Rightarrow> bool option \<Rightarrow> bool" where
  "enable own file = (if file = Some True then True else own)"

definition push_hook :: "string \<Rightarrow> string list \<Rightarrow> string list" where
  "push_hook h hooks = (if \<exists>x \<in> set hooks. path_eq x h then hooks else hooks @ [h])"

definition append_hooks :: "string list \<Rightarrow> string list option \<Rightarrow> string list" where
  "append_hooks own file_hooks = (case file_hooks of None \<Rightarrow> own | Some hs \<Rightarrow> fold push_hook hs own)"

definition louder :: "u8 \<Rightarrow> u8 option \<Rightarrow> u8" where
  "louder own v = (case v of None \<Rightarrow> own | Some v \<Rightarrow> if own < v then v else own)"

definition apply_file :: "config \<Rightarrow> file_config \<Rightarrow> config" where
  "apply_file c f = c\<lparr>
     cf_upstream := fill (cf_upstream c) (fc_upstream f),
     cf_wg_endpoint := fill (cf_wg_endpoint c) (fc_wg_endpoint f),
     cf_record := fill (cf_record c) (fc_record f),
     cf_replay := fill (cf_replay c) (fc_replay f),
     cf_telescope_sn := fill (cf_telescope_sn c) (fc_telescope_sn f),
     cf_telescope_model := fill (cf_telescope_model c) (fc_telescope_model f),
     cf_telescope_bssid := fill (cf_telescope_bssid c) (fc_telescope_bssid f),
     cf_upstream_control_port := apply_default (=) (cf_upstream_control_port c) (fc_upstream_control_port f) 4700,
     cf_upstream_imaging_port := apply_default (=) (cf_upstream_imaging_port c) (fc_upstream_imaging_port f) 4800,
     cf_control_port := apply_default (=) (cf_control_port c) (fc_control_port f) 4700,
     cf_imaging_port := apply_default (=) (cf_imaging_port c) (fc_imaging_port f) 4800,
     cf_dashboard_port := apply_default (=) (cf_dashboard_port c) (fc_dashboard_port f) 4090,
     cf_wg_port := apply_default (=) (cf_wg_port c) (fc_wg_port f) 51820,
     cf_bind := apply_default (=) (cf_bind c) (fc_bind f) (V4 (0, 0, 0, 0)),
     cf_wg_subnet := apply_default (=) (cf_wg_subnet c) (fc_wg_subnet f) ''10.99.0.0/24'',
     cf_wg_key_file := apply_default path_eq (cf_wg_key_file c) (fc_wg_key_file f) ''~/.seestar-proxy/wg.key'',
     cf_discovery := enable (cf_discovery c) (fc_discovery f),
     cf_wireguard := enable (cf_wireguard c) (fc_wireguard f),
     cf_raw := enable (cf_raw c) (fc_raw f),
     cf_transparent := enable (cf_transparent c) (fc_transparent f),
     cf_hooks := append_hooks (cf_hooks c) (fc_hooks f),
     cf_verbose := louder (cf_verbose c) (fc_verbose f) \<rparr>"

section \<open>Finding the file\<close>

text \<open>What \<open>load\<close> asks of its surroundings: which paths exist, what reading them gives, the TOML
  parser and \<open>$HOME\<close>.\<close>

record config_env =
  ce_exists :: "string \<Rightarrow> bool"
  ce_read :: "string \<Rightarrow> string option"
  ce_toml :: "string \<Rightarrow> file_config option"
  ce_home :: "string option"

datatype config_error = ReadFailed string | ParseFailed string

definition dirs_or_home :: "config_env \<Rightarrow> string \<Rightarrow> string" where
  "dirs_or_home e relative = path_join (case ce_home e of Some home \<Rightarrow> home | None \<Rightarrow> ''/tmp'') relative"

definition config_candidates :: "config_env \<Rightarrow> string list" where
  "config_candidates e = [''/etc/seestar-proxy/config.toml'', dirs_or_home e ''.config/seestar-proxy/config.toml'']"

fun try_candidates :: "config_env \<Rightarrow> string list \<Rightarrow> config \<Rightarrow> config" where
  "try_candidates e [] c = c"
| "try_candidates e (p # ps) c =
     (if ce_exists e p then
        case ce_read e p of None \<Rightarrow> try_candidates e ps c
        | Some content \<Rightarrow> (case ce_toml e content of None \<Rightarrow> try_candidates e ps c | Some f \<Rightarrow> apply_file c f)
      else try_candidates e ps c)"

text \<open>\<open>Config::load\<close>; \<open>parsed\<close> is what \<open>Config::parse()\<close> returned.\<close>

definition load_config :: "config_env \<Rightarrow> config \<Rightarrow> config_error + config" where
  "load_config e parsed = (case cf_config parsed of
      Some path \<Rightarrow> (case ce_read e path of
          None \<Rightarrow> Inl (ReadFailed path)
        | Some content \<Rightarrow> (case ce_toml e content of
            None \<Rightarrow> Inl (ParseFailed path)
          | Some f \<Rightarrow> Inr (apply_file parsed f)))
    | None \<Rightarrow> Inr (try_candidates e (config_candidates e) parsed))"

section \<open>The layers as a specification\<close>

text \<open>
  A layer says for every option whether it is set, and to what: a file is one, and so is what the
  command line and the environment say together.  \<open>overlay e f\<close> is the layer \<open>e\<close> with \<open>f\<close> under it, and
  \<open>settle\<close> fills in the defaults.
\<close>

definition overlay :: "file_config \<Rightarrow> file_config \<Rightarrow> file_config" where
  "overlay e f =
     \<lparr> fc_upstream = fill (fc_upstream e) (fc_upstream f),
       fc_upstream_control_port = fill (fc_upstream_control_port e) (fc_upstream_control_port f),
       fc_upstream_imaging_port = fill (fc_upstream_imaging_port e) (fc_upstream_imaging_port f),
       fc_bind = fill (fc_bind e) (fc_bind f),
       fc_control_port = fill (fc_control_port e) (fc_control_port f),
       fc_imaging_port = fill (fc_imaging_port e) (fc_imaging_port f),
       fc_discovery = Some (fc_discovery e = Some True \<or> fc_discovery f = Some True),
       fc_record = fill (fc_record e) (fc_record f),
       fc_replay = fill (fc_replay e) (fc_replay f),
       fc_raw = Some (fc_raw e = Some True \<or> fc_raw f = Some True),
       fc_transparent = Some (fc_transparent e = Some True \<or> fc_transparent f = Some True),
       fc_dashboard_port = fill (fc_dashboard_port e) (fc_dashboard_port f),
       fc_hooks = Some (fold push_hook (case fc_hooks f of None \<Rightarrow> [] | Some hs \<Rightarrow> hs)
                          (case fc_hooks e of None \<Rightarrow> [] | Some hs \<Rightarrow> hs)),
       fc_wireguard = Some (fc_wireguard e = Some True \<or> fc_wireguard f = Some True),
       fc_wg_port = fill (fc_wg_port e) (fc_wg_port f),
       fc_wg_subnet = fill (fc_wg_subnet e) (fc_wg_subnet f),
       fc_wg_key_file = fill (fc_wg_key_file e) (fc_wg_key_file f),
       fc_wg_endpoint = fill (fc_wg_endpoint e) (fc_wg_endpoint f),
       fc_verbose = Some (max (case fc_verbose e of None \<Rightarrow> 0 | Some v \<Rightarrow> v) (case fc_verbose f of None \<Rightarrow> 0 | Some v \<Rightarrow> v)),
       fc_telescope_sn = fill (fc_telescope_sn e) (fc_telescope_sn f),
       fc_telescope_model = fill (fc_telescope_model e) (fc_telescope_model f),
       fc_telescope_bssid = fill (fc_telescope_bssid e) (fc_telescope_bssid f) \<rparr>"

definition or_default :: "'a option \<Rightarrow> 'a \<Rightarrow> 'a" where
  "or_default x d = (case x of None \<Rightarrow> d | Some v \<Rightarrow> v)"

definition settle :: "config \<Rightarrow> file_config \<Rightarrow> config" where
  "settle base e = base\<lparr>
     cf_upstream := fc_upstream e,
     cf_upstream_control_port := or_default (fc_upstream_control_port e) 4700,
     cf_upstream_imaging_port := or_default (fc_upstream_imaging_port e) 4800,
     cf_bind := or_default (fc_bind e) (V4 (0, 0, 0, 0)),
     cf_control_port := or_default (fc_control_port e) 4700,
     cf_imaging_port := or_default (fc_imaging_port e) 4800,
     cf_discovery := or_default (fc_discovery e) False,
     cf_record := fc_record e,
     cf_replay := fc_replay e,
     cf_raw := or_default (fc_raw e) False,
     cf_transparent := or_default (fc_transparent e) False,
     cf_dashboard_port := or_default (fc_dashboard_port e) 4090,
     cf_hooks := or_default (fc_hooks e) [],
     cf_wireguard := or_default (fc_wireguard e) False,
     cf_wg_port := or_default (fc_wg_port e) 51820,
     cf_wg_subnet := or_default (fc_wg_subnet e) ''10.99.0.0/24'',
     cf_wg_key_file := or_default (fc_wg_key_file e) ''~/.seestar-proxy/wg.key'',
     cf_wg_endpoint := fc_wg_endpoint e,
     cf_verbose := or_default (fc_verbose e) 0,
     cf_telescope_sn := fc_telescope_sn e,
     cf_telescope_model := fc_telescope_model e,
     cf_telescope_bssid := fc_telescope_bssid e \<rparr>"

text \<open>No option with a default is set to that default.\<close>

definition no_explicit_default :: "file_config \<Rightarrow> bool" where
  "no_explicit_default e \<longleftrightarrow>
     fc_upstream_control_port e \<noteq> Some 4700 \<and> fc_upstream_imaging_port e \<noteq> Some 4800 \<and>
     fc_bind e \<noteq> Some (V4 (0, 0, 0, 0)) \<and> fc_control_port e \<noteq> Some 4700 \<and> fc_imaging_port e \<noteq> Some 4800 \<and>
     fc_dashboard_port e \<noteq> Some 4090 \<and> fc_wg_port e \<noteq> Some 51820 \<and> fc_wg_subnet e \<noteq> Some ''10.99.0.0/24'' \<and>
     (\<forall>p. fc_wg_key_file e = Some p \<longrightarrow> \<not> path_eq p ''~/.seestar-proxy/wg.key'')"

lemma apply_default_settles:
  assumes "eq dflt dflt" and "\<forall>v. own = Some v \<longrightarrow> \<not> eq v dflt"
  shows "apply_default eq (or_default own dflt) fv dflt = or_default (fill own fv) dflt"
  using assms by (cases own; cases fv) (simp_all add: apply_default_def or_default_def fill_def)

lemma enable_settles: "enable (or_default own False) fv = or_default (Some (own = Some True \<or> fv = Some True)) False"
  by (cases own) (auto simp: enable_def or_default_def)

lemma hooks_settle:
  "append_hooks (or_default own []) fv =
   or_default (Some (fold push_hook (case fv of None \<Rightarrow> [] | Some hs \<Rightarrow> hs) (case own of None \<Rightarrow> [] | Some hs \<Rightarrow> hs))) []"
  by (cases own; cases fv) (simp_all add: append_hooks_def or_default_def)

lemma verbose_settles:
  "louder (or_default own 0) fv =
   or_default (Some (max (case own of None \<Rightarrow> 0 | Some v \<Rightarrow> v) (case fv of None \<Rightarrow> 0 | Some v \<Rightarrow> v))) 0"
  for own :: "u8 option"
  by (cases own; cases fv) (auto simp: louder_def or_default_def max_def not_less intro: word_le_0_iff [THEN iffD1])

lemmas settles = apply_default_settles [of "(=)", OF refl] apply_default_settles [of path_eq, OF path_eq_refl]
  enable_settles hooks_settle verbose_settles

text \<open>Layering refines its specification.\<close>

lemma apply_file_layers:
  assumes "no_explicit_default e"
  shows "apply_file (settle base e) f = settle base (overlay e f)"
proof -
  note d = assms [unfolded no_explicit_default_def]
  have eqs:
    "apply_default (=) (or_default (fc_upstream_control_port e) 4700) (fc_upstream_control_port f) 4700 =
       or_default (fill (fc_upstream_control_port e) (fc_upstream_control_port f)) 4700"
    "apply_default (=) (or_default (fc_upstream_imaging_port e) 4800) (fc_upstream_imaging_port f) 4800 =
       or_default (fill (fc_upstream_imaging_port e) (fc_upstream_imaging_port f)) 4800"
    "apply_default (=) (or_default (fc_bind e) (V4 (0, 0, 0, 0))) (fc_bind f) (V4 (0, 0, 0, 0)) =
       or_default (fill (fc_bind e) (fc_bind f)) (V4 (0, 0, 0, 0))"
    "apply_default (=) (or_default (fc_control_port e) 4700) (fc_control_port f) 4700 =
       or_default (fill (fc_control_port e) (fc_control_port f)) 4700"
    "apply_default (=) (or_default (fc_imaging_port e) 4800) (fc_imaging_port f) 4800 =
       or_default (fill (fc_imaging_port e) (fc_imaging_port f)) 4800"
    "apply_default (=) (or_default (fc_dashboard_port e) 4090) (fc_dashboard_port f) 4090 =
       or_default (fill (fc_dashboard_port e) (fc_dashboard_port f)) 4090"
    "apply_default (=) (or_default (fc_wg_port e) 51820) (fc_wg_port f) 51820 =
       or_default (fill (fc_wg_port e) (fc_wg_port f)) 51820"
    "apply_default (=) (or_default (fc_wg_subnet e) ''10.99.0.0/24'') (fc_wg_subnet f) ''10.99.0.0/24'' =
       or_default (fill (fc_wg_subnet e) (fc_wg_subnet f)) ''10.99.0.0/24''"
    "apply_default path_eq (or_default (fc_wg_key_file e) ''~/.seestar-proxy/wg.key'') (fc_wg_key_file f) ''~/.seestar-proxy/wg.key'' =
       or_default (fill (fc_wg_key_file e) (fc_wg_key_file f)) ''~/.seestar-proxy/wg.key''"
    by (rule settles; use d in blast)+
  show ?thesis
    by (cases base) (simp add: apply_file_def settle_def overlay_def eqs enable_settles hooks_settle verbose_settles)
qed

definition empty_layer :: file_config where
  "empty_layer =
     \<lparr> fc_upstream = None, fc_upstream_control_port = None, fc_upstream_imaging_port = None, fc_bind = None,
       fc_control_port = None, fc_imaging_port = None, fc_discovery = None, fc_record = None, fc_replay = None,
       fc_raw = None, fc_transparent = None, fc_dashboard_port = None, fc_hooks = None, fc_wireguard = None,
       fc_wg_port = None, fc_wg_subnet = None, fc_wg_key_file = None, fc_wg_endpoint = None, fc_verbose = None,
       fc_telescope_sn = None, fc_telescope_model = None, fc_telescope_bssid = None \<rparr>"

section \<open>Loading\<close>

text \<open>The first default file that can be read and parsed, or nothing.\<close>

definition well_formed :: "config_env \<Rightarrow> string \<Rightarrow> bool" where
  "well_formed e p \<longleftrightarrow> ce_exists e p \<and> Option.bind (ce_read e p) (ce_toml e) \<noteq> None"

definition default_file :: "config_env \<Rightarrow> file_config" where
  "default_file e = (case find (well_formed e) (config_candidates e) of
      None \<Rightarrow> empty_layer | Some p \<Rightarrow> the (Option.bind (ce_read e p) (ce_toml e)))"

lemma apply_empty: "apply_file c empty_layer = c"
  by (simp add: apply_file_def empty_layer_def fill_def apply_default_def enable_def append_hooks_def louder_def)

lemma try_candidates_first:
  "try_candidates e ps c = (case find (well_formed e) ps of
      None \<Rightarrow> c | Some p \<Rightarrow> apply_file c (the (Option.bind (ce_read e p) (ce_toml e))))"
  by (induction ps) (auto simp: well_formed_def split: option.splits bind_splits)

lemma try_candidates_default: "try_candidates e (config_candidates e) c = apply_file c (default_file e)"
  by (simp add: try_candidates_first default_file_def apply_empty split: option.splits)


definition demo_config_env :: config_env where
  "demo_config_env =
     \<lparr> ce_exists = (\<lambda>p. p = ''/home/pi/.config/seestar-proxy/config.toml''), ce_read = (\<lambda>_. Some ''ports''),
       ce_toml = (\<lambda>_. Some (empty_layer\<lparr> fc_control_port := Some 6000, fc_imaging_port := Some 6001 \<rparr>)),
       ce_home = Some ''/home/pi'' \<rparr>"

lemma demo_default_file:
  "default_file demo_config_env = empty_layer\<lparr> fc_control_port := Some 6000, fc_imaging_port := Some 6001 \<rparr>"
  by (simp add: default_file_def config_candidates_def well_formed_def demo_config_env_def dirs_or_home_def
      path_join_def starts_with_def ends_with_def)


text \<open>Without that proviso layering is wrong: an option given explicitly on the command line with
  its default value loses against the file, although the command line has the highest precedence.\<close>

theorem explicit_default_lost:
  "cf_control_port (apply_file (settle base (e\<lparr> fc_control_port := Some 4700 \<rparr>)) (f\<lparr> fc_control_port := Some p \<rparr>)) = p"
  by (simp add: apply_file_def settle_def apply_default_def or_default_def)


end
