(* ===== verification/Startup.thy ===== *)
theory Startup
  imports Config Wg_Setup Recorder "HOL-Library.Sublist"
begin

text \<open>
  \<open>src/main.rs\<close>: from the configuration to the tasks that run, the resolution of the telescope's
  name, and the raw pipe mode.  What the session loader, the recorder, the hook engine and the
  resolver of the system return is part of \<open>main_env\<close>; printing and logging are left out.
\<close>

section \<open>Resolving the telescope\<close>

text \<open>\<open>str::parse::<Ipv4Addr>\<close>: four decimal octets without leading zeros.\<close>

definition is_digit :: "char \<Rightarrow> bool" where
  "is_digit c \<longleftrightarrow> 48 \<le> (of_char c :: nat) \<and> (of_char c :: nat) \<le> 57"

definition parse_octet :: "string \<Rightarrow> u8 option" where
  "parse_octet s =
     (let n = foldl (\<lambda>a c. 10 * a + (of_char c - 48 :: nat)) 0 s in
      if s = [] \<or> 3 < length s \<or> \<not> list_all is_digit s \<or> (1 < length s \<and> hd s = CHR ''0'') \<or> 255 < n
      then None else Some (of_nat n))"

fun split_on :: "char \<Rightarrow> string \<Rightarrow> string list" where
  "split_on d [] = [[]]"
| "split_on d (c # cs) =
     (if c = d then [] # split_on d cs
      else case split_on d cs of [] \<Rightarrow> [[c]] | p # ps \<Rightarrow> (c # p) # ps)"

definition parse_ip4 :: "string \<Rightarrow> ip4 option" where
  "parse_ip4 s = (case split_on (CHR ''.'') s of
      [a, b, c, d] \<Rightarrow> (case (parse_octet a, parse_octet b, parse_octet c, parse_octet d) of
          (Some a', Some b', Some c', Some d') \<Rightarrow> Some (a', b', c', d') | _ \<Rightarrow> None)
    | _ \<Rightarrow> None)"

record resolver =
  rs_parse_ip6 :: "string \<Rightarrow> 128 word option"
  rs_lookup :: "string \<Rightarrow> ip_addr list option"

definition parse_ip :: "resolver \<Rightarrow> string \<Rightarrow> ip_addr option" where
  "parse_ip r s = (case parse_ip4 s of Some v \<Rightarrow> Some (V4 v) | None \<Rightarrow> map_option V6 (rs_parse_ip6 r s))"

definition resolve_host :: "resolver \<Rightarrow> string \<Rightarrow> ip_addr option" where
  "resolve_host r host = (case parse_ip r host of
      Some ip \<Rightarrow> Some ip
    | None \<Rightarrow> (case rs_lookup r (host @ '':0'') of
        None \<Rightarrow> None
      | Some ips \<Rightarrow> (case find is_ipv4 ips of Some ip \<Rightarrow> Some ip
          | None \<Rightarrow> (case ips of [] \<Rightarrow> None | ip # _ \<Rightarrow> Some ip))))"

section \<open>The plan\<close>

record main_env =
  me_replay_ok :: "string \<Rightarrow> bool"
  me_resolver :: resolver
  me_recorder_ok :: "string \<Rightarrow> bool"
  me_hooks_ok :: "string list \<Rightarrow> bool"
  me_wireguard :: bool \<comment> \<open>the \<open>wireguard\<close> feature is compiled in\<close>
  me_home :: "string option"
  me_wg_start :: "ip_addr \<Rightarrow> u16 \<Rightarrow> path_key \<Rightarrow> string option \<Rightarrow> ip_addr \<Rightarrow> u16 \<Rightarrow> u16 \<Rightarrow> (wg_error + wg_started) run"

datatype startup_error = ReplayAndRecord | ReplayLoad | Unresolved | RecorderFailed | HooksFailed | NoWireguard

text \<open>The tasks that \<open>main\<close> spawns, with their arguments.\<close>

record proxy_plan =
  pp_control :: sock_addr
  pp_imaging :: sock_addr
  pp_upstream :: "(sock_addr \<times> sock_addr) option"
  pp_transparent :: bool
  pp_recorder :: "string option"
  pp_replay :: "string option"
  pp_hooks :: "string list"
  pp_wireguard :: "wg_started option"
  pp_tailscale :: "(string \<times> string option \<times> string \<times> string option \<times> u16 \<times> u16 \<times> u16) option"
  pp_dashboard :: "(sock_addr \<times> wg_info option) option"
  pp_discovery :: "(ip_addr \<times> ip_addr \<times> string option \<times> string option \<times> string option) option"

datatype plan = RawPipes "sock_addr \<times> sock_addr" "sock_addr \<times> sock_addr" | Proxy proxy_plan

definition log_level :: "u8 \<Rightarrow> string" where
  "log_level v = (if v = 0 then ''info'' else if v = 1 then ''debug'' else ''trace'')"

text \<open>\<open>~\<close> in the key file: the first component, replaced by the home directory.\<close>

definition replacen_tilde :: "string \<Rightarrow> string \<Rightarrow> string" where
  "replacen_tilde s home = (case str_find ''~'' s of None \<Rightarrow> s | Some i \<Rightarrow> take i s @ home @ drop (Suc i) s)"

definition wg_key_path :: "main_env \<Rightarrow> string \<Rightarrow> path_key" where
  "wg_key_path e p =
     (case path_components p of
        (False, c # _) \<Rightarrow> if c = ''~'' then path_components (replacen_tilde p (case me_home e of Some h \<Rightarrow> h | None \<Rightarrow> ''.''))
                          else path_components p
      | k \<Rightarrow> k)"

definition resolve_upstream :: "main_env \<Rightarrow> config \<Rightarrow> startup_error + (sock_addr \<times> sock_addr) option" where
  "resolve_upstream e c =
     (if cf_replay c \<noteq> None then Inr None
      else if cf_transparent c \<and> cf_upstream c = None then Inr None
      else case resolve_host (me_resolver e) (case cf_upstream c of Some h \<Rightarrow> h | None \<Rightarrow> ''seestar.local'') of
          None \<Rightarrow> Inl Unresolved
        | Some ip \<Rightarrow> Inr (Some ((ip, cf_upstream_control_port c), (ip, cf_upstream_imaging_port c))))"

text \<open>The tunnel: an error of \<open>start\<close> is logged, a panic ends \<open>main\<close>.\<close>

definition start_wireguard :: "main_env \<Rightarrow> config \<Rightarrow> (sock_addr \<times> sock_addr) option \<Rightarrow> (startup_error + wg_started option) run" where
  "start_wireguard e c up =
     (if \<not> cf_wireguard c then Ret (Inr None)
      else if \<not> me_wireguard e then Ret (Inl NoWireguard)
      else bind_run (me_wg_start e (cf_bind c) (cf_wg_port c) (wg_key_path e (cf_wg_key_file c)) (cf_wg_endpoint c)
          (case up of Some ((ip, _), _) \<Rightarrow> ip | None \<Rightarrow> ip_localhost) (cf_upstream_control_port c) (cf_upstream_imaging_port c))
        (\<lambda>r. Ret (Inr (case r of Inl _ \<Rightarrow> None | Inr w \<Rightarrow> Some w))))"

text \<open>The tailnet node: host name, key, state directory, control server and the proxy's three ports.\<close>

definition tailscale_plan :: "config \<Rightarrow> (string \<times> string option \<times> string \<times> string option \<times> u16 \<times> u16 \<times> u16) option" where
  "tailscale_plan c =
     (if \<not> cf_tailscale c then None
      else Some (cf_ts_hostname c, cf_ts_authkey c, cf_ts_state_dir c, cf_ts_control_url c,
        cf_control_port c, cf_imaging_port c, cf_dashboard_port c))"

definition discovery_plan :: "config \<Rightarrow> (sock_addr \<times> sock_addr) option \<Rightarrow>
    (ip_addr \<times> ip_addr \<times> string option \<times> string option \<times> string option) option" where
  "discovery_plan c up =
     (if \<not> cf_discovery c then None
      else case up of None \<Rightarrow> None
        | Some ((ip, _), _) \<Rightarrow> Some (cf_bind c, ip, cf_telescope_sn c, cf_telescope_model c, cf_telescope_bssid c))"

definition make_plan :: "config \<Rightarrow> (sock_addr \<times> sock_addr) option \<Rightarrow> wg_started option \<Rightarrow> proxy_plan" where
  "make_plan c up wg =
     \<lparr> pp_control = (cf_bind c, cf_control_port c), pp_imaging = (cf_bind c, cf_imaging_port c), pp_upstream = up,
       pp_transparent = cf_transparent c, pp_recorder = cf_record c, pp_replay = cf_replay c, pp_hooks = cf_hooks c,
       pp_wireguard = wg, pp_tailscale = tailscale_plan c,
       pp_dashboard = (if cf_dashboard_port c = 0 then None else Some ((cf_bind c, cf_dashboard_port c), map_option st_info wg)),
       pp_discovery = discovery_plan c up \<rparr>"

text \<open>The multiplexing mode: recorder, hooks, tunnel, then the tasks.\<close>

definition start_proxy :: "main_env \<Rightarrow> config \<Rightarrow> (sock_addr \<times> sock_addr) option \<Rightarrow> (startup_error + plan) run" where
  "start_proxy e c up =
     (if (case cf_record c of Some dir \<Rightarrow> \<not> me_recorder_ok e dir | None \<Rightarrow> False) then Ret (Inl RecorderFailed)
      else if cf_hooks c \<noteq> [] \<and> \<not> me_hooks_ok e (cf_hooks c) then Ret (Inl HooksFailed)
      else bind_run (start_wireguard e c up) (\<lambda>wg. Ret (case wg of Inl err \<Rightarrow> Inl err | Inr w \<Rightarrow> Inr (Proxy (make_plan c up w)))))"

definition startup :: "main_env \<Rightarrow> config \<Rightarrow> (startup_error + plan) run" where
  "startup e c =
     (if cf_replay c \<noteq> None \<and> cf_record c \<noteq> None then Ret (Inl ReplayAndRecord)
      else if (case cf_replay c of Some dir \<Rightarrow> \<not> me_replay_ok e dir | None \<Rightarrow> False) then Ret (Inl ReplayLoad)
      else case resolve_upstream e c of
          Inl err \<Rightarrow> Ret (Inl err)
        | Inr up \<Rightarrow>
            if cf_raw c then
              (case up of None \<Rightarrow> Panic
               | Some (uc, ui) \<Rightarrow> Ret (Inr (RawPipes ((cf_bind c, cf_control_port c), uc) ((cf_bind c, cf_imaging_port c), ui))))
            else start_proxy e c up)"

text \<open>After the interrupt: the manifest of a recording is written, then the tasks are aborted.\<close>

definition shutdown :: "record_codec \<Rightarrow> (string \<Rightarrow> bool) \<Rightarrow> string \<Rightarrow> f64 \<Rightarrow> recorder option \<Rightarrow> recorder option" where
  "shutdown rc w date dur r = map_option (finalize rc w date dur) r"

section \<open>Raw pipes\<close>

datatype pipe_read = PipeEof | PipeErr | PipeData bytes

text \<open>A write succeeds, or fails after some bytes.\<close>

datatype pipe_write = WriteOk | WriteErr nat

text \<open>One direction of \<open>raw_pipe\<close>: the chunks written and the running total, for the results of the
  reads and of the writes.\<close>

fun raw_copy :: "pipe_read list \<Rightarrow> pipe_write list \<Rightarrow> bytes list \<times> u64" where
  "raw_copy (PipeData bs # rs) (w # ws) =
     (if bs = [] then ([], 0)
      else case w of
          WriteOk \<Rightarrow> (case raw_copy rs ws of (out, n) \<Rightarrow> (bs # out, of_nat (length bs) + n))
        | WriteErr k \<Rightarrow> ([take k bs], of_nat (length bs)))"
| "raw_copy _ _ = ([], 0)"

text \<open>A session: what the client sends and the telescope takes, and the other way round.  The two
  directions are independent, and the session ends when both have ended.\<close>

record pipe_session =
  ps_client_reads :: "pipe_read list"
  ps_telescope_writes :: "pipe_write list"
  ps_telescope_reads :: "pipe_read list"
  ps_client_writes :: "pipe_write list"

definition raw_session :: "pipe_session \<Rightarrow> bytes list \<times> bytes list" where
  "raw_session ps =
     (fst (raw_copy (ps_client_reads ps) (ps_telescope_writes ps)), fst (raw_copy (ps_telescope_reads ps) (ps_client_writes ps)))"

text \<open>The accept loop serves one client after the other; a failed \<open>accept\<close> or connect is skipped.\<close>

datatype raw_accept = AcceptFailed | ConnectFailed | RawClient pipe_session

fun raw_loop :: "raw_accept list \<Rightarrow> (bytes list \<times> bytes list) list" where
  "raw_loop [] = []"
| "raw_loop (RawClient ps # accs) = raw_session ps # raw_loop accs"
| "raw_loop (_ # accs) = raw_loop accs"

definition raw_pipe :: "bool \<Rightarrow> raw_accept list \<Rightarrow> (bytes list \<times> bytes list) list" where
  "raw_pipe bound accs = (if bound then raw_loop accs else [])"

section \<open>What is started\<close>

lemma start_proxy_Ret:
  assumes "start_proxy e c up = Ret (Inr pl)"
  shows "\<exists>w. start_wireguard e c up = Ret (Inr w) \<and> pl = Proxy (make_plan c up w)"
proof -
  from assms obtain r where r: "start_wireguard e c up = Ret r" "(case r of Inl err \<Rightarrow> Inl err | Inr w \<Rightarrow> Inr (Proxy (make_plan c up w))) = Inr pl"
    by (auto simp: start_proxy_def bind_run_Ret split: if_splits)
  then show ?thesis by (cases r) auto
qed

lemma startup_Proxy:
  assumes "startup e c = Ret (Inr (Proxy p))"
  shows "\<exists>up w. p = make_plan c up w \<and> resolve_upstream e c = Inr up \<and> start_wireguard e c up = Ret (Inr w) \<and>
     (cf_replay c = None \<or> cf_record c = None) \<and> \<not> cf_raw c"
proof -
  from assms obtain up where "resolve_upstream e c = Inr up" "start_proxy e c up = Ret (Inr (Proxy p))"
    "cf_replay c = None \<or> cf_record c = None" "\<not> cf_raw c"
    by (auto simp: startup_def split: if_splits sum.splits option.splits)
  with start_proxy_Ret show ?thesis by fastforce
qed


text \<open>\<open>main\<close> panics at startup exactly in two cases: raw mode without a telescope address (with a replay, or
  in transparent mode without \<open>--upstream\<close>), and a panic of the tunnel's \<open>start\<close>; every other
  problem is reported as an error.\<close>

theorem startup_panics:
  assumes "cf_replay c = None \<or> cf_record c = None"
    and "\<And>dir. cf_replay c = Some dir \<Longrightarrow> me_replay_ok e dir" and "\<And>dir. cf_record c = Some dir \<Longrightarrow> me_recorder_ok e dir"
    and "cf_hooks c = [] \<or> me_hooks_ok e (cf_hooks c)" and "resolve_upstream e c = Inr up"
  shows "startup e c = Panic \<longleftrightarrow>
     (if cf_raw c then cf_replay c \<noteq> None \<or> cf_transparent c \<and> cf_upstream c = None
      else cf_wireguard c \<and> me_wireguard e \<and>
        me_wg_start e (cf_bind c) (cf_wg_port c) (wg_key_path e (cf_wg_key_file c)) (cf_wg_endpoint c)
          (case up of Some ((ip, _), _) \<Rightarrow> ip | None \<Rightarrow> ip_localhost) (cf_upstream_control_port c) (cf_upstream_imaging_port c) = Panic)"
proof -
  have raw: "up = None \<longleftrightarrow> cf_replay c \<noteq> None \<or> cf_transparent c \<and> cf_upstream c = None"
    using assms(5) by (auto simp: resolve_upstream_def split: if_splits option.splits)
  have r: "\<not> (case cf_replay c of Some dir \<Rightarrow> \<not> me_replay_ok e dir | None \<Rightarrow> False)"
    "\<not> (case cf_record c of Some dir \<Rightarrow> \<not> me_recorder_ok e dir | None \<Rightarrow> False)"
    "\<not> (cf_replay c \<noteq> None \<and> cf_record c \<noteq> None)" "\<not> (cf_hooks c \<noteq> [] \<and> \<not> me_hooks_ok e (cf_hooks c))"
    using assms(1-4) by (auto split: option.splits)
  show ?thesis
  proof (cases "cf_raw c")
    case True
    then show ?thesis using raw using r by (cases up) (auto simp: startup_def assms(5))
  next
    case False
    then show ?thesis using r by (auto simp: startup_def start_proxy_def assms(5) bind_run_Panic start_wireguard_def)
  qed
qed

text \<open>The tunnel reaches the control proxy only by coincidence of two ports: a client that connects to the
  telescope's control port through the tunnel is bridged to the local port with the number of the
  telescope's port, not to the one the proxy listens on.\<close>

theorem tunnel_reaches_proxy_iff:
  assumes "me_wg_start e = (\<lambda>b port p ep up cp ip. fst (wg_start we b port p ep up cp ip rx t fs))"
    and "startup e c = Ret (Inr (Proxy p))" and "pp_wireguard p = Some w"
  shows "st_bridge w (cf_upstream_control_port c) = snd (pp_control p) \<longleftrightarrow> cf_upstream_control_port c = cf_control_port c"
proof -
  obtain up where p: "p = make_plan c up (Some w)" "start_wireguard e c up = Ret (Inr (Some w))"
    using startup_Proxy [OF assms(2)] assms(3) by (auto simp: make_plan_def)
  define up' where "up' = (case up of Some ((ip, _), _) \<Rightarrow> ip | None \<Rightarrow> ip_localhost)"
  obtain r where r: "fst (wg_start we (cf_bind c) (cf_wg_port c) (wg_key_path e (cf_wg_key_file c)) (cf_wg_endpoint c) up'
      (cf_upstream_control_port c) (cf_upstream_imaging_port c) rx t fs) = Ret r" "(case r of Inl _ \<Rightarrow> None | Inr w \<Rightarrow> Some w) = Some w"
    using p(2) by (auto simp: start_wireguard_def assms(1) bind_run_Ret up'_def split: if_splits)
  then have "r = Inr w" by (cases r) simp_all
  with r have "st_bridge w = bridge_port (cf_upstream_control_port c) (cf_upstream_imaging_port c)"
    by (auto simp: wg_start_def bind_run_Ret split: prod.splits sum.splits if_splits ip_addr.splits)
  then show ?thesis by (simp add: bridge_port_def p(1) make_plan_def)
qed

section \<open>Raw pipes are transparent\<close>

fun data_of :: "pipe_read list \<Rightarrow> bytes list" where
  "data_of (PipeData bs # rs) = bs # data_of rs"
| "data_of _ = []"

lemma raw_copy_prefix: "prefix (concat (fst (raw_copy rs ws))) (concat (data_of rs))"
  by (induction rs ws rule: raw_copy.induct) (auto split: prod.splits pipe_write.splits simp: prefix_prefix take_is_prefix)

lemma raw_loop_session: "x \<in> set (raw_loop accs) \<Longrightarrow> \<exists>ps. RawClient ps \<in> set accs \<and> x = raw_session ps"
  by (induction accs rule: raw_loop.induct) auto

lemma raw_copy_all:
  "[] \<notin> set chunks \<Longrightarrow> raw_copy (map PipeData chunks @ [PipeEof]) (replicate (length chunks) WriteOk @ ws) =
      (chunks, of_nat (length (concat chunks)))"
  by (induction chunks) (auto split: prod.splits)

text \<open>C38. Raw mode is a transparent pipe: whatever fails, in every session the telescope receives a prefix
  of the bytes the client sent and the client a prefix of those the telescope sent; and as long as
  the writes succeed a side receives all chunks, byte for byte, with the total counted modulo 2 to
  the 64.\<close>

theorem raw_pipe_transparent:
  "((to_telescope, to_client) \<in> set (raw_pipe bound accs) \<longrightarrow>
      (\<exists>ps. RawClient ps \<in> set accs \<and> prefix (concat to_telescope) (concat (data_of (ps_client_reads ps))) \<and>
         prefix (concat to_client) (concat (data_of (ps_telescope_reads ps))))) \<and>
   ([] \<notin> set chunks \<longrightarrow> raw_copy (map PipeData chunks @ [PipeEof]) (replicate (length chunks) WriteOk @ ws) =
      (chunks, of_nat (length (concat chunks))))"
proof (intro conjI impI)
  assume "(to_telescope, to_client) \<in> set (raw_pipe bound accs)"
  then obtain ps where "RawClient ps \<in> set accs" "raw_session ps = (to_telescope, to_client)"
    by (auto simp: raw_pipe_def split: if_splits dest: raw_loop_session)
  then show "\<exists>ps. RawClient ps \<in> set accs \<and> prefix (concat to_telescope) (concat (data_of (ps_client_reads ps))) \<and>
         prefix (concat to_client) (concat (data_of (ps_telescope_reads ps)))"
    using raw_copy_prefix by (force simp: raw_session_def)
qed (rule raw_copy_all)

definition demo_pipe :: pipe_session where
  "demo_pipe = \<lparr> ps_client_reads = [PipeData [1, 2], PipeData [3], PipeEof], ps_telescope_writes = [WriteOk, WriteErr 0],
     ps_telescope_reads = [PipeData [4], PipeErr], ps_client_writes = [WriteOk] \<rparr>"

theorem raw_pipe_transparent_witness:
  "raw_copy [PipeData [1, 2], PipeData [3], PipeEof] [WriteOk, WriteOk] = ([[1, 2], [3]], 3) \<and>
   raw_pipe True [AcceptFailed, RawClient demo_pipe] = [([[1, 2], []], [[4]])] \<and>
   (\<exists>ps. RawClient ps \<in> {RawClient demo_pipe} \<and> prefix (concat [[1, 2], []]) (concat (data_of (ps_client_reads ps))))"
  using raw_pipe_transparent [of "[[1, 2], []]" "[[4]]" True "[AcceptFailed, RawClient demo_pipe]" "[[1, 2], [3]]" "[]"]
  by (simp add: raw_pipe_def raw_session_def demo_pipe_def)

section \<open>Resolution\<close>

text \<open>An octet has one, two or three digits.\<close>

lemma show_octet:
  assumes "n < 256"
  obtains "n < 10" "show_nat n = [digit n]"
  | a b where "0 < a" "a < 10" "b < 10" "n = 10 * a + b" "show_nat n = [digit a, digit b]"
  | a b c where "0 < a" "a < 10" "b < 10" "c < 10" "n = 100 * a + 10 * b + c" "show_nat n = [digit a, digit b, digit c]"
proof -
  consider "n < 10" | "10 \<le> n" "n < 100" | "100 \<le> n" by linarith
  then show thesis
  proof cases
    case 1
    then show thesis using that(1) by (simp add: show_nat_lt10)
  next
    case 2
    then show thesis using that(2) [of "n div 10" "n mod 10"] by (simp add: show_nat_ge10 show_nat_lt10 div_greater_zero_iff)
  next
    case 3
    then have "n div 10 div 10 < 10" "10 \<le> n div 10" using assms by auto
    moreover have "n = 100 * (n div 10 div 10) + 10 * (n div 10 mod 10) + n mod 10"
      using mult_div_mod_eq [of 10 n] mult_div_mod_eq [of 10 "n div 10"] by linarith
    ultimately show thesis
      using that(3) [of "n div 10 div 10" "n div 10 mod 10" "n mod 10"] 3
      by (simp add: show_nat_ge10 show_nat_lt10 div_greater_zero_iff)
  qed
qed

lemma digit_code: "d < 10 \<Longrightarrow> of_char (digit d) = (48 + d :: nat)"
  by (simp add: digit_def)

lemma digit_props: "d < 10 \<Longrightarrow> is_digit (digit d)" "d < 10 \<Longrightarrow> digit d \<noteq> CHR ''.''" "0 < d \<Longrightarrow> d < 10 \<Longrightarrow> digit d \<noteq> CHR ''0''"
proof -
  show "is_digit (digit d)" if "d < 10" using that by (simp add: is_digit_def digit_code)
  then show "digit d \<noteq> CHR ''.''" if "d < 10" using that by (auto simp: is_digit_def)
  show "digit d \<noteq> CHR ''0''" if "0 < d" "d < 10" using that digit_eq [of d 0] by (simp add: zero_digit)
qed

lemma parse_octet_show: "parse_octet (show_nat (unat a)) = Some a"
proof -
  have lt: "unat a < 256" by (rule u8_lt)
  then have "parse_octet (show_nat (unat a)) = Some (of_nat (unat a))"
    by (rule show_octet) (use lt in \<open>auto simp: parse_octet_def Let_def digit_code digit_props\<close>)
  then show ?thesis by simp
qed

lemma octet_no_dot: "CHR ''.'' \<notin> set (show_nat (unat a))" for a :: u8
proof -
  have "unat a < 256" by (rule u8_lt)
  then show ?thesis by (rule show_octet) (use digit_props(2) in force)+
qed

lemma split_on_none: "d \<notin> set x \<Longrightarrow> split_on d x = [x]"
  by (induction x) auto

lemma split_on_append: "d \<notin> set x \<Longrightarrow> split_on d (x @ d # y) = x # split_on d y"
  by (induction x) auto

lemma parse_show_ip4: "parse_ip4 (show_ip4 v) = Some v"
proof -
  obtain a b c d where v: "v = (a, b, c, d)" by (cases v) auto
  have "split_on (CHR ''.'') (show_ip4 v) = [show_nat (unat a), show_nat (unat b), show_nat (unat c), show_nat (unat d)]"
    by (simp add: v show_ip4_def split_on_append split_on_none octet_no_dot)
  then show ?thesis by (simp add: parse_ip4_def parse_octet_show v)
qed

text \<open>An IPv4 address is taken as it is, without a lookup; a name that resolves to any IPv4 address
  resolves to one of them, even if IPv6 addresses come first.\<close>

theorem resolve_host_ipv4:
  "resolve_host r (show_ip4 v) = Some (V4 v) \<and>
   (parse_ip r host = None \<and> rs_lookup r (host @ '':0'') = Some ips \<and> V4 w \<in> set ips \<longrightarrow>
      (\<exists>x. resolve_host r host = Some (V4 x) \<and> V4 x \<in> set ips))"
proof
  show "resolve_host r (show_ip4 v) = Some (V4 v)" by (simp add: resolve_host_def parse_ip_def parse_show_ip4)
  show "parse_ip r host = None \<and> rs_lookup r (host @ '':0'') = Some ips \<and> V4 w \<in> set ips \<longrightarrow>
      (\<exists>x. resolve_host r host = Some (V4 x) \<and> V4 x \<in> set ips)"
  proof
    assume a: "parse_ip r host = None \<and> rs_lookup r (host @ '':0'') = Some ips \<and> V4 w \<in> set ips"
    then have "find is_ipv4 ips \<noteq> None" by (auto simp: find_None_iff is_ipv4_def)
    then obtain i where i: "find is_ipv4 ips = Some i" by auto
    then have "i \<in> set ips" "is_ipv4 i" by (auto simp: find_Some_iff)
    with a i show "\<exists>x. resolve_host r host = Some (V4 x) \<and> V4 x \<in> set ips"
      by (cases i) (auto simp: resolve_host_def is_ipv4_def)
  qed
qed

definition demo_resolver :: resolver where
  "demo_resolver = \<lparr> rs_parse_ip6 = (\<lambda>_. None), rs_lookup = (\<lambda>_. Some [V6 1, V4 (10, 0, 0, 1)]) \<rparr>"

theorem resolve_host_ipv4_witness: "resolve_host demo_resolver ''seestar.local'' = Some (V4 (10, 0, 0, 1))"
proof -
  have "parse_ip demo_resolver ''seestar.local'' = None" by (simp add: parse_ip_def parse_ip4_def demo_resolver_def)
  then show ?thesis
    using resolve_host_ipv4 [of demo_resolver "(0, 0, 0, 0)" "''seestar.local''" "[V6 1, V4 (10, 0, 0, 1)]" "(10, 0, 0, 1)"]
    by (auto simp: demo_resolver_def)
qed

section \<open>A concrete start\<close>

definition demo_main :: main_env where
  "demo_main = \<lparr> me_replay_ok = (\<lambda>_. True), me_resolver = demo_resolver, me_recorder_ok = (\<lambda>_. True), me_hooks_ok = (\<lambda>_. True),
     me_wireguard = True, me_home = Some ''/root'',
     me_wg_start = (\<lambda>b port p ep up cp ip. fst (wg_start demo_wg_start b port p ep up cp ip [] NoConnection demo_fs)) \<rparr>"

definition demo_config :: config where
  "demo_config = default_config\<lparr> cf_bind := demo_proxy, cf_upstream := Some (show_ip4 (192, 168, 1, 50)), cf_wireguard := True,
     cf_wg_key_file := ''wg.key'', cf_control_port := 5700, cf_discovery := True \<rparr>"

lemma demo_upstream:
  "resolve_upstream demo_main demo_config = Inr (Some ((telescope_ip, 4700), (telescope_ip, 4800)))"
  by (simp add: resolve_upstream_def demo_config_def default_config_def demo_main_def resolve_host_def parse_ip_def parse_show_ip4
      telescope_ip_def)

lemma demo_key_path: "wg_key_path demo_main ''wg.key'' = demo_key_file"
  by (simp add: wg_key_path_def path_components_def demo_key_file_def starts_with_def)

lemma demo_startup:
  obtains p w where "startup demo_main demo_config = Ret (Inr (Proxy p))" "pp_wireguard p = Some w"
proof -
  obtain w fs where w: "wg_start demo_wg_start demo_proxy 51820 demo_key_file None telescope_ip 4700 4800 [] NoConnection demo_fs = (Ret (Inr w), fs)"
    by (rule demo_wg_start_runs)
  have "start_wireguard demo_main demo_config (Some ((telescope_ip, 4700), (telescope_ip, 4800))) = Ret (Inr (Some w))"
    using w by (simp add: start_wireguard_def demo_config_def default_config_def demo_key_path) (simp add: demo_main_def)
  then have "startup demo_main demo_config = Ret (Inr (Proxy (make_plan demo_config (Some ((telescope_ip, 4700), (telescope_ip, 4800))) (Some w))))"
    using demo_upstream by (simp add: startup_def start_proxy_def) (simp add: demo_config_def default_config_def)
  then show thesis using that by (simp add: make_plan_def)
qed


theorem startup_panics_witness: "startup demo_main (default_config\<lparr> cf_raw := True, cf_transparent := True \<rparr>) = Panic"
proof -
  let ?c = "default_config\<lparr> cf_raw := True, cf_transparent := True \<rparr>"
  have c: "cf_replay ?c = None \<or> cf_record ?c = None" "cf_hooks ?c = [] \<or> me_hooks_ok demo_main (cf_hooks ?c)"
    "resolve_upstream demo_main ?c = Inr None" "cf_transparent ?c \<and> cf_upstream ?c = None" "cf_raw ?c"
    by (simp_all add: default_config_def resolve_upstream_def)
  show ?thesis
    using startup_panics [OF c(1) _ _ c(2) c(3)] c(4,5) by (simp add: default_config_def)
qed

theorem tunnel_reaches_proxy_iff_witness:
  "\<exists>p w. startup demo_main demo_config = Ret (Inr (Proxy p)) \<and> pp_wireguard p = Some w \<and>
     st_bridge w (cf_upstream_control_port demo_config) \<noteq> snd (pp_control p)"
proof -
  obtain p w where p: "startup demo_main demo_config = Ret (Inr (Proxy p))" "pp_wireguard p = Some w" by (rule demo_startup)
  have "me_wg_start demo_main = (\<lambda>b port p ep up cp ip. fst (wg_start demo_wg_start b port p ep up cp ip [] NoConnection demo_fs))"
    by (simp add: demo_main_def)
  from tunnel_reaches_proxy_iff [OF this p] p show ?thesis by (auto simp: demo_config_def default_config_def)
qed

end
