(* ===== verification/System_Glue.thy ===== *)
theory System_Glue
  imports Startup Dashboard
begin

text \<open>
  The small modules around operating system and third-party interfaces: \<open>src/transparent.rs\<close>,
  \<open>src/ntp.rs\<close> and \<open>src/tailscale\<close>.  What the system call, the time server and the tailnet node
  answer are arguments.
\<close>

section \<open>Original destination\<close>

text \<open>\<open>getsockopt\<close> fails, or fills a \<open>sockaddr_in\<close>: family, port and address in network byte order.\<close>

definition get_original_dst :: "bytes option \<Rightarrow> sock_addr option" where
  "get_original_dst sockaddr = (case sockaddr of
      None \<Rightarrow> None
    | Some bs \<Rightarrow> Some (V4 (bs ! 4, bs ! 5, bs ! 6, bs ! 7), u16_from_be_bytes (bs ! 2) (bs ! 3)))"

definition sockaddr_in :: "u16 \<Rightarrow> ip4 \<Rightarrow> bytes" where
  "sockaddr_in port = (\<lambda>(a, b, c, d). [2, 0] @ u16_to_be_bytes port @ [a, b, c, d] @ replicate 8 0)"

lemma original_dst_roundtrip: "get_original_dst (Some (sockaddr_in port ip)) = Some (V4 ip, port)"
  by (cases ip) (simp add: get_original_dst_def sockaddr_in_def u16_to_be_bytes_def be_simps)

section \<open>Clock synchronisation\<close>

datatype ntp_error = NtpQuery | NtpConvert | NtpBeforeEpoch | NtpSet

text \<open>\<open>offset.abs() < 5.0\<close> on the bit patterns; a NaN is not below anything.\<close>

definition f64_abs_bits :: "f64 \<Rightarrow> nat" where
  "f64_abs_bits x = unat x mod 2 ^ 63"

definition DRIFT_THRESHOLD_SECS :: f64 where "DRIFT_THRESHOLD_SECS = 0x4014000000000000"

definition within_drift :: "f64 \<Rightarrow> bool" where
  "within_drift offset \<longleftrightarrow> f64_abs_bits offset < f64_abs_bits DRIFT_THRESHOLD_SECS"

text \<open>The query gives an offset and the time (\<open>None\<close>: not convertible, else seconds since the epoch, negative
  before it); \<open>set_clock\<close> is whether \<open>clock_settime\<close> accepts a time.\<close>

definition ntp_sync :: "(f64 \<times> int option) option \<Rightarrow> (nat \<Rightarrow> bool) \<Rightarrow> (ntp_error + f64 option) \<times> nat option" where
  "ntp_sync query set_clock = (case query of
      None \<Rightarrow> (Inl NtpQuery, None)
    | Some (offset, time) \<Rightarrow>
        if within_drift offset then (Inr None, None)
        else (case time of
            None \<Rightarrow> (Inl NtpConvert, None)
          | Some t \<Rightarrow>
              if t < 0 then (Inl NtpBeforeEpoch, None)
              else if set_clock (nat t) then (Inr (Some offset), Some (nat t))
              else (Inl NtpSet, None)))"

text \<open>The clock is only ever set to the server's time, after an offset of at least five seconds.\<close>

lemma ntp_sync_sets:
  "ntp_sync query set_clock = (r, Some t) \<Longrightarrow>
     \<exists>offset. query = Some (offset, Some (int t)) \<and> \<not> within_drift offset \<and> r = Inr (Some offset)"
  by (auto simp: ntp_sync_def split: option.splits if_splits)

text \<open>\<open>main\<close>: the clock is synchronised before anything else, if asked for; a failure is only logged.\<close>

definition main_clock :: "config \<Rightarrow> (f64 \<times> int option) option \<Rightarrow> (nat \<Rightarrow> bool) \<Rightarrow> nat option" where
  "main_clock c query set_clock = (if cf_ntp_sync c then snd (ntp_sync query set_clock) else None)"

lemma main_clock_sets:
  "main_clock c query set_clock = Some t \<Longrightarrow>
     cf_ntp_sync c \<and> (\<exists>offset. query = Some (offset, Some (int t)) \<and> \<not> within_drift offset)"
  using ntp_sync_sets [of query set_clock "fst (ntp_sync query set_clock)" t]
  by (auto simp: main_clock_def prod_eq_iff split: if_splits)

section \<open>Tailnet\<close>

record ts_info =
  ts_enabled :: bool
  ts_host :: string
  ts_node_ip :: "string option"

datatype ts_step = SetHostname | SetDir | SetAuthkey | SetControlUrl | Up

definition ts_steps :: "string option \<Rightarrow> string option \<Rightarrow> ts_step list" where
  "ts_steps authkey control_url =
     [SetHostname, SetDir] @ (if authkey = None then [] else [SetAuthkey]) @
     (if control_url = None then [] else [SetControlUrl]) @ [Up]"

definition ts_ports :: "u16 \<Rightarrow> u16 \<Rightarrow> u16 \<Rightarrow> u16 list" where
  "ts_ports control_port imaging_port dashboard_port =
     [control_port, imaging_port] @ (if dashboard_port \<noteq> 0 then [dashboard_port] else [])"

text \<open>\<open>start\<close>: the first step that fails is the error; otherwise the node's info and the ports it accepts on,
  each bridged to the same port of the local host.  A port whose \<open>listen\<close> fails is left out.\<close>

definition ts_start ::
    "(ts_step \<Rightarrow> bool) \<Rightarrow> ip_addr list option \<Rightarrow> (u16 \<Rightarrow> bool) \<Rightarrow> string \<Rightarrow> string option \<Rightarrow> string option \<Rightarrow>
     u16 \<Rightarrow> u16 \<Rightarrow> u16 \<Rightarrow> ts_step + ts_info \<times> (u16 \<times> sock_addr) list" where
  "ts_start ok ips listen hostname authkey control_url control_port imaging_port dashboard_port =
     (case find (\<lambda>st. \<not> ok st) (ts_steps authkey control_url) of
        Some st \<Rightarrow> Inl st
      | None \<Rightarrow> Inr
          (\<lparr> ts_enabled = True, ts_host = hostname,
             ts_node_ip = (case ips of None \<Rightarrow> None | Some l \<Rightarrow> map_option show_ip (find is_ipv4 l)) \<rparr>,
           map (\<lambda>p. (p, (ip_localhost, p))) (filter listen (ts_ports control_port imaging_port dashboard_port))))"

text \<open>\<open>tailscale/bridge.rs\<close>: the two copies run in one \<open>select\<close>, so the end of either direction ends the
  bridge.  The events are the reads of the two sides in the order in which they come, each with the
  result of writing it to the other side.\<close>

datatype bridge_event = FromTailnet pipe_read pipe_write | FromLocal pipe_read pipe_write

fun ts_copy :: "bridge_event list \<Rightarrow> bytes list \<times> bytes list" where
  "ts_copy (FromTailnet (PipeData bs) w # evs) =
     (if bs = [] then ([], [])
      else case w of
          WriteOk \<Rightarrow> (case ts_copy evs of (to_local, to_tailnet) \<Rightarrow> (bs # to_local, to_tailnet))
        | WriteErr k \<Rightarrow> ([take k bs], []))"
| "ts_copy (FromLocal (PipeData bs) w # evs) =
     (if bs = [] then ([], [])
      else case w of
          WriteOk \<Rightarrow> (case ts_copy evs of (to_local, to_tailnet) \<Rightarrow> (to_local, bs # to_tailnet))
        | WriteErr k \<Rightarrow> ([], [take k bs]))"
| "ts_copy _ = ([], [])"

definition ts_bridge :: "bool \<Rightarrow> bool \<Rightarrow> bool \<Rightarrow> bridge_event list \<Rightarrow> bytes list \<times> bytes list" where
  "ts_bridge nonblocking converted connected evs =
     (if nonblocking \<and> converted \<and> connected then ts_copy evs else ([], []))"

fun tailnet_data :: "bridge_event list \<Rightarrow> bytes list" where
  "tailnet_data [] = []"
| "tailnet_data (FromTailnet (PipeData bs) _ # evs) = bs # tailnet_data evs"
| "tailnet_data (_ # evs) = tailnet_data evs"

fun local_data :: "bridge_event list \<Rightarrow> bytes list" where
  "local_data [] = []"
| "local_data (FromLocal (PipeData bs) _ # evs) = bs # local_data evs"
| "local_data (_ # evs) = local_data evs"

text \<open>Neither direction of the bridge reorders or invents bytes.\<close>

lemma ts_bridge_prefix:
  "ts_bridge nb cv cn evs = (to_local, to_tailnet) \<Longrightarrow>
     prefix (concat to_local) (concat (tailnet_data evs)) \<and> prefix (concat to_tailnet) (concat (local_data evs))"
proof -
  have "prefix (concat (fst (ts_copy evs))) (concat (tailnet_data evs)) \<and>
      prefix (concat (snd (ts_copy evs))) (concat (local_data evs))"
    by (induction evs rule: ts_copy.induct) (auto split: prod.splits pipe_write.splits simp: prefix_prefix take_is_prefix)
  then show "ts_bridge nb cv cn evs = (to_local, to_tailnet) \<Longrightarrow>
     prefix (concat to_local) (concat (tailnet_data evs)) \<and> prefix (concat to_tailnet) (concat (local_data evs))"
    by (auto simp: ts_bridge_def split: if_splits)
qed

end
