(* ===== verification/Transparent_Mode.thy ===== *)
theory Transparent_Mode
  imports System_Glue
begin

text \<open>
  Where the proxy connects to (\<open>control::run\<close>, \<open>imaging::run\<close>): the configured address, or in transparent
  mode the address a client wanted to reach before its connection was redirected, kept in a
  \<open>OnceCell\<close>.  What \<open>getsockopt\<close> says of each client's socket is an argument.
\<close>

definition cell_set :: "'a \<Rightarrow> 'a option \<Rightarrow> 'a option" where
  "cell_set a c = (case c of None \<Rightarrow> Some a | Some b \<Rightarrow> Some b)"

definition upstream_cell :: "sock_addr option \<Rightarrow> sock_addr option" where
  "upstream_cell configured = (case configured of Some a \<Rightarrow> cell_set a None | None \<Rightarrow> None)"

text \<open>What the accept loops do with a new client.\<close>

definition resolve_client :: "bool \<Rightarrow> bytes option \<Rightarrow> sock_addr option \<Rightarrow> sock_addr option" where
  "resolve_client transparent sockaddr cell =
     (if transparent \<and> cell = None
      then (case get_original_dst sockaddr of Some orig \<Rightarrow> cell_set orig cell | None \<Rightarrow> cell) else cell)"

text \<open>The upstream task of the control port is woken by the first client and looks at the cell once, when some
  clients have been accepted.  What it finds, or the fallback it stores, is used from then on.\<close>

definition control_upstream_addr :: "bool \<Rightarrow> sock_addr option \<Rightarrow> bytes option list \<Rightarrow> sock_addr" where
  "control_upstream_addr transparent configured accepted =
     (case fold (resolve_client transparent) accepted (upstream_cell configured) of
        Some a \<Rightarrow> a | None \<Rightarrow> (ip_localhost, 4700))"

text \<open>The upstream task of the imaging port polls the cell until it is filled.\<close>

definition imaging_upstream_addr :: "bool \<Rightarrow> sock_addr option \<Rightarrow> bytes option list \<Rightarrow> sock_addr option" where
  "imaging_upstream_addr transparent configured accepted =
     fold (resolve_client transparent) accepted (upstream_cell configured)"

definition first_destination :: "bytes option list \<Rightarrow> sock_addr option" where
  "first_destination accepted = (case List.map_filter get_original_dst accepted of [] \<Rightarrow> None | d # _ \<Rightarrow> Some d)"

lemma first_destination_simps [simp]:
  "first_destination [] = None"
  "first_destination (c # cs) = (case get_original_dst c of Some d \<Rightarrow> Some d | None \<Rightarrow> first_destination cs)"
  by (simp_all add: first_destination_def map_filter_simps split: option.splits)

lemma resolve_kept: "fold (resolve_client tr) cs (Some a) = Some a"
  by (induction cs) (simp_all add: resolve_client_def)

lemma resolve_None: "resolve_client tr c None = (if tr then get_original_dst c else None)"
  by (simp add: resolve_client_def cell_set_def split: option.splits)

lemma resolve_Some: "resolve_client tr c (Some a) = Some a"
  by (simp add: resolve_client_def)

lemma resolve_clients: "fold (resolve_client tr) cs None = (if tr then first_destination cs else None)"
proof (induction cs)
  case (Cons c cs)
  then show ?case by (auto simp: resolve_None resolve_kept split: option.splits)
qed simp

text \<open>C34. The telescope's address: the configured one, whatever the clients do.  Without one, in transparent mode,
  both ports use the destination of the first client that has one, but the control port only looks at
  the clients accepted until its task runs, and if none of them has one it connects to
  127.0.0.1:4700 for good.  A client that was not redirected names the proxy itself, so the
  proxy then connects to its own port.\<close>

theorem transparent_upstream:
  "control_upstream_addr tr (Some a) cs = a \<and> imaging_upstream_addr tr (Some a) cs = Some a \<and>
   control_upstream_addr True None cs = (case first_destination cs of Some d \<Rightarrow> d | None \<Rightarrow> (ip_localhost, 4700)) \<and>
   imaging_upstream_addr True None cs = first_destination cs \<and>
   control_upstream_addr True None (Some (sockaddr_in port ip) # cs) = (V4 ip, port) \<and>
   imaging_upstream_addr True None (cs @ [c]) =
     (case imaging_upstream_addr True None cs of Some d \<Rightarrow> Some d | None \<Rightarrow> get_original_dst c)"
proof -
  have "fold (resolve_client True) (cs @ [c]) None =
    (case fold (resolve_client True) cs None of Some d \<Rightarrow> Some d | None \<Rightarrow> get_original_dst c)"
    by (simp add: resolve_None resolve_Some split: option.splits)
  then show ?thesis
    by (simp add: control_upstream_addr_def imaging_upstream_addr_def upstream_cell_def cell_set_def resolve_kept
        resolve_clients resolve_None original_dst_roundtrip split: option.splits)
qed

end
