(* ===== verification/Ble.thy ===== *)
theory Ble
  imports Discovery Wg_Dns
begin

text \<open>
  \<open>src/bin/ble_pair.rs\<close> and \<open>src/bin/ble_scan.rs\<close>: the command line tools that talk to a telescope
  over Bluetooth.  The Bluetooth library is a parameter: whether an operation succeeds (\<open>be_ok\<close>,
  \<open>be_write\<close>), the devices it reports and the notifications that come.  So are \<open>openssl\<close> and
  \<open>base64\<close>, which the pairing tool runs to sign a challenge.  A pairing session is a computation on
  the messages written so far and the notifications to come, which may fail or panic.
\<close>

section \<open>Finding the telescope\<close>

record gatt_char =
  gc_uuid :: "128 word"
  gc_props :: "string list" \<comment> \<open>the names of the property flags that are set\<close>
  gc_value :: "bytes option" \<comment> \<open>what a read gives\<close>
  gc_descriptors :: "128 word list"

record gatt_service =
  gs_uuid :: "128 word"
  gs_primary :: bool
  gs_chars :: "gatt_char list"

record device =
  dv_name :: "string option"
  dv_services :: "gatt_service list"

text \<open>A scan event: a device was discovered or updated (\<open>None\<close> if it or its properties cannot be
  read), or anything else.\<close>

datatype scan_event = OtherEvent | DeviceSeen "device option"

datatype ble_op = ManagerNew | Adapters | AdapterInfo | StartScan | AdapterEvents | StopScan | ConnectDevice
  | DiscoverServices | Notifications | Subscribe | Disconnect

datatype ble_error = Refused ble_op | NoAdapter | EventsEnded | ScanTimedOut | NoCharacteristic | NotSerializable
  | NotWritten | NoResponse string | NotificationsEnded | NoChallenge json | KeyRequired | SigningFailed
  | VerifyFailed json

text \<open>The scan ends with the event stream (\<open>ended\<close>) or when its time is up.\<close>

fun find_device :: "(string \<Rightarrow> string) \<Rightarrow> string \<Rightarrow> bool \<Rightarrow> scan_event list \<Rightarrow> ble_error + device" where
  "find_device ul wanted ended [] = Inl (if ended then EventsEnded else ScanTimedOut)"
| "find_device ul wanted ended (DeviceSeen (Some d) # evs) =
     (if str_contains (to_lowercase ul (case dv_name d of Some n \<Rightarrow> n | None \<Rightarrow> [])) (to_lowercase ul wanted)
      then Inr d else find_device ul wanted ended evs)"
| "find_device ul wanted ended (_ # evs) = find_device ul wanted ended evs"

record ble_env =
  be_ok :: "ble_op \<Rightarrow> bool"
  be_adapter :: bool
  be_lower :: "string \<Rightarrow> string"
  be_events :: "scan_event list"
  be_events_end :: bool
  be_write :: "nat \<Rightarrow> bool" \<comment> \<open>whether the write after \<open>n\<close> successful ones succeeds\<close>
  be_codec :: json_codec

definition first_refused :: "(ble_op \<Rightarrow> bool) \<Rightarrow> ble_op list \<Rightarrow> ble_error option" where
  "first_refused ok ops = map_option Refused (find (\<lambda>p. \<not> ok p) ops)"

text \<open>From the adapter to the connected device, in both tools.\<close>

definition ble_open :: "ble_env \<Rightarrow> string \<Rightarrow> ble_error + device" where
  "ble_open e wanted = (case first_refused (be_ok e) [ManagerNew, Adapters] of
      Some err \<Rightarrow> Inl err
    | None \<Rightarrow>
        if \<not> be_adapter e then Inl NoAdapter
        else case first_refused (be_ok e) [AdapterInfo, StartScan, AdapterEvents] of
            Some err \<Rightarrow> Inl err
          | None \<Rightarrow> (case find_device (be_lower e) wanted (be_events_end e) (be_events e) of
              Inl err \<Rightarrow> Inl err
            | Inr d \<Rightarrow> (case first_refused (be_ok e) [StopScan, ConnectDevice, DiscoverServices] of
                Some err \<Rightarrow> Inl err
              | None \<Rightarrow> Inr d)))"

section \<open>A pairing session\<close>

text \<open>What waiting for a notification gives.\<close>

datatype notif = Quiet | StreamEnd | Notified bytes

record ble =
  bl_sent :: "json list"
  bl_notifs :: "notif list"

type_synonym 'a session = "ble \<Rightarrow> (ble_error + 'a) run \<times> ble"

definition ble_return :: "'a \<Rightarrow> 'a session" where
  "ble_return x st = (Ret (Inr x), st)"

definition ble_lift :: "(ble_error + 'a) run \<Rightarrow> 'a session" where
  "ble_lift r st = (r, st)"

definition ble_bind :: "'a session \<Rightarrow> ('a \<Rightarrow> 'b session) \<Rightarrow> 'b session" where
  "ble_bind m f st = (case m st of
      (Panic, st') \<Rightarrow> (Panic, st')
    | (Ret (Inl err), st') \<Rightarrow> (Ret (Inl err), st')
    | (Ret (Inr x), st') \<Rightarrow> f x st')"

definition next_notif :: "ble \<Rightarrow> notif \<times> ble" where
  "next_notif st = (case bl_notifs st of [] \<Rightarrow> (Quiet, st) | n # ns \<Rightarrow> (n, st\<lparr> bl_notifs := ns \<rparr>))"

definition parse_notif :: "json_codec \<Rightarrow> bytes \<Rightarrow> json" where
  "parse_notif J bs = (case Option.bind (from_utf8 bs) (from_str J) of
      Some v \<Rightarrow> v | None \<Rightarrow> obj [(''raw'', Str (from_utf8_lossy bs))])"

text \<open>Write a command and take the next notification, whatever it is, as its response.\<close>

definition send_and_recv :: "ble_env \<Rightarrow> string \<Rightarrow> json \<Rightarrow> json session" where
  "send_and_recv e what msg st =
     (if to_vec (be_codec e) msg = None then (Ret (Inl NotSerializable), st)
      else if \<not> be_write e (length (bl_sent st)) then (Ret (Inl NotWritten), st)
      else case next_notif (st\<lparr> bl_sent := bl_sent st @ [msg] \<rparr>) of
          (Quiet, st') \<Rightarrow> (Ret (Inl (NoResponse what)), st')
        | (StreamEnd, st') \<Rightarrow> (Ret (Inl NotificationsEnded), st')
        | (Notified bs, st') \<Rightarrow> (Ret (Inr (parse_notif (be_codec e) bs)), st'))"

text \<open>\<open>pointer("/result/str")\<close>, or \<open>result\<close> itself if it is a string.\<close>

definition challenge_in :: "json \<Rightarrow> string option" where
  "challenge_in v =
     Option.bind (case pointer v [''result'', ''str''] of
         Some x \<Rightarrow> Some x
       | None \<Rightarrow> (case jget v ''result'' of Some r \<Rightarrow> if is_string r then Some r else None | None \<Rightarrow> None)) as_str"

definition spontaneous_challenge :: "ble_env \<Rightarrow> string session" where
  "spontaneous_challenge e st = (case next_notif st of
      (Notified bs, st') \<Rightarrow>
        (Ret (Inr (case challenge_in (parse_notif (be_codec e) bs) of Some s \<Rightarrow> s | None \<Rightarrow> [])), st')
    | (_, st') \<Rightarrow> (Ret (Inr []), st'))"

definition ble_message :: "nat \<Rightarrow> string \<Rightarrow> string \<Rightarrow> json \<Rightarrow> json" where
  "ble_message n meth sn params =
     obj [(''id'', num n), (''ble_method'', Str meth), (''ble_sn'', Str sn), (''params'', params)]"

definition ALREADY_TRUSTED :: string where "ALREADY_TRUSTED = ''__already_trusted__''"

definition request_challenge :: "ble_env \<Rightarrow> string \<Rightarrow> string session" where
  "request_challenge e sn =
     ble_bind (send_and_recv e ''get_verify_str'' (ble_message 1 ''get_verify_str'' sn (Str ''verify''))) (\<lambda>resp.
       case challenge_in resp of
         Some ch \<Rightarrow> ble_return ch
       | None \<Rightarrow>
           if jget resp ''code'' = None \<and> jget resp ''error'' = None then ble_return ALREADY_TRUSTED
           else ble_lift (Ret (Inl (NoChallenge resp))))"

text \<open>\<open>sign_challenge\<close>: the challenge is written to a file, signed by \<open>openssl\<close> and encoded by \<open>base64\<close>.
  \<open>None\<close> is a command that could not be run, \<open>Some None\<close> one that failed.  The paths are built from
  the directory of temporary files, which panics if its name is not UTF-8.\<close>

record sign_tools =
  sg_create :: bool
  sg_tmp_utf8 :: bool
  sg_openssl :: "string \<Rightarrow> bytes \<Rightarrow> bytes option option"
  sg_base64 :: "bytes \<Rightarrow> bytes option option"

definition sign_challenge :: "sign_tools \<Rightarrow> string \<Rightarrow> string \<Rightarrow> (ble_error + string) run" where
  "sign_challenge g key challenge =
     (if \<not> sg_create g then Ret (Inl SigningFailed)
      else if \<not> sg_tmp_utf8 g then Panic
      else case sg_openssl g key (as_bytes challenge) of
          Some (Some sig) \<Rightarrow> (case sg_base64 g sig of
              Some (Some out) \<Rightarrow> (case from_utf8 out of
                  Some s \<Rightarrow> Ret (Inr (trim s)) | None \<Rightarrow> Ret (Inl SigningFailed))
            | _ \<Rightarrow> Ret (Inl SigningFailed))
        | _ \<Rightarrow> Ret (Inl SigningFailed))"

text \<open>The printed ends of the signature: two slices.\<close>

definition signature_ends :: "string \<Rightarrow> (string \<times> string) run" where
  "signature_ends s =
     bind_run (str_slice s 0 8) (\<lambda>a. bind_run (str_slice s (length s - 8) (length s)) (\<lambda>b. Ret (a, b)))"

definition response_code :: "json \<Rightarrow> int option" where
  "response_code resp = Option.bind (jget resp ''code'') as_i64"

record ble_args =
  ba_name :: string
  ba_sn :: string
  ba_key :: "string option"
  ba_ssid :: "string option"
  ba_password :: "string option"

definition verify_message :: "string \<Rightarrow> string \<Rightarrow> string \<Rightarrow> json" where
  "verify_message sn sig challenge =
     ble_message 2 ''verify_client'' sn (obj [(''sign'', Str sig), (''data'', Str challenge)])"

definition verify :: "ble_env \<Rightarrow> sign_tools \<Rightarrow> ble_args \<Rightarrow> string \<Rightarrow> unit session" where
  "verify e g a challenge =
     (if challenge = ALREADY_TRUSTED then ble_return ()
      else case ba_key a of
          None \<Rightarrow> ble_lift (Ret (Inl KeyRequired))
        | Some key \<Rightarrow>
            ble_bind (ble_lift (sign_challenge g key challenge)) (\<lambda>sig.
            ble_bind (ble_lift (bind_run (signature_ends sig) (\<lambda>_. Ret (Inr ())))) (\<lambda>_.
            ble_bind (send_and_recv e ''verify_client'' (verify_message (ba_sn a) sig challenge)) (\<lambda>resp.
              if (case response_code resp of Some c \<Rightarrow> c | None \<Rightarrow> - 1) = 0 then ble_return ()
              else ble_lift (Ret (Inl (VerifyFailed resp)))))))"

definition wifi_message :: "string \<Rightarrow> string \<Rightarrow> string \<Rightarrow> string \<Rightarrow> json" where
  "wifi_message sn ssid password meth =
     ble_message 10 meth sn (obj [(''ssid'', Str ssid), (''password'', Str password)])"

text \<open>Try the methods in turn until one is accepted.  If none is, the loop ends as well.\<close>

fun set_wifi :: "ble_env \<Rightarrow> string \<Rightarrow> string \<Rightarrow> string \<Rightarrow> string list \<Rightarrow> unit session" where
  "set_wifi e sn ssid password [] = ble_return ()"
| "set_wifi e sn ssid password (meth # ms) =
     ble_bind (send_and_recv e meth (wifi_message sn ssid password meth)) (\<lambda>resp.
       if response_code resp = Some 0 \<or> response_code resp = None \<and> jget resp ''error'' = None then ble_return ()
       else set_wifi e sn ssid password ms)"

definition configure_wifi :: "ble_env \<Rightarrow> ble_args \<Rightarrow> unit session" where
  "configure_wifi e a = (case (ba_ssid a, ba_password a) of
      (Some ssid, Some password) \<Rightarrow> set_wifi e (ba_sn a) ssid password [''iscope_set_wifi'', ''set_wifi_ssid'']
    | _ \<Rightarrow> ble_bind (send_and_recv e ''get_wifi_info'' (ble_message 100 ''get_wifi_info'' (ba_sn a) (obj [])))
             (\<lambda>_. ble_return ()))"

definition ble_session :: "ble_env \<Rightarrow> sign_tools \<Rightarrow> ble_args \<Rightarrow> unit session" where
  "ble_session e g a =
     ble_bind (spontaneous_challenge e) (\<lambda>ch0.
     ble_bind (if ch0 \<noteq> [] then ble_return ch0 else request_challenge e (ba_sn a)) (\<lambda>ch.
     ble_bind (verify e g a ch) (\<lambda>_. configure_wifi e a)))"

definition SERVICE_UUID :: "128 word" where "SERVICE_UUID = 0x850e17016ecf49f1a13ff5c2d9174f9f"

definition CHAR_UUID :: "128 word" where "CHAR_UUID = 0x850e17026ecf49f1a13ff5c2d9174f9f"

definition seestar_characteristic :: "device \<Rightarrow> gatt_char option" where
  "seestar_characteristic d =
     Option.bind (find (\<lambda>s. gs_uuid s = SERVICE_UUID) (dv_services d)) (\<lambda>s. find (\<lambda>c. gc_uuid c = CHAR_UUID) (gs_chars s))"

definition ble_pair :: "ble_env \<Rightarrow> sign_tools \<Rightarrow> ble_args \<Rightarrow> unit session" where
  "ble_pair e g a = (case ble_open e (ba_name a) of
      Inl err \<Rightarrow> ble_lift (Ret (Inl err))
    | Inr d \<Rightarrow> (case seestar_characteristic d of
        None \<Rightarrow> ble_lift (Ret (Inl NoCharacteristic))
      | Some _ \<Rightarrow> (case first_refused (be_ok e) [Notifications, Subscribe] of
          Some err \<Rightarrow> ble_lift (Ret (Inl err))
        | None \<Rightarrow> ble_bind (ble_session e g a) (\<lambda>_.
            ble_lift (Ret (if be_ok e Disconnect then Inr () else Inl (Refused Disconnect)))))))"

section \<open>The scanner\<close>

text \<open>\<open>format_flags\<close>: the known flags in a fixed order.\<close>

definition format_flags :: "string list \<Rightarrow> string" where
  "format_flags props = join_with '' | ''
     (map snd (filter (\<lambda>(flag, _). flag \<in> set props)
       [(''READ'', ''READ''), (''WRITE'', ''WRITE''), (''WRITE_WITHOUT_RESPONSE'', ''WRITE_NO_RSP''),
        (''NOTIFY'', ''NOTIFY''), (''INDICATE'', ''INDICATE''), (''BROADCAST'', ''BROADCAST'')]))"

datatype report = ServiceLine "128 word" bool | CharLine "128 word" string | ValueLine bytes "string option"
  | ReadErrorLine | DescriptorLine "128 word"

definition char_report :: "gatt_char \<Rightarrow> report list" where
  "char_report c =
     [CharLine (gc_uuid c) (format_flags (gc_props c))] @
     (if ''READ'' \<in> set (gc_props c)
      then [case gc_value c of Some data \<Rightarrow> ValueLine data (from_utf8 data) | None \<Rightarrow> ReadErrorLine] else []) @
     map DescriptorLine (gc_descriptors c)"

definition ble_scan :: "ble_env \<Rightarrow> string \<Rightarrow> report list \<times> (ble_error + unit)" where
  "ble_scan e wanted = (case ble_open e wanted of
      Inl err \<Rightarrow> ([], Inl err)
    | Inr d \<Rightarrow>
        (concat (map (\<lambda>s. ServiceLine (gs_uuid s) (gs_primary s) # concat (map char_report (gs_chars s))) (dv_services d)),
         if be_ok e Disconnect then Inr () else Inl (Refused Disconnect)))"

section \<open>The device that is used\<close>

definition device_matches :: "(string \<Rightarrow> string) \<Rightarrow> string \<Rightarrow> device \<Rightarrow> bool" where
  "device_matches ul wanted d \<longleftrightarrow>
     str_contains (to_lowercase ul (case dv_name d of Some n \<Rightarrow> n | None \<Rightarrow> [])) (to_lowercase ul wanted)"

text \<open>The device is the first one seen whose name contains the wanted text, not only as a prefix.\<close>

lemma find_device_first:
  "find_device ul wanted ended evs = Inr d \<Longrightarrow>
     \<exists>before after. evs = before @ DeviceSeen (Some d) # after \<and> device_matches ul wanted d \<and>
       (\<forall>x. DeviceSeen (Some x) \<in> set before \<longrightarrow> \<not> device_matches ul wanted x)"
proof (induction evs)
  case (Cons ev evs)
  show ?case
  proof (cases "\<exists>x. ev = DeviceSeen (Some x) \<and> device_matches ul wanted x")
    case True
    with Cons.prems show ?thesis by (intro exI [of _ "[]"] exI [of _ evs]) (auto simp: device_matches_def)
  next
    case False
    then have "find_device ul wanted ended evs = Inr d"
      using Cons.prems by (cases "(ul, wanted, ended, ev # evs)" rule: find_device.cases) (auto simp: device_matches_def)
    then obtain before after where "evs = before @ DeviceSeen (Some d) # after" "device_matches ul wanted d"
      "\<forall>x. DeviceSeen (Some x) \<in> set before \<longrightarrow> \<not> device_matches ul wanted x"
      using Cons.IH by blast
    with False show ?thesis by (intro exI [of _ "ev # before"] exI [of _ after]) auto
  qed
qed simp

text \<open>The scanner reads a value only from a characteristic that can be read.\<close>

lemma char_report_reads:
  "ValueLine data text \<in> set (char_report c) \<Longrightarrow> ''READ'' \<in> set (gc_props c) \<and> gc_value c = Some data"
  by (auto simp: char_report_def split: if_splits option.splits)

section \<open>What precedes the password\<close>

lemma ble_bind_cases:
  assumes "ble_bind m f st = (r, st'')"
  obtains (stops) q where "m st = (q, st'')" "\<forall>x. r \<noteq> Ret (Inr x)"
  | (goes) x st' where "m st = (Ret (Inr x), st')" "f x st' = (r, st'')"
proof (cases "m st")
  case (Pair q st')
  show thesis
  proof (cases q)
    case (Ret y)
    with Pair assms that show thesis by (cases y) (auto simp: ble_bind_def)
  qed (use Pair assms that in \<open>auto simp: ble_bind_def\<close>)
qed

lemma send_and_recv_sent:
  "send_and_recv e what msg st = (r, st') \<Longrightarrow> bl_sent st' = bl_sent st \<or> bl_sent st' = bl_sent st @ [msg]"
  by (auto simp: send_and_recv_def next_notif_def split: if_splits list.splits notif.splits)

lemma send_and_recv_answer:
  "send_and_recv e what msg st = (Ret (Inr v), st') \<Longrightarrow>
     bl_sent st' = bl_sent st @ [msg] \<and>
     (\<exists>bs. bl_notifs st = Notified bs # bl_notifs st' \<and> v = parse_notif (be_codec e) bs)"
  by (auto simp: send_and_recv_def next_notif_def split: if_splits list.splits notif.splits)

lemma spontaneous_result:
  assumes "spontaneous_challenge e st = (r, st')"
  shows "bl_sent st' = bl_sent st \<and> set (bl_notifs st') \<subseteq> set (bl_notifs st) \<and>
     (\<exists>ch. r = Ret (Inr ch) \<and>
        (ch = [] \<or> (\<exists>bs. Notified bs \<in> set (bl_notifs st) \<and> challenge_in (parse_notif (be_codec e) bs) = Some ch)))"
  using assms by (auto simp: spontaneous_challenge_def next_notif_def split: list.splits notif.splits option.splits)

definition carries_password :: "json \<Rightarrow> bool" where
  "carries_password m \<longleftrightarrow> pointer m [''params'', ''password''] \<noteq> None"

lemma password_messages:
  "\<not> carries_password (ble_message n meth sn (Str x))" "\<not> carries_password (verify_message sn sig ch)"
  "\<not> carries_password (ble_message n meth sn (obj []))" "carries_password (wifi_message sn ssid pw meth)"
  by (simp_all add: carries_password_def ble_message_def verify_message_def wifi_message_def obj_def jget_def)

lemma send_and_recv_password:
  "send_and_recv e what msg st = (r, st') \<Longrightarrow> m \<in> set (bl_sent st') \<Longrightarrow> carries_password m \<Longrightarrow>
     \<not> carries_password msg \<Longrightarrow> m \<in> set (bl_sent st)"
  by (drule send_and_recv_sent) auto

lemma request_challenge_sent:
  assumes "request_challenge e sn st = (r, st')"
  shows "\<forall>m \<in> set (bl_sent st'). carries_password m \<longrightarrow> m \<in> set (bl_sent st)"
  using assms unfolding request_challenge_def
  by (cases rule: ble_bind_cases)
    (auto simp: password_messages ble_return_def ble_lift_def split: option.splits if_splits
      dest: send_and_recv_password)

lemma request_challenge_result:
  assumes "request_challenge e sn st = (Ret (Inr ch), st')"
  shows "bl_sent st' = bl_sent st @ [ble_message 1 ''get_verify_str'' sn (Str ''verify'')] \<and>
     (\<exists>bs. bl_notifs st = Notified bs # bl_notifs st' \<and>
        (case challenge_in (parse_notif (be_codec e) bs) of
           Some c \<Rightarrow> ch = c
         | None \<Rightarrow> ch = ALREADY_TRUSTED \<and> jget (parse_notif (be_codec e) bs) ''code'' = None \<and>
                    jget (parse_notif (be_codec e) bs) ''error'' = None))"
  using assms unfolding request_challenge_def
  by (cases rule: ble_bind_cases)
    (auto simp: ble_return_def ble_lift_def split: option.splits if_splits dest!: send_and_recv_answer)

lemma verify_sent:
  assumes "verify e g a ch st = (r, st')"
  shows "\<forall>m \<in> set (bl_sent st'). carries_password m \<longrightarrow> m \<in> set (bl_sent st)"
  using assms unfolding verify_def
  by (auto simp: ble_return_def ble_lift_def password_messages split: if_splits option.splits
      elim!: ble_bind_cases dest: send_and_recv_password)

lemma verify_result:
  assumes "verify e g a ch st = (Ret (Inr ()), st')" and "ch \<noteq> ALREADY_TRUSTED"
  shows "\<exists>key sig bs. ba_key a = Some key \<and> sign_challenge g key ch = Ret (Inr sig) \<and>
     bl_sent st' = bl_sent st @ [verify_message (ba_sn a) sig ch] \<and>
     bl_notifs st = Notified bs # bl_notifs st' \<and> response_code (parse_notif (be_codec e) bs) = Some 0"
  using assms unfolding verify_def
  by (auto simp: ble_return_def ble_lift_def split: if_splits option.splits
      elim!: ble_bind_cases dest!: send_and_recv_answer)

lemma set_wifi_sent: "set_wifi e sn ssid pw ms st = (r, st') \<Longrightarrow> \<exists>xs. bl_sent st' = bl_sent st @ xs"
proof (induction ms arbitrary: st)
  case (Cons m ms)
  from Cons.prems show ?case unfolding set_wifi.simps
  proof (cases rule: ble_bind_cases)
    case (goes x st1)
    then show ?thesis using Cons.IH send_and_recv_sent
      by (fastforce simp: ble_return_def split: if_splits)
  qed (use send_and_recv_sent in fastforce)
qed (simp add: ble_return_def)

lemma configure_wifi_sent:
  assumes "configure_wifi e a st = (r, st')" shows "\<exists>xs. bl_sent st' = bl_sent st @ xs"
proof -
  have "\<exists>xs. bl_sent st' = bl_sent st @ xs" if "ble_bind (send_and_recv e w m) (\<lambda>_. ble_return ()) st = (r, st')" for w m
    using that by (cases rule: ble_bind_cases) (use send_and_recv_sent in \<open>fastforce simp: ble_return_def\<close>)+
  then show ?thesis using assms set_wifi_sent by (auto simp: configure_wifi_def simp del: set_wifi.simps split: option.splits)
qed

text \<open>Once the password is sent, the verification was successful, and all it sent came first.\<close>

lemma verified_before_password:
  assumes "ble_bind (verify e g a ch) (\<lambda>_. configure_wifi e a) st = (r, st')"
    and "\<not> (\<exists>m \<in> set (bl_sent st). carries_password m)" and "\<exists>m \<in> set (bl_sent st'). carries_password m"
  shows "\<exists>st1. verify e g a ch st = (Ret (Inr ()), st1) \<and>
    set (bl_sent st1) \<subseteq> set (takeWhile (\<lambda>m. \<not> carries_password m) (bl_sent st'))"
  using assms(1)
proof (cases rule: ble_bind_cases)
  case (stops q)
  then show ?thesis using verify_sent assms(2,3) by blast
next
  case (goes u st1)
  then have v: "verify e g a ch st = (Ret (Inr ()), st1)" by simp
  have "\<not> (\<exists>m \<in> set (bl_sent st1). carries_password m)" using verify_sent [OF v] assms(2) by blast
  moreover have "\<exists>xs. bl_sent st' = bl_sent st1 @ xs" using configure_wifi_sent [OF goes(2)] .
  ultimately show ?thesis using v by (auto simp: takeWhile_append)
qed


text \<open>That way exists: a device that sends the marker as its challenge is sent the WiFi password at once,
  without a signature or any other check.\<close>

theorem marker_challenge_gets_password:
  assumes "challenge_in (parse_notif (be_codec e) bs) = Some ALREADY_TRUSTED"
    and "ba_ssid a = Some ssid" and "ba_password a = Some password" and "be_write e 0"
    and "to_vec (be_codec e) (wifi_message (ba_sn a) ssid password ''iscope_set_wifi'') \<noteq> None"
  shows "\<exists>r st rest. ble_session e g a \<lparr> bl_sent = [], bl_notifs = Notified bs # ns \<rparr> = (r, st) \<and>
     bl_sent st = wifi_message (ba_sn a) ssid password ''iscope_set_wifi'' # rest"
proof -
  let ?st = "\<lparr> bl_sent = [], bl_notifs = ns \<rparr>"
  obtain r st where c: "configure_wifi e a ?st = (r, st)" by fastforce
  have "spontaneous_challenge e \<lparr> bl_sent = [], bl_notifs = Notified bs # ns \<rparr> = (Ret (Inr ALREADY_TRUSTED), ?st)"
    using assms(1) by (simp add: spontaneous_challenge_def next_notif_def)
  then have s: "ble_session e g a \<lparr> bl_sent = [], bl_notifs = Notified bs # ns \<rparr> = (r, st)"
    using c by (simp add: ble_session_def ble_bind_def ble_return_def verify_def ALREADY_TRUSTED_def)
  obtain q st1 where w: "send_and_recv e ''iscope_set_wifi'' (wifi_message (ba_sn a) ssid password ''iscope_set_wifi'') ?st = (q, st1)"
    by fastforce
  then have w1: "bl_sent st1 = [wifi_message (ba_sn a) ssid password ''iscope_set_wifi'']"
    using assms(4,5) by (auto simp: send_and_recv_def next_notif_def split: list.splits notif.splits)
  have "\<exists>xs. bl_sent st = bl_sent st1 @ xs"
    using c assms(2,3) w set_wifi_sent [of e "ba_sn a" ssid password "[''set_wifi_ssid'']" st1 r st]
    by (auto simp: configure_wifi_def ble_return_def simp del: set_wifi.simps(2) elim!: ble_bind_cases split: if_splits)
       (auto simp: set_wifi.simps(2) [of e _ _ _ _ "[''set_wifi_ssid'']"] ble_return_def simp del: set_wifi.simps(2) elim!: ble_bind_cases split: if_splits)
  with s w1 show ?thesis by auto
qed

text \<open>Responses are matched by their order and not by their id.  A challenge that comes after the wait for it
  is taken for the response to the request that was sent in the meantime, and the response to that
  request for the verdict on the signature: pairing fails, although the signature was never judged.\<close>

theorem late_challenge_fails_pairing:
  assumes "challenge_in (parse_notif (be_codec e) b1) = Some ch" and "ch \<noteq> ALREADY_TRUSTED"
    and "response_code (parse_notif (be_codec e) b2) \<noteq> Some 0"
    and "ba_key a = Some key" and "sign_challenge g key ch = Ret (Inr sig)" and "signature_ends sig \<noteq> Panic"
    and "be_write e 0" and "be_write e 1" and "to_vec (be_codec e) (verify_message (ba_sn a) sig ch) \<noteq> None"
    and "to_vec (be_codec e) (ble_message 1 ''get_verify_str'' (ba_sn a) (Str ''verify'')) \<noteq> None"
  shows "ble_session e g a \<lparr> bl_sent = [], bl_notifs = Quiet # Notified b1 # Notified b2 # ns \<rparr> =
     (Ret (Inl (VerifyFailed (parse_notif (be_codec e) b2))),
      \<lparr> bl_sent = [ble_message 1 ''get_verify_str'' (ba_sn a) (Str ''verify''), verify_message (ba_sn a) sig ch], bl_notifs = ns \<rparr>)"
proof -
  obtain x where "signature_ends sig = Ret x" using assms(6) by (cases "signature_ends sig") auto
  with assms show ?thesis
    by (auto simp: ble_session_def ble_bind_def spontaneous_challenge_def next_notif_def request_challenge_def
        send_and_recv_def ble_return_def ble_lift_def verify_def split: option.splits)
qed

section \<open>A concrete pairing\<close>

definition ble_demo_codec :: json_codec where
  "ble_demo_codec =
     \<lparr> from_str = (\<lambda>s. if s = ''c'' then Some (obj [(''result'', Str ''nonce'')])
         else if s = ''m'' then Some (obj [(''result'', Str ALREADY_TRUSTED)])
         else if s = ''0'' then Some (obj [(''code'', num 0)]) else None),
       to_string = (\<lambda>_. Some ''x'') \<rparr>"

definition ble_demo :: ble_env where
  "ble_demo = \<lparr> be_ok = (\<lambda>_. True), be_adapter = True, be_lower = id, be_events = [], be_events_end = False,
     be_write = (\<lambda>_. True), be_codec = ble_demo_codec \<rparr>"

definition ble_demo_tools :: sign_tools where
  "ble_demo_tools = \<lparr> sg_create = True, sg_tmp_utf8 = True, sg_openssl = (\<lambda>_ d. Some (Some d)),
     sg_base64 = (\<lambda>_. Some (Some (as_bytes ''c2lnbmF0dXJl''))) \<rparr>"

definition ble_demo_args :: ble_args where
  "ble_demo_args = \<lparr> ba_name = ''S50_'', ba_sn = ''token'', ba_key = Some ''client.pem'', ba_ssid = Some ''home'',
     ba_password = Some ''secret'' \<rparr>"

lemma ble_demo_parse:
  "parse_notif ble_demo_codec (as_bytes ''c'') = obj [(''result'', Str ''nonce'')]"
  "parse_notif ble_demo_codec (as_bytes ''m'') = obj [(''result'', Str ALREADY_TRUSTED)]"
  "parse_notif ble_demo_codec (as_bytes ''0'') = obj [(''code'', num 0)]"
proof -
  have "from_utf8 (as_bytes ''c'') = Some ''c''" "from_utf8 (as_bytes ''m'') = Some ''m''" "from_utf8 (as_bytes ''0'') = Some ''0''"
    by code_simp+
  then show "parse_notif ble_demo_codec (as_bytes ''c'') = obj [(''result'', Str ''nonce'')]"
    "parse_notif ble_demo_codec (as_bytes ''m'') = obj [(''result'', Str ALREADY_TRUSTED)]"
    "parse_notif ble_demo_codec (as_bytes ''0'') = obj [(''code'', num 0)]"
    by (simp_all add: parse_notif_def ble_demo_codec_def)
qed

lemma ble_demo_facts:
  "challenge_in (obj [(''result'', Str x)]) = Some x" "challenge_in (obj [(''code'', num 0)]) = None"
  "response_code (obj [(''code'', num 0)]) = Some 0" "response_code (obj [(''result'', Str x)]) = None"
  "jget (obj [(''code'', num 0)]) ''code'' \<noteq> None"
  by (simp_all add: challenge_in_def response_code_def obj_def jget_def is_string_def as_i64_def num_def)

lemma ble_demo_signs: "sign_challenge ble_demo_tools key ch = Ret (Inr ''c2lnbmF0dXJl'')" "signature_ends ''c2lnbmF0dXJl'' \<noteq> Panic"
proof -
  have "from_utf8 (as_bytes ''c2lnbmF0dXJl'') = Some ''c2lnbmF0dXJl''" "trim ''c2lnbmF0dXJl'' = ''c2lnbmF0dXJl''" by code_simp+
  then show "sign_challenge ble_demo_tools key ch = Ret (Inr ''c2lnbmF0dXJl'')"
    by (simp add: sign_challenge_def ble_demo_tools_def)
  show "signature_ends ''c2lnbmF0dXJl'' \<noteq> Panic" by code_simp
qed

lemma ble_demo_codes: "be_codec ble_demo = ble_demo_codec" "be_write ble_demo n" "to_vec ble_demo_codec v \<noteq> None"
  by (simp_all add: ble_demo_def to_vec_def ble_demo_codec_def)

lemma ble_demo_runs:
  "ble_session ble_demo ble_demo_tools ble_demo_args
     \<lparr> bl_sent = [], bl_notifs = [Notified (as_bytes ''c''), Notified (as_bytes ''0''), Notified (as_bytes ''0'')] \<rparr> =
   (Ret (Inr ()), \<lparr> bl_sent = [verify_message ''token'' ''c2lnbmF0dXJl'' ''nonce'', wifi_message ''token'' ''home'' ''secret'' ''iscope_set_wifi''],
      bl_notifs = [] \<rparr>)"
proof -
  obtain x where x: "signature_ends ''c2lnbmF0dXJl'' = Ret x" using ble_demo_signs(2) by (cases "signature_ends ''c2lnbmF0dXJl''") auto
  show ?thesis
    by (simp add: ble_session_def ble_bind_def spontaneous_challenge_def next_notif_def ble_demo_codes ble_demo_parse ble_demo_facts
        ble_return_def verify_def ALREADY_TRUSTED_def ble_demo_args_def ble_lift_def ble_demo_signs(1) x send_and_recv_def configure_wifi_def)
qed


theorem marker_challenge_gets_password_witness:
  "\<exists>r st rest. ble_session ble_demo ble_demo_tools ble_demo_args \<lparr> bl_sent = [], bl_notifs = [Notified (as_bytes ''m'')] \<rparr> = (r, st) \<and>
     bl_sent st = wifi_message ''token'' ''home'' ''secret'' ''iscope_set_wifi'' # rest"
  using marker_challenge_gets_password [of ble_demo "as_bytes ''m''" ble_demo_args "''home''" "''secret''" ble_demo_tools "[]"]
  by (simp add: ble_demo_codes ble_demo_parse ble_demo_facts) (simp add: ble_demo_args_def)

theorem late_challenge_fails_pairing_witness:
  "fst (ble_session ble_demo ble_demo_tools ble_demo_args
     \<lparr> bl_sent = [], bl_notifs = [Quiet, Notified (as_bytes ''c''), Notified (as_bytes ''c'')] \<rparr>) =
   Ret (Inl (VerifyFailed (obj [(''result'', Str ''nonce'')])))"
proof -
  have k: "ba_key ble_demo_args = Some ''client.pem''" "''nonce'' \<noteq> ALREADY_TRUSTED" by (simp_all add: ble_demo_args_def ALREADY_TRUSTED_def)
  from late_challenge_fails_pairing [of ble_demo "as_bytes ''c''" "''nonce''" "as_bytes ''c''" ble_demo_args, OF _ k(2) _ k(1) ble_demo_signs, of "[]"]
  show ?thesis by (simp add: ble_demo_codes ble_demo_parse ble_demo_facts)
qed

end
