(* ===== verification/Spec2Isabelle.thy ===== *)
theory Spec2Isabelle
  imports Control_Tasks Control_Cycle Replay_Mode Replay_Imaging Wg_Ports Dashboard_Session Transparent_Mode Ble
begin

text \<open>
  A verification of seestar-proxy, a proxy between one Seestar telescope and many clients.

  \<^bold>\<open>The program.\<close>  The telescope accepts one connection on its JSON-RPC control port and one on its imaging
  port.  The proxy holds both and serves any number of clients: requests get fresh ids and answers go
  back to the client that asked, events and image frames are fanned out.  Around this core stand Lua
  hooks that see every message, a recorder and its replay, UDP discovery that directs clients to the
  proxy, a WireGuard tunnel with its own packet handling, DNS, TCP stack and key files, a dashboard,
  and the configuration and startup that tie the parts together.  Two tools of their own look for a
  telescope over Bluetooth and give it the password of a network.

  \<^bold>\<open>Theories and the code they model\<close> (all files under \<open>src/src/\<close>).
  \<^item> \<open>Proxy_Base\<close>: the prelude.  Machine integers are words; a Rust panic is the value \<open>Panic\<close> of type
    \<open>run\<close>; strings are lists of UTF-8 bytes, with the slicing, lossy decoding and trimming of \<open>str\<close>.
    \<open>Json_Value\<close> is \<open>serde_json::Value\<close> (locale \<open>string_map\<close>, interpreted on the sorted association
    lists of objects); \<open>Channels\<close> the bounded and broadcast channels of tokio (locale \<open>bounded_fifo\<close>);
    \<open>Net_Addr\<close> addresses and paths; \<open>Line_Text\<close> and \<open>Long_Word\<close> facts about decoded lines.
  \<^item> \<open>Machines\<close>: step relations, with the locales \<open>counted_invariant\<close> and \<open>refinement\<close>; \<open>Serving\<close>: loops
    that serve one event after the other, with \<open>serve_invariant\<close>, \<open>serve_total\<close> and \<open>serve_filter\<close>.
  \<^item> \<open>Protocol\<close> (\<open>protocol.rs\<close>), \<open>Metrics\<close> (\<open>metrics.rs\<close>), \<open>Recorder\<close> (\<open>recorder.rs\<close>), \<open>Hooks\<close>
    (\<open>hooks.rs\<close>), \<open>Replay\<close> (\<open>replay.rs\<close>): the operations of each file as functions on a record.
  \<^item> \<open>Line_Io\<close>, \<open>Control\<close> (\<open>control.rs\<close>): line input, and what each task does between two awaits.
    \<open>Control_System\<close> interleaves the tasks in the step relation \<open>control_step\<close> (accept loop, client
    readers and writers, upstream connection and reader, heartbeat; the mutex is part of the state).
    \<open>Router\<close> is the abstract machine it refines.  \<open>Control_Routing\<close>, \<open>Control_Tasks\<close>,
    \<open>Control_Progress\<close> and \<open>Control_Cycle\<close> hold the properties, \<open>Control_Demo\<close> a concrete run.
  \<^item> \<open>Imaging\<close> (\<open>imaging.rs\<close>): framing, and the fan-out as the step relation \<open>imaging_step\<close>.
  \<^item> \<open>Replay_Mode\<close>: the control proxy with the player of \<open>replay.rs\<close> in the telescope's place, as the step
    relation \<open>replay_step\<close>; \<open>Replay_Imaging\<close>: the same for the imaging proxy; \<open>Transparent_Mode\<close>: the upstream addresses that \<open>control.rs\<close>, \<open>imaging.rs\<close>
    and \<open>transparent.rs\<close> share.
  \<^item> \<open>Discovery\<close> (\<open>discovery.rs\<close>): socket setup, probing, and one turn per datagram.
  \<^item> \<open>Checksum\<close>, \<open>Wg_Packets\<close> (\<open>wireguard/tunnel_discovery.rs\<close>), \<open>Wg_Dns\<close> (\<open>wireguard/dns.rs\<close>),
    \<open>Wg_Tunnel\<close> (\<open>packet_loop\<close> of \<open>wireguard/mod.rs\<close>), \<open>Wg_Keys\<close> (\<open>wireguard/keys.rs\<close>), \<open>Wg_Setup\<close> (the
    rest of \<open>wireguard/mod.rs\<close>, and \<open>qr.rs\<close>), \<open>Wg_Netstack\<close> (\<open>wireguard/netstack.rs\<close>, \<open>bridge.rs\<close>; step
    relation \<open>tunnel_step\<close>), \<open>Wg_Ports\<close> (the life of the two listening sockets).
  \<^item> \<open>Dashboard\<close> (the handlers of \<open>dashboard.rs\<close>; \<open>Doubles\<close> is its \<open>f64\<close> arithmetic, bit by bit),
    \<open>Dashboard_Page\<close> (the script in the page that \<open>dashboard.rs\<close> serves, one definition per function and
    event handler, on a record of its variables and elements), \<open>Dashboard_Session\<close> (log, event stream and
    page together; locale \<open>page_contract\<close>).
  \<^item> \<open>Config\<close> (\<open>config.rs\<close>), \<open>Startup\<close> (\<open>main.rs\<close>), \<open>System_Glue\<close> (\<open>transparent.rs\<close>, \<open>ntp.rs\<close>,
    \<open>tailscale/\<close>), \<open>Ble\<close> (\<open>bin/ble_pair.rs\<close>, \<open>bin/ble_scan.rs\<close>).

  \<^bold>\<open>What is shown.\<close>
  \<^item> Routing: every interleaving of the control tasks refines the abstract router; at most 1024 requests
    are pending, an entry is never redirected, an answer reaches only the client whose request it
    answers, at most once.  From every reachable state the tasks of the proxy can bring a response to
    the client that waits for it, and a request to the telescope, and so serve a request from the
    client's line to the client's answer.  Every message in a channel has the
    form its reader relies on.  What a reconnect, a hook and a heartbeat do to pending requests.
  \<^item> Streams: lines and frames are the same however the input is cut into reads; every imaging client
    gets a subsequence of the frames in order; a recorded session replays as it was received (up to
    10000 frames), and every imaging client of a replay gets a subsequence of it; tunnel connections and raw pipes never reorder or invent data; the dashboard's log
    stream has neither repetitions nor, at up to 100 entries a second, gaps, and the page shows and
    records every entry it gets exactly once, through reconnects and whatever is clicked.
  \<^item> Addresses and identity: discovery only ever directs clients to the proxy and learns from the
    telescope alone; a restart of the tunnel keeps its keys; packets the tunnel builds are well formed
    with valid checksums; the tunnel sends only to peers it has heard.  In transparent mode the first
    client with a destination decides where the proxy connects.
  \<^item> Configuration and startup: loading is the layering of explicit values over the file over defaults,
    and a started proxy is consistent.  The pairing tool sends a Wi-Fi password only after
    the telescope has trusted it, with one exception.
  \<^item> Failures: which inputs end a task or the program, and exactly when: log slices inside a character,
    a UDP length below 8, an error response in discovery, raw mode without a telescope, a client that
    does not read while its rejection is sent, a tunnel whose ports differ from the proxy's, requests
    in replay mode that nobody answers, a tunnel that has used up its two sockets, a page that outlives
    the proxy it was loaded from, a recording that cannot be exported.

  \<^bold>\<open>Outside code.\<close>  Third-party code is an argument: the JSON codec (\<open>json_codec\<close>), serde's record formats, the
  Lua runtime, the WireGuard implementation, base64 and x25519, TOML, the resolver, the network and
  file system.  Nothing is assumed of it except where a theorem says so: a codec that reads back what
  it wrote (\<open>key_codec_ok\<close>, \<open>line_ok\<close>), a WireGuard implementation that rejects replayed datagrams
  (\<open>receive_datagram_returns\<close>), a browser that reads the JSON the server writes (\<open>parses_messages\<close>), a TCP
  socket that stays closed until it is told to listen again (\<open>closed_stays\<close>).  The built-in functions of
  the browser that the page's script calls are the record \<open>browser\<close>.  What the environment does in time (which read comes, whether a send
  succeeds) is an argument of a function or a choice of a step relation, so the theorems hold for all
  of it.

  \<^bold>\<open>Bounds and loops.\<close>  There is no fuel: loops are recursion with a termination proof, loops over events
  recursion on the list of events, and the one loop that need not end (\<open>decrypt_loop\<close>) is a partial
  function with its own theorem of termination.  Counters are 64-bit words that wrap; theorems that
  need them not to wrap bound the number of steps by \<open>2 ^ 64 - 100000\<close> or the like.  The page keeps its
  numbers as doubles, so its theorems are about the first \<open>2 ^ 53\<close> entries of the log.

  \<^bold>\<open>Not modelled.\<close>  The markup and style sheet of the dashboard (text without behaviour; the script in it is
  modelled) and the HTTP server (axum); real time (a
  timeout is an event, a sleep has no effect); log output, except for its panics; the banner of
  \<open>main\<close>; the TCP state machine (smoltcp); the radio itself: what the Bluetooth library finds and what
  the telescope answers are arguments of the two tools.
\<close>

section \<open>Properties that span components\<close>

text \<open>C1. The control proxy refines the abstract request router: every run of its tasks, however they
  interleave, is matched step for step by a run of a router that hands out fresh ids and keeps one
  table of outstanding requests.\<close>

theorem control_refines_router:
  assumes "reach_in sys_start (control_step J) n s"
  shows "reach_in router_start router_step n (abst s)"
  using assms by (rule sim.reach_refines)

theorem control_refines_router_witness:
  "reach_in router_start router_step 10 (abst demo_delivering)"
  by (rule control_refines_router [OF demo_reaches_delivering])


definition live_payload :: bytes where
  "live_payload = replicate 1001 7"

definition live_recording :: recorder where
  "live_recording = recorded demo_rc demo_msgs [(demo_frame, live_payload)]"

definition live_dir :: session_dir where
  "live_dir = demo_dir\<lparr> sd_control := Some (control_file live_recording),
     sd_read := (\<lambda>n. map_of [(''frames/frame_0000_stack.bin'', demo_frame @ live_payload)] (''frames/'' @ n)) \<rparr>"

lemma live_finalized: "on_disk (finalize demo_rc (\<lambda>_. True) [] 0 live_recording) [''frame_0000_stack.bin''] live_dir"
proof -
  have "ser_manifest demo_rc m = Some ''{}''" for m by (simp add: demo_rc_def)
  then show ?thesis
    by (auto simp: on_disk_def finalize_def fs_write_def live_dir_def demo_dir_def live_recording_def demo_files)
qed


text \<open>From an imaging client to the export of the dashboard: the text of every line a client sends is kept in
  the log as it is, and one line that is not JSON, once it is in a recording, makes its export fail.\<close>

lemma imaging_text_breaks_export:
  assumes "n \<noteq> 0" and "length line \<le> MAX_LINE_BYTES" and "trim (from_utf8_lossy line) = t" and "t \<noteq> []"
    and "bw_parse b t = None" and "img_line J nw n line s = (s', pc)" and "img_metrics s' = Some m"
    and "page_entry (last (log m)) \<in> set (recordStore pg)" and "\<not> exp_disabled pg"
  shows "pc = ISending t \<and> click_export b pg = Inl SyntaxError"
proof -
  have "payload (last (log m)) = Some t" and "pc = ISending t"
    using assms(1-4,6,7)
    by (auto simp: img_line_def Let_def img_metrics_map_def push_log_with_payload_def log_append_def)
  then show ?thesis using assms(4,5,9) export_needs_json [OF assms(8)] by (simp add: page_entry_def truthy_def)
qed

end
